(* ===== verification/Prelude.thy ===== *)
theory Prelude
  imports Main "HOL-Library.Word"
begin

text \<open>
  Shared vocabulary of the development: machine integers, byte strings, errors as values of a sum
  type, big-endian integers, UTF-8 and the few string operations of the Rust standard library the
  program uses, and two small monads. \<open>parser\<close> is a pure reader over a byte list (a Rust
  \<open>Cursor\<close>); \<open>('s, 'a) sm\<close> is a fallible computation over a mutable state
  (an async function over a stream). \<open>implements\<close> relates the two: it is the refinement
  relation used wherever a stateful reader has to agree with a pure parser of the bytes it holds.
\<close>

named_theorems res_simps \<open>unfolding rules for the fallible combinators\<close>
named_theorems wire_simps \<open>lengths and contents of encoded fields\<close>
named_theorems eval_simps \<open>rules that evaluate encoders on concrete values\<close>

section \<open>Types\<close>

type_synonym u8 = "8 word"
type_synonym u16 = "16 word"
type_synonym u32 = "32 word"
type_synonym u64 = "64 word"
type_synonym usize = nat
type_synonym bytes = "u8 list"
type_synonym instant = nat
type_synonym duration = nat

text \<open>
  Instants and durations count nanoseconds, the resolution of \<open>std::time\<close>;
  \<open>saturating_duration_since\<close> is truncating subtraction.
\<close>

definition from_secs :: "nat \<Rightarrow> duration" where
  "from_secs n = n * 1000000000"

definition from_millis :: "nat \<Rightarrow> duration" where
  "from_millis n = n * 1000000"

definition saturating_duration_since :: "instant \<Rightarrow> instant \<Rightarrow> duration" where
  "saturating_duration_since now earlier = now - earlier"

text \<open>
  Errors. \<open>Bail\<close> carries the literal part of an \<open>anyhow\<close> message, the other constructors
  are the error types of the standard library the code converts with the question mark operator.
\<close>

datatype error =
    UnexpectedEof
  | IoError
  | Utf8Error
  | ParseIntError
  | Bail string

type_synonym 'a res = "error + 'a"

definition and_then :: "'a res \<Rightarrow> ('a \<Rightarrow> 'b res) \<Rightarrow> 'b res" where
  [res_simps]: "and_then r f = (case r of Inl e \<Rightarrow> Inl e | Inr x \<Rightarrow> f x)"

definition ensure :: "bool \<Rightarrow> string \<Rightarrow> unit res" where
  [res_simps]: "ensure b msg = (if b then Inr () else Inl (Bail msg))"

definition ok_or :: "'a option \<Rightarrow> error \<Rightarrow> 'a res" where
  [res_simps]: "ok_or x e = (case x of None \<Rightarrow> Inl e | Some y \<Rightarrow> Inr y)"

definition is_ok :: "'a res \<Rightarrow> bool" where
  [res_simps]: "is_ok r = (case r of Inl _ \<Rightarrow> False | Inr _ \<Rightarrow> True)"

lemma and_then_simps [simp]:
  "and_then (Inl e) f = Inl e"
  "and_then (Inr x) f = f x"
  by (simp_all add: and_then_def)

lemma and_then_assoc: "and_then (and_then r f) g = and_then r (\<lambda>x. and_then (f x) g)"
  by (cases r) simp_all

lemma and_then_Inr_iff:
  "and_then r f = Inr y \<longleftrightarrow> (\<exists>x. r = Inr x \<and> f x = Inr y)"
  by (cases r) auto

lemma ensure_simps [simp]:
  "ensure b msg = Inr u \<longleftrightarrow> b"
  "ensure True msg = Inr ()"
  "ensure False msg = Inl (Bail msg)"
  by (simp_all add: ensure_def)

lemma ok_or_simps [simp]:
  "ok_or None e = Inl e"
  "ok_or (Some y) e = Inr y"
  by (simp_all add: ok_or_def)

lemma is_ok_simps [simp]: "is_ok (Inr x)" "\<not> is_ok (Inl e)"
  by (simp_all add: is_ok_def)

lemma is_ok_iff: "is_ok r \<longleftrightarrow> (\<exists>x. r = Inr x)"
  by (cases r) auto

section \<open>Big-endian integers\<close>

text \<open>\<open>to_be n v\<close> is the \<open>n\<close>-byte big-endian form of \<open>v\<close>, \<open>of_be\<close> its inverse.\<close>

fun to_be :: "nat \<Rightarrow> nat \<Rightarrow> bytes" where
  "to_be 0 v = []"
| "to_be (Suc n) v = to_be n (v div 256) @ [of_nat v]"

lemma to_be_numeral [eval_simps]:
  "to_be (numeral k) v = to_be (pred_numeral k) (v div 256) @ [of_nat v]"
  by (simp only: numeral_eq_Suc [of k] to_be.simps)

definition of_be :: "bytes \<Rightarrow> nat" where
  [eval_simps]: "of_be bs = foldl (\<lambda>acc b. acc * 256 + unat b) 0 bs"

lemma unat_less_pow: "unat (w :: 'a::len word) < 2 ^ LENGTH('a)"
  by (rule unsigned_less)

lemma unat_u8_less [simp]: "unat (b :: u8) < 256"
  using unat_less_pow [of b] by simp

lemma unat_u16_less [simp]: "unat (w :: u16) < 65536"
  using unat_less_pow [of w] by simp

lemma of_be_Nil [simp]: "of_be [] = 0"
  by (simp add: of_be_def)

lemma of_be_snoc [simp]: "of_be (bs @ [b]) = of_be bs * 256 + unat b"
  by (simp add: of_be_def)

lemma length_to_be [simp, wire_simps]: "length (to_be n v) = n"
  by (induction n arbitrary: v) auto

lemma unat_of_nat_u16: "unat (of_nat v :: u16) = v mod 65536"
  by (simp add: unat_of_nat)

lemma unat_of_nat_u8: "unat (of_nat v :: u8) = v mod 256"
  by (simp add: unat_of_nat)

lemma of_be_to_be: "of_be (to_be n v) = v mod 256 ^ n"
proof (induction n arbitrary: v)
  case 0
  then show ?case by simp
next
  case (Suc n)
  have "of_be (to_be (Suc n) v) = v div 256 mod 256 ^ n * 256 + v mod 256"
    by (simp add: Suc.IH unat_of_nat_u8)
  also have "\<dots> = v mod 256 ^ Suc n"
    by (simp add: mod_mult2_eq mult.commute)
  finally show ?case .
qed

lemma of_be_less: "of_be bs < 256 ^ length bs"
proof (induction bs rule: rev_induct)
  case Nil
  then show ?case by simp
next
  case (snoc b bs)
  have "unat b < 256" by simp
  then have "of_be (bs @ [b]) < of_be bs * 256 + 256" by simp
  also have "\<dots> = Suc (of_be bs) * 256" by simp
  also have "\<dots> \<le> 256 ^ length bs * 256"
    using snoc.IH by (intro mult_right_mono) auto
  finally show ?case by simp
qed

lemma to_be_of_be: "length bs = n \<Longrightarrow> to_be n (of_be bs) = bs"
proof (induction bs arbitrary: n rule: rev_induct)
  case Nil
  then show ?case by simp
next
  case (snoc b bs)
  then obtain m where m: "n = Suc m" "length bs = m" by (cases n) auto
  have b: "unat b < 256" by simp
  have d: "(of_be bs * 256 + unat b) div 256 = of_be bs" using b by simp
  have z: "(256 :: u8) = 0" by simp
  have "(of_nat (of_be bs * 256 + unat b) :: u8) = b" by (simp add: z)
  with m d show ?case by (simp add: snoc.IH)
qed

definition be16 :: "u16 \<Rightarrow> bytes" where
  [eval_simps]: "be16 w = to_be 2 (unat w)"

definition be32 :: "u32 \<Rightarrow> bytes" where
  [eval_simps]: "be32 w = to_be 4 (unat w)"

lemma length_be16 [simp, wire_simps]: "length (be16 w) = 2"
  by (simp add: be16_def)

lemma length_be32 [simp, wire_simps]: "length (be32 w) = 4"
  by (simp add: be32_def)

text \<open>A word written in \<open>n\<close> bytes reads back when it has at most \<open>8 * n\<close> bits.\<close>

lemma word_of_be_to_be:
  fixes w :: "'a::len word"
  assumes "LENGTH('a) \<le> 8 * n"
  shows "(of_nat (of_be (to_be n (unat w))) :: 'a word) = w"
proof -
  have "unat w < 2 ^ LENGTH('a)" by (rule unat_less_pow)
  also have "\<dots> \<le> 2 ^ (8 * n)" using assms by (intro power_increasing) auto
  also have "\<dots> = 256 ^ n" by (simp add: power_mult)
  finally show ?thesis by (simp add: of_be_to_be)
qed

lemma be16_roundtrip [simp]: "(of_nat (of_be (be16 w)) :: u16) = w"
  by (simp add: be16_def word_of_be_to_be)

lemma be32_roundtrip [simp]: "(of_nat (of_be (be32 w)) :: u32) = w"
  by (simp add: be32_def word_of_be_to_be)

section \<open>Pure parsers\<close>

type_synonym 'a parser = "bytes \<Rightarrow> ('a \<times> bytes) res"

definition p_return :: "'a \<Rightarrow> 'a parser" where
  [res_simps]: "p_return x bs = Inr (x, bs)"

definition p_fail :: "error \<Rightarrow> 'a parser" where
  [res_simps]: "p_fail e bs = Inl e"

definition p_lift :: "'a res \<Rightarrow> 'a parser" where
  [res_simps]: "p_lift r bs = and_then r (\<lambda>x. Inr (x, bs))"

definition p_bind :: "'a parser \<Rightarrow> ('a \<Rightarrow> 'b parser) \<Rightarrow> 'b parser" where
  "p_bind p f bs = and_then (p bs) (\<lambda>(x, rest). f x rest)"

definition p_exact :: "nat \<Rightarrow> bytes parser" where
  "p_exact n bs = (if length bs < n then Inl UnexpectedEof else Inr (take n bs, drop n bs))"

definition p_u8 :: "u8 parser" where
  "p_u8 = p_bind (p_exact 1) (\<lambda>b. p_return (b ! 0))"

definition p_u16 :: "u16 parser" where
  "p_u16 = p_bind (p_exact 2) (\<lambda>b. p_return (of_nat (of_be b)))"

lemma p_bind_Inr_iff:
  "p_bind p f bs = Inr (y, rest) \<longleftrightarrow> (\<exists>x mid. p bs = Inr (x, mid) \<and> f x mid = Inr (y, rest))"
  by (auto simp: p_bind_def and_then_Inr_iff)

lemma p_bind_eqI [simp]: "p bs = Inr (x, rest) \<Longrightarrow> p_bind p f bs = f x rest"
  by (simp add: p_bind_def)

lemma p_bind_eqE [simp]: "p bs = Inl e \<Longrightarrow> p_bind p f bs = Inl e"
  by (simp add: p_bind_def)

lemma p_exact_append [simp]: "length bs = n \<Longrightarrow> p_exact n (bs @ rest) = Inr (bs, rest)"
  by (simp add: p_exact_def)

lemma p_exact_Inr_iff: "p_exact n bs = Inr (x, rest) \<longleftrightarrow> bs = x @ rest \<and> length x = n"
  by (auto simp: p_exact_def)

lemma p_u8_Cons [simp]: "p_u8 (b # bs) = Inr (b, bs)"
  by (simp add: p_u8_def p_bind_def p_exact_def p_return_def)

lemma p_u8_Nil [simp]: "p_u8 [] = Inl UnexpectedEof"
  by (simp add: p_u8_def p_bind_def p_exact_def)

lemma p_u16_be16 [simp]: "p_u16 (be16 w @ rest) = Inr (w, rest)"
  by (simp add: p_u16_def p_bind_def p_return_def)

lemma p_u16_Inr_iff: "p_u16 bs = Inr (w, rest) \<longleftrightarrow> bs = be16 w @ rest"
proof
  assume "p_u16 bs = Inr (w, rest)"
  then obtain b where b: "bs = b @ rest" "length b = 2" and w: "w = of_nat (of_be b)"
    by (auto simp: p_u16_def p_bind_Inr_iff p_exact_Inr_iff p_return_def)
  have "of_be b < 65536" using of_be_less [of b] b(2) by simp
  then have "be16 w = to_be 2 (of_be b)"
    by (simp add: be16_def w unat_of_nat)
  with b show "bs = be16 w @ rest" by (simp add: to_be_of_be)
qed simp

section \<open>Stateful readers and their refinement to parsers\<close>

type_synonym ('s, 'a) sm = "'s \<Rightarrow> 'a res \<times> 's"

definition sm_return :: "'a \<Rightarrow> ('s, 'a) sm" where
  [res_simps]: "sm_return x s = (Inr x, s)"

definition sm_fail :: "error \<Rightarrow> ('s, 'a) sm" where
  [res_simps]: "sm_fail e s = (Inl e, s)"

definition sm_lift :: "'a res \<Rightarrow> ('s, 'a) sm" where
  [res_simps]: "sm_lift r s = (r, s)"

definition sm_bind :: "('s, 'a) sm \<Rightarrow> ('a \<Rightarrow> ('s, 'b) sm) \<Rightarrow> ('s, 'b) sm" where
  [res_simps]: "sm_bind m f s = (case m s of (Inl e, s') \<Rightarrow> (Inl e, s') | (Inr x, s') \<Rightarrow> f x s')"

lemma sm_bind_Inr_iff:
  "sm_bind m f s = (Inr y, s'') \<longleftrightarrow> (\<exists>x s'. m s = (Inr x, s') \<and> f x s' = (Inr y, s''))"
  by (auto simp: sm_bind_def split: prod.splits sum.splits)

lemma sm_bind_eqI [simp]: "m s = (Inr x, s') \<Longrightarrow> sm_bind m f s = f x s'"
  by (simp add: sm_bind_def)

lemma sm_bind_eqE [simp]: "m s = (Inl e, s') \<Longrightarrow> sm_bind m f s = (Inl e, s')"
  by (simp add: sm_bind_def)

definition sm_modify :: "('s \<Rightarrow> 's) \<Rightarrow> ('s, unit) sm" where
  "sm_modify f s = (Inr (), f s)"

text \<open>\<open>sm_rel R m\<close>: whatever \<open>m\<close> answers, the state before and the state after are related by \<open>R\<close>.\<close>

definition sm_rel :: "('s \<Rightarrow> 's \<Rightarrow> bool) \<Rightarrow> ('s, 'a) sm \<Rightarrow> bool" where
  "sm_rel R m \<longleftrightarrow> (\<forall>s. R s (snd (m s)))"

lemma sm_relD: "sm_rel R m \<Longrightarrow> m s = (r, s') \<Longrightarrow> R s s'"
  unfolding sm_rel_def by (metis snd_conv)

lemma sm_rel_bind:
  assumes "\<And>a b c. R a b \<Longrightarrow> R b c \<Longrightarrow> R a c" "sm_rel R m" "\<And>x. sm_rel R (k x)"
  shows "sm_rel R (sm_bind m k)"
  unfolding sm_rel_def
proof
  fix s
  obtain r s1 where m: "m s = (r, s1)" by (cases "m s")
  have "R s s1" using sm_relD [OF assms(2) m] .
  then show "R s (snd (sm_bind m k s))"
    using assms(1,3) m by (cases r) (auto simp: sm_bind_def sm_rel_def)
qed

lemma sm_rel_pure:
  assumes "\<And>a. R a a"
  shows "sm_rel R (sm_return x)" "sm_rel R (sm_fail e)" "sm_rel R (sm_lift y)"
  using assms by (simp_all add: sm_rel_def sm_return_def sm_fail_def sm_lift_def)

lemma sm_rel_modify: "(\<And>s. R s (f s)) \<Longrightarrow> sm_rel R (sm_modify f)"
  by (simp add: sm_rel_def sm_modify_def)

text \<open>A loop over a list, up to the first error.\<close>

fun sm_for :: "'a list \<Rightarrow> ('a \<Rightarrow> ('s, unit) sm) \<Rightarrow> ('s, unit) sm" where
  "sm_for [] f = sm_return ()"
| "sm_for (x # xs) f = sm_bind (f x) (\<lambda>_. sm_for xs f)"

lemma sm_rel_for:
  assumes "\<And>a. R a a" "\<And>a b c. R a b \<Longrightarrow> R b c \<Longrightarrow> R a c" "\<And>x. x \<in> set xs \<Longrightarrow> sm_rel R (f x)"
  shows "sm_rel R (sm_for xs f)"
  using assms(3)
proof (induction xs)
  case Nil
  show ?case by (simp add: sm_rel_pure assms(1))
next
  case (Cons x xs)
  then show ?case unfolding sm_for.simps by (intro sm_rel_bind [OF assms(2)]) simp_all
qed

lemma sm_for_cong_on:
  assumes "\<And>x s. x \<in> set xs \<Longrightarrow> I s \<Longrightarrow> f x s = g x s" "\<And>x s. x \<in> set xs \<Longrightarrow> I s \<Longrightarrow> I (snd (g x s))" "I s"
  shows "sm_for xs f s = sm_for xs g s"
  using assms
proof (induction xs arbitrary: s)
  case (Cons x xs)
  have eq: "f x s = g x s" "I (snd (g x s))" using Cons.prems by simp_all
  show ?case
  proof (cases "g x s")
    case (Pair r s')
    then have "sm_for xs f s' = sm_for xs g s'" using Cons eq(2) by auto
    with Pair eq(1) show ?thesis by (cases r) (auto simp: sm_bind_def)
  qed
qed simp

lemma sm_for_append: "sm_for (xs @ ys) f = sm_bind (sm_for xs f) (\<lambda>_. sm_for ys f)"
proof (induction xs)
  case Nil
  show ?case by (simp add: fun_eq_iff sm_bind_def sm_return_def)
next
  case (Cons x xs)
  then show ?case by (auto simp: fun_eq_iff sm_bind_def split: prod.split sum.split)
qed

text \<open>
  \<open>implements ok view m p\<close>: on every state that satisfies \<open>ok\<close>, the reader \<open>m\<close> returns
  what the parser \<open>p\<close> returns on the bytes \<open>view s\<close> still to come, leaves the bytes \<open>p\<close>
  leaves, and keeps \<open>ok\<close>; it fails when \<open>p\<close> fails.
\<close>

definition implements ::
    "('s \<Rightarrow> bool) \<Rightarrow> ('s \<Rightarrow> bytes) \<Rightarrow> ('s, 'a) sm \<Rightarrow> 'a parser \<Rightarrow> bool" where
  "implements ok view m p \<longleftrightarrow>
     (\<forall>s. ok s \<longrightarrow>
        (case p (view s) of
           Inr (x, rest) \<Rightarrow> (\<exists>s'. m s = (Inr x, s') \<and> ok s' \<and> view s' = rest)
         | Inl _ \<Rightarrow> (\<exists>e s'. m s = (Inl e, s'))))"

lemma implementsI:
  assumes "\<And>s x rest. ok s \<Longrightarrow> p (view s) = Inr (x, rest) \<Longrightarrow>
      \<exists>s'. m s = (Inr x, s') \<and> ok s' \<and> view s' = rest"
    and "\<And>s e. ok s \<Longrightarrow> p (view s) = Inl e \<Longrightarrow> \<exists>e' s'. m s = (Inl e', s')"
  shows "implements ok view m p"
  using assms by (auto simp: implements_def split: sum.splits)

lemma implements_Inr:
  "implements ok view m p \<Longrightarrow> ok s \<Longrightarrow> p (view s) = Inr (x, rest) \<Longrightarrow>
     \<exists>s'. m s = (Inr x, s') \<and> ok s' \<and> view s' = rest"
  by (auto simp: implements_def)

lemma implements_Inl:
  "implements ok view m p \<Longrightarrow> ok s \<Longrightarrow> p (view s) = Inl e \<Longrightarrow> \<exists>e' s'. m s = (Inl e', s')"
  by (fastforce simp: implements_def)

lemma implements_Inr_D:
  assumes "implements ok view m p" "ok s" "m s = (Inr x, s')"
  shows "p (view s) = Inr (x, view s') \<and> ok s'"
proof (cases "p (view s)")
  case (Inl e)
  with implements_Inl [OF assms(1,2)] assms(3) show ?thesis by fastforce
next
  case (Inr a)
  obtain y rest where a: "a = (y, rest)" by (cases a)
  with implements_Inr [OF assms(1,2)] Inr assms(3) show ?thesis by fastforce
qed

lemma implements_return [intro]: "implements ok view (sm_return x) (p_return x)"
  by (simp add: implements_def sm_return_def p_return_def)

lemma implements_fail [intro]: "implements ok view (sm_fail e) (p_fail e')"
  by (simp add: implements_def sm_fail_def p_fail_def)

lemma implements_lift [intro]: "implements ok view (sm_lift r) (p_lift r)"
  by (cases r) (simp_all add: implements_def sm_lift_def p_lift_def)

lemma implements_bind:
  assumes m: "implements ok view m p" and f: "\<And>x. implements ok view (f x) (g x)"
  shows "implements ok view (sm_bind m f) (p_bind p g)"
proof (rule implementsI)
  fix s y rest
  assume s: "ok s" and "p_bind p g (view s) = Inr (y, rest)"
  then obtain x mid where x: "p (view s) = Inr (x, mid)" and y: "g x mid = Inr (y, rest)"
    by (auto simp: p_bind_Inr_iff)
  obtain s1 where s1: "m s = (Inr x, s1)" "ok s1" "view s1 = mid"
    using implements_Inr [OF m s x] by blast
  with y implements_Inr [OF f, of s1 x y rest]
  show "\<exists>s'. sm_bind m f s = (Inr y, s') \<and> ok s' \<and> view s' = rest" by auto
next
  fix s e
  assume s: "ok s" and fail: "p_bind p g (view s) = Inl e"
  show "\<exists>e' s'. sm_bind m f s = (Inl e', s')"
  proof (cases "p (view s)")
    case (Inl e')
    with implements_Inl [OF m s] show ?thesis by fastforce
  next
    case (Inr a)
    obtain x mid where x: "p (view s) = Inr (x, mid)" using Inr by (cases a) auto
    obtain s1 where s1: "m s = (Inr x, s1)" "ok s1" "view s1 = mid"
      using implements_Inr [OF m s x] by blast
    with fail x have "g x (view s1) = Inl e" by simp
    with implements_Inl [OF f s1(2)] s1(1) show ?thesis by simp
  qed
qed

lemma implements_if:
  "(b \<Longrightarrow> implements ok view m p) \<Longrightarrow> (\<not> b \<Longrightarrow> implements ok view m' p') \<Longrightarrow>
   implements ok view (if b then m else m') (if b then p else p')"
  by simp

text \<open>
  The interface of everything bytes are read from: an operation that takes exactly \<open>n\<close> bytes off
  the front of the bytes to come, or fails. The socket streams and the chunk reader of the AnyTLS
  inbound provide it; the readers of integers and addresses are clients.
\<close>

locale byte_source =
  fixes read_exact :: "nat \<Rightarrow> ('s, bytes) sm"
    and ok :: "'s \<Rightarrow> bool"
    and view :: "'s \<Rightarrow> bytes"
  assumes read_exact_implements: "implements ok view (read_exact n) (p_exact n)"
begin

lemma read_u8_implements:
  "implements ok view (sm_bind (read_exact 1) (\<lambda>b. sm_return (b ! 0))) p_u8"
  unfolding p_u8_def by (intro implements_bind read_exact_implements implements_return)

lemma read_u16_implements:
  "implements ok view (sm_bind (read_exact 2) (\<lambda>b. sm_return (of_nat (of_be b)))) p_u16"
  unfolding p_u16_def by (intro implements_bind read_exact_implements implements_return)

lemma read_exact_splits:
  assumes "ok s" "view s = bs @ rest"
  shows "\<exists>s'. read_exact (length bs) s = (Inr bs, s') \<and> ok s' \<and> view s' = rest"
  using implements_Inr [OF read_exact_implements assms(1)] assms(2) by (simp add: p_exact_def)

end

section \<open>Loops\<close>

text \<open>What one round of an event loop leads to: the next round, leaving the loop, or an error.\<close>

datatype 's flow = Continue 's | Break | Failed error

section \<open>Socket streams\<close>

text \<open>
  A connected stream: \<open>rd\<close> holds the bytes the peer sends before it closes, \<open>wr\<close> the bytes
  written so far, and \<open>fault = Some n\<close> makes the write after the next \<open>n\<close> writes fail, so
  that every statement below also covers a connection that breaks at any point.
\<close>

record tcp_stream =
  rd :: bytes
  wr :: bytes
  fault :: "nat option"

definition tcp_read_exact :: "nat \<Rightarrow> (tcp_stream, bytes) sm" where
  "tcp_read_exact n s =
     (if length (rd s) < n then (Inl UnexpectedEof, s\<lparr>rd := []\<rparr>)
      else (Inr (take n (rd s)), s\<lparr>rd := drop n (rd s)\<rparr>))"

definition tcp_read_u8 :: "(tcp_stream, u8) sm" where
  "tcp_read_u8 = sm_bind (tcp_read_exact 1) (\<lambda>b. sm_return (b ! 0))"

definition tcp_read_u16 :: "(tcp_stream, u16) sm" where
  "tcp_read_u16 = sm_bind (tcp_read_exact 2) (\<lambda>b. sm_return (of_nat (of_be b)))"

definition tcp_write_all :: "bytes \<Rightarrow> (tcp_stream, unit) sm" where
  "tcp_write_all bs s =
     (case fault s of
        None \<Rightarrow> (Inr (), s\<lparr>wr := wr s @ bs\<rparr>)
      | Some 0 \<Rightarrow> (Inl IoError, s)
      | Some (Suc n) \<Rightarrow> (Inr (), s\<lparr>wr := wr s @ bs, fault := Some n\<rparr>))"

text \<open>
  Between writes a reader sees the same \<open>wr\<close> and \<open>fault\<close>: the invariant of the socket's
  interpretation fixes both.
\<close>

definition tcp_frame :: "bytes \<Rightarrow> nat option \<Rightarrow> tcp_stream \<Rightarrow> bool" where
  "tcp_frame w f s \<longleftrightarrow> wr s = w \<and> fault s = f"

interpretation tcp: byte_source tcp_read_exact "tcp_frame w f" rd for w f
  by unfold_locales
    (auto simp: implements_def tcp_read_exact_def p_exact_def tcp_frame_def split: sum.splits)

lemma tcp_read_u8_implements: "implements (tcp_frame w f) rd tcp_read_u8 p_u8"
  unfolding tcp_read_u8_def by (rule tcp.read_u8_implements)

lemma tcp_read_u16_implements: "implements (tcp_frame w f) rd tcp_read_u16 p_u16"
  unfolding tcp_read_u16_def by (rule tcp.read_u16_implements)

lemmas tcp_implements =
  tcp.read_exact_implements tcp_read_u8_implements tcp_read_u16_implements
  implements_return implements_fail implements_lift

lemma tcp_read_u8_Cons [simp]:
  "rd s = b # bs \<Longrightarrow> tcp_read_u8 s = (Inr b, s\<lparr>rd := bs\<rparr>)"
  by (simp add: tcp_read_u8_def sm_bind_def tcp_read_exact_def sm_return_def)

lemma tcp_read_u8_Nil [simp]:
  "rd s = [] \<Longrightarrow> tcp_read_u8 s = (Inl UnexpectedEof, s)"
  by (simp add: tcp_read_u8_def sm_bind_def tcp_read_exact_def)

lemma tcp_read_exact_append [simp]:
  "rd s = bs @ rest \<Longrightarrow> length bs = n \<Longrightarrow> tcp_read_exact n s = (Inr bs, s\<lparr>rd := rest\<rparr>)"
  by (simp add: tcp_read_exact_def)

lemma tcp_read_u16_be16 [simp]:
  "rd s = be16 w @ rest \<Longrightarrow> tcp_read_u16 s = (Inr w, s\<lparr>rd := rest\<rparr>)"
  by (simp add: tcp_read_u16_def sm_return_def)

lemma tcp_write_all_ok [simp]:
  "fault s = None \<Longrightarrow> tcp_write_all bs s = (Inr (), s\<lparr>wr := wr s @ bs\<rparr>)"
  by (simp add: tcp_write_all_def)

lemma tcp_read_exact_Inr:
  "tcp_read_exact n s = (Inr bs, s') \<longleftrightarrow>
     rd s = bs @ rd s' \<and> length bs = n \<and> s' = s\<lparr>rd := rd s'\<rparr>"
  by (cases s; cases s') (auto simp: tcp_read_exact_def)

lemma tcp_read_u8_Inr:
  "tcp_read_u8 s = (Inr b, s') \<longleftrightarrow> rd s = b # rd s' \<and> s' = s\<lparr>rd := rd s'\<rparr>"
  by (cases "rd s") (auto simp: sm_bind_def)

lemma tcp_read_u16_Inr:
  "tcp_read_u16 s = (Inr w, s') \<longleftrightarrow> rd s = be16 w @ rd s' \<and> s' = s\<lparr>rd := rd s'\<rparr>"
proof
  assume "tcp_read_u16 s = (Inr w, s')"
  then obtain b where b: "rd s = b @ rd s'" "length b = 2" "s' = s\<lparr>rd := rd s'\<rparr>" "w = of_nat (of_be b)"
    by (auto simp: tcp_read_u16_def sm_bind_Inr_iff tcp_read_exact_Inr sm_return_def)
  have "p_u16 (rd s) = Inr (w, rd s')" using b by (simp add: p_u16_def p_bind_def p_return_def)
  with b(3) show "rd s = be16 w @ rd s' \<and> s' = s\<lparr>rd := rd s'\<rparr>" by (simp add: p_u16_Inr_iff)
next
  assume "rd s = be16 w @ rd s' \<and> s' = s\<lparr>rd := rd s'\<rparr>"
  then show "tcp_read_u16 s = (Inr w, s')" using tcp_read_u16_be16 by metis
qed

lemma tcp_write_all_Inr:
  "tcp_write_all bs s = (Inr u, s') \<Longrightarrow> rd s' = rd s \<and> wr s' = wr s @ bs"
  by (auto simp: tcp_write_all_def split: option.splits nat.splits)

lemmas tcp_Inr = sm_bind_Inr_iff tcp_read_exact_Inr tcp_read_u8_Inr

lemma sm_return_Inr [simp]: "sm_return x s = (Inr y, s') \<longleftrightarrow> y = x \<and> s' = s"
  by (auto simp: sm_return_def)

lemma sm_fail_Inr [simp]: "sm_fail e s \<noteq> (Inr y, s')"
  by (simp add: sm_fail_def)

lemma sm_lift_Inr [simp]: "sm_lift r s = (Inr y, s') \<longleftrightarrow> r = Inr y \<and> s' = s"
  by (auto simp: sm_lift_def)

end
