(* ===== verification/Rust_Strings.thy ===== *)
theory Rust_Strings
  imports Prelude
begin

text \<open>
  Rust's \<open>String\<close> is a UTF-8 byte sequence. It is modelled by HOL's \<open>string\<close>, one \<open>char\<close>
  per byte, so that \<open>len\<close> is \<open>length\<close>, slicing and searching for ASCII characters are list
  operations, and \<open>utf8_valid\<close> is the type's own invariant where a claim needs it. The operations
  of \<open>str\<close> the program calls are defined here: \<open>from_utf8\<close>, \<open>split_once\<close>,
  \<open>rsplit_once\<close>, \<open>split\<close>, \<open>lines\<close>, \<open>trim\<close>, \<open>parse\<close> for unsigned integers
  and ASCII case folding.
\<close>

section \<open>Bytes and UTF-8\<close>

definition byte_of_char :: "char \<Rightarrow> u8" where
  [eval_simps]: "byte_of_char c = of_nat (of_char c)"

definition char_of_byte :: "u8 \<Rightarrow> char" where
  "char_of_byte b = char_of (unat b)"

definition as_bytes :: "string \<Rightarrow> bytes" where
  [eval_simps]: "as_bytes s = map byte_of_char s"

definition of_bytes :: "bytes \<Rightarrow> string" where
  [eval_simps]: "of_bytes bs = map char_of_byte bs"

lemma char_of_byte_of_char [simp]: "char_of_byte (byte_of_char c) = c"
  by (simp add: byte_of_char_def char_of_byte_def unat_of_nat_u8 char_of_mod_256)

lemma byte_of_char_of_byte [simp]: "byte_of_char (char_of_byte b) = b"
  by (simp add: byte_of_char_def char_of_byte_def)

lemma char_of_byte_eq [eval_simps]:
  "char_of_byte b = c \<longleftrightarrow> b = byte_of_char c"
  "c = char_of_byte b \<longleftrightarrow> byte_of_char c = b"
  by (metis char_of_byte_of_char byte_of_char_of_byte)+

lemma of_bytes_as_bytes [simp]: "of_bytes (as_bytes s) = s"
  by (simp add: of_bytes_def as_bytes_def comp_def)

lemma as_bytes_of_bytes [simp]: "as_bytes (of_bytes bs) = bs"
  by (simp add: of_bytes_def as_bytes_def comp_def)

lemma length_as_bytes [simp, wire_simps]: "length (as_bytes s) = length s"
  by (simp add: as_bytes_def)

lemma as_bytes_inject [simp]: "as_bytes s = as_bytes t \<longleftrightarrow> s = t"
  by (metis of_bytes_as_bytes)

lemma as_bytes_append [simp]: "as_bytes (s @ t) = as_bytes s @ as_bytes t"
  by (simp add: as_bytes_def)

lemma of_bytes_append [simp]: "of_bytes (s @ t) = of_bytes s @ of_bytes t"
  by (simp add: of_bytes_def)

text \<open>Well-formed UTF-8, by the table of RFC 3629 that \<open>core::str\<close> implements.\<close>

definition cont :: "u8 \<Rightarrow> bool" where
  "cont b \<longleftrightarrow> 0x80 \<le> b \<and> b \<le> 0xBF"

fun utf8_valid :: "bytes \<Rightarrow> bool" where
  "utf8_valid [] = True"
| "utf8_valid (b # bs) =
     (if b < 0x80 then utf8_valid bs
      else if 0xC2 \<le> b \<and> b \<le> 0xDF then
        (case bs of c1 # r \<Rightarrow> cont c1 \<and> utf8_valid r | _ \<Rightarrow> False)
      else if 0xE0 \<le> b \<and> b \<le> 0xEF then
        (case bs of c1 # c2 # r \<Rightarrow>
           (if b = 0xE0 then 0xA0 \<le> c1 \<and> c1 \<le> 0xBF
            else if b = 0xED then 0x80 \<le> c1 \<and> c1 \<le> 0x9F else cont c1)
           \<and> cont c2 \<and> utf8_valid r
         | _ \<Rightarrow> False)
      else if 0xF0 \<le> b \<and> b \<le> 0xF4 then
        (case bs of c1 # c2 # c3 # r \<Rightarrow>
           (if b = 0xF0 then 0x90 \<le> c1 \<and> c1 \<le> 0xBF
            else if b = 0xF4 then 0x80 \<le> c1 \<and> c1 \<le> 0x8F else cont c1)
           \<and> cont c2 \<and> cont c3 \<and> utf8_valid r
         | _ \<Rightarrow> False)
      else False)"

definition from_utf8 :: "bytes \<Rightarrow> string res" where
  "from_utf8 bs = (if utf8_valid bs then Inr (of_bytes bs) else Inl Utf8Error)"

text \<open>The invariant of Rust's \<open>String\<close>.\<close>

definition valid_str :: "string \<Rightarrow> bool" where
  [eval_simps]: "valid_str s \<longleftrightarrow> utf8_valid (as_bytes s)"

lemma from_utf8_as_bytes [simp]: "valid_str s \<Longrightarrow> from_utf8 (as_bytes s) = Inr s"
  by (simp add: from_utf8_def valid_str_def)

lemma from_utf8_Inr_iff: "from_utf8 bs = Inr s \<longleftrightarrow> bs = as_bytes s \<and> valid_str s"
  by (auto simp: from_utf8_def valid_str_def)

lemma utf8_valid_ascii: "\<forall>b \<in> set bs. b < 0x80 \<Longrightarrow> utf8_valid bs"
  by (induction bs) auto

section \<open>Searching and splitting\<close>

fun split_once :: "char \<Rightarrow> string \<Rightarrow> (string \<times> string) option" where
  "split_once c [] = None"
| "split_once c (x # xs) =
     (if x = c then Some ([], xs) else map_option (\<lambda>(a, b). (x # a, b)) (split_once c xs))"

definition rsplit_once :: "char \<Rightarrow> string \<Rightarrow> (string \<times> string) option" where
  "rsplit_once c s = map_option (\<lambda>(a, b). (rev b, rev a)) (split_once c (rev s))"

fun str_split :: "char \<Rightarrow> string \<Rightarrow> string list" where
  "str_split c [] = [[]]"
| "str_split c (x # xs) =
     (if x = c then [] # str_split c xs
      else (x # hd (str_split c xs)) # tl (str_split c xs))"

fun join :: "string \<Rightarrow> string list \<Rightarrow> string" where
  "join sep [] = []"
| "join sep [x] = x"
| "join sep (x # y # ys) = x @ sep @ join sep (y # ys)"

abbreviation newline :: char where
  "newline \<equiv> CHR 0x0A"

abbreviation carriage_return :: char where
  "carriage_return \<equiv> CHR 0x0D"

definition strip_cr :: "string \<Rightarrow> string" where
  "strip_cr s = (if s \<noteq> [] \<and> last s = carriage_return then butlast s else s)"

text \<open>
  \<open>str::lines\<close>: a line ends at a newline, a carriage return just before it belongs to the line
  ending, and the text after the last newline is a line unless it is empty.
\<close>

definition str_lines :: "string \<Rightarrow> string list" where
  "str_lines s =
     (let ps = str_split newline s in
      map strip_cr (butlast ps) @ (if last ps = [] then [] else [last ps]))"

lemma split_once_append:
  "c \<notin> set a \<Longrightarrow> split_once c (a @ c # b) = Some (a, b)"
  by (induction a) auto

lemma split_once_Some: "split_once c s = Some (a, b) \<Longrightarrow> s = a @ c # b \<and> c \<notin> set a"
  by (induction s arbitrary: a) (auto split: if_splits)

lemma split_once_None: "split_once c s = None \<longleftrightarrow> c \<notin> set s"
  by (induction s) auto

lemma str_split_not_Nil [simp]: "str_split c s \<noteq> []"
  by (cases s) auto

lemma str_split_append:
  "c \<notin> set a \<Longrightarrow> str_split c (a @ c # b) = a # str_split c b"
  by (induction a) auto

lemma str_split_single: "c \<notin> set a \<Longrightarrow> str_split c a = [a]"
  by (induction a) auto

lemma str_split_join:
  assumes "ps \<noteq> []" "\<forall>p \<in> set ps. c \<notin> set p"
  shows "str_split c (join [c] ps) = ps"
  using assms
proof (induction "[c]" ps rule: join.induct)
  case (2 x)
  then show ?case by (simp add: str_split_single)
next
  case (3 x y ys)
  then show ?case using str_split_append [of c x "join [c] (y # ys)"] by simp
qed simp

section \<open>Unsigned integers\<close>

definition is_digit :: "char \<Rightarrow> bool" where
  "is_digit c \<longleftrightarrow> 48 \<le> (of_char c :: nat) \<and> (of_char c :: nat) \<le> 57"

definition digit_val :: "char \<Rightarrow> nat" where
  "digit_val c = of_char c - 48"

fun parse_digits :: "nat \<Rightarrow> nat \<Rightarrow> string \<Rightarrow> nat res" where
  "parse_digits mx acc [] = Inr acc"
| "parse_digits mx acc (c # cs) =
     (if is_digit c then
        (if mx < acc * 10 + digit_val c then Inl ParseIntError
         else parse_digits mx (acc * 10 + digit_val c) cs)
      else Inl ParseIntError)"

text \<open>\<open>str::parse\<close> at an unsigned type whose greatest value is \<open>mx\<close>: a leading plus sign
  is accepted, the empty string and a lone sign are not, and a value above \<open>mx\<close> is an error.\<close>

definition parse_uint :: "nat \<Rightarrow> string \<Rightarrow> nat res" where
  "parse_uint mx s =
     (case s of
        [] \<Rightarrow> Inl ParseIntError
      | c # cs \<Rightarrow> parse_digits mx 0 (if c = CHR ''+'' \<and> cs \<noteq> [] then cs else s))"

definition parse_u8 :: "string \<Rightarrow> u8 res" where
  "parse_u8 s = and_then (parse_uint 255 s) (\<lambda>n. Inr (of_nat n))"

definition parse_u16 :: "string \<Rightarrow> u16 res" where
  "parse_u16 s = and_then (parse_uint 65535 s) (\<lambda>n. Inr (of_nat n))"

definition parse_u32 :: "string \<Rightarrow> u32 res" where
  "parse_u32 s = and_then (parse_uint (2 ^ 32 - 1) s) (\<lambda>n. Inr (of_nat n))"

definition parse_u64 :: "string \<Rightarrow> u64 res" where
  "parse_u64 s = and_then (parse_uint (2 ^ 64 - 1) s) (\<lambda>n. Inr (of_nat n))"

lemma parse_digits_le: "parse_digits mx acc s = Inr n \<Longrightarrow> acc \<le> mx \<Longrightarrow> n \<le> mx"
  by (induction mx acc s rule: parse_digits.induct) (auto split: if_splits)

lemma parse_uint_le: "parse_uint mx s = Inr n \<Longrightarrow> n \<le> mx"
  by (auto simp: parse_uint_def intro: parse_digits_le split: list.splits if_splits)

lemma parse_u64_Inr: "parse_u64 s = Inr w \<Longrightarrow> parse_uint (2 ^ 64 - 1) s = Inr (unat w)"
proof -
  assume "parse_u64 s = Inr w"
  then obtain n where n: "parse_uint (2 ^ 64 - 1) s = Inr n" and w: "w = of_nat n"
    by (auto simp: parse_u64_def and_then_Inr_iff)
  from parse_uint_le [OF n] have "unat w = n" by (simp add: w unat_of_nat)
  with n show ?thesis by simp
qed

section \<open>White space and case\<close>

text \<open>The UTF-8 encodings of the characters with the Unicode property White\_Space.\<close>

definition ws_encodings :: "string list" where
  "ws_encodings =
     [[CHR 0x09], [CHR 0x0A], [CHR 0x0B], [CHR 0x0C], [CHR 0x0D], [CHR 0x20],
      [CHR 0xC2, CHR 0x85], [CHR 0xC2, CHR 0xA0], [CHR 0xE1, CHR 0x9A, CHR 0x80],
      [CHR 0xE2, CHR 0x80, CHR 0x80], [CHR 0xE2, CHR 0x80, CHR 0x81],
      [CHR 0xE2, CHR 0x80, CHR 0x82], [CHR 0xE2, CHR 0x80, CHR 0x83],
      [CHR 0xE2, CHR 0x80, CHR 0x84], [CHR 0xE2, CHR 0x80, CHR 0x85],
      [CHR 0xE2, CHR 0x80, CHR 0x86], [CHR 0xE2, CHR 0x80, CHR 0x87],
      [CHR 0xE2, CHR 0x80, CHR 0x88], [CHR 0xE2, CHR 0x80, CHR 0x89],
      [CHR 0xE2, CHR 0x80, CHR 0x8A], [CHR 0xE2, CHR 0x80, CHR 0xA8],
      [CHR 0xE2, CHR 0x80, CHR 0xA9], [CHR 0xE2, CHR 0x80, CHR 0xAF],
      [CHR 0xE2, CHR 0x81, CHR 0x9F], [CHR 0xE3, CHR 0x80, CHR 0x80]]"

definition has_prefix :: "string \<Rightarrow> string \<Rightarrow> bool" where
  "has_prefix p s \<longleftrightarrow> take (length p) s = p"

function trim_front :: "string list \<Rightarrow> string \<Rightarrow> string" where
  "trim_front ws s =
     (case find (\<lambda>w. w \<noteq> [] \<and> has_prefix w s) ws of
        None \<Rightarrow> s
      | Some w \<Rightarrow> trim_front ws (drop (length w) s))"
  by pat_completeness auto
termination
proof (relation "measure (\<lambda>(ws, s). length s)")
  fix ws :: "string list" and s w :: string
  assume "find (\<lambda>w. w \<noteq> [] \<and> has_prefix w s) ws = Some w"
  then have "w \<noteq> []" "has_prefix w s" by (auto simp: find_Some_iff)
  then show "((ws, drop (length w) s), ws, s) \<in> measure (\<lambda>(ws, s). length s)"
    by (cases s) (auto simp: has_prefix_def)
qed simp

declare trim_front.simps [simp del]

definition trim_start :: "string \<Rightarrow> string" where
  "trim_start s = trim_front ws_encodings s"

definition trim_end :: "string \<Rightarrow> string" where
  "trim_end s = rev (trim_front (map rev ws_encodings) (rev s))"

definition trim :: "string \<Rightarrow> string" where
  "trim s = trim_end (trim_start s)"

fun contains_whitespace :: "string \<Rightarrow> bool" where
  "contains_whitespace [] = False"
| "contains_whitespace (c # cs) =
     (list_ex (\<lambda>w. has_prefix w (c # cs)) ws_encodings \<or> contains_whitespace cs)"

definition lower_char :: "char \<Rightarrow> char" where
  "lower_char c =
     (if 65 \<le> (of_char c :: nat) \<and> (of_char c :: nat) \<le> 90 then char_of (of_char c + 32 :: nat) else c)"

definition to_ascii_lowercase :: "string \<Rightarrow> string" where
  "to_ascii_lowercase s = map lower_char s"

definition eq_ignore_ascii_case :: "string \<Rightarrow> string \<Rightarrow> bool" where
  "eq_ignore_ascii_case s t \<longleftrightarrow> to_ascii_lowercase s = to_ascii_lowercase t"

end
