(* ===== verification/Session.thy ===== *)
theory Session
  imports Rust_Strings
begin

text \<open>
  The vocabulary of \<open>session.rs\<close>: IP and socket addresses as \<open>std::net\<close> has them, target
  addresses, commands and sessions; and the abstract address format that every codec of the
  program implements with its own three type bytes. The locale \<open>addr_format\<close> states the format
  (a type byte, the address, a big-endian port), the locale \<open>addr_codec\<close> what an encoder and a
  decoder for it promise their clients.
\<close>

section \<open>Addresses\<close>

type_synonym ipv4 = u32
type_synonym ipv6 = "128 word"

datatype ip_addr = V4 ipv4 | V6 ipv6

text \<open>An IPv6 socket address also carries its flow information and its scope identifier.\<close>

datatype socket_addr = SockV4 ipv4 u16 | SockV6 ipv6 u16 u32 u32

fun sock_new :: "ip_addr \<Rightarrow> u16 \<Rightarrow> socket_addr" where
  "sock_new (V4 ip) port = SockV4 ip port"
| "sock_new (V6 ip) port = SockV6 ip port 0 0"

fun sock_ip :: "socket_addr \<Rightarrow> ip_addr" where
  "sock_ip (SockV4 ip port) = V4 ip"
| "sock_ip (SockV6 ip port flow scope) = V6 ip"

fun sock_port :: "socket_addr \<Rightarrow> u16" where
  "sock_port (SockV4 ip port) = port"
| "sock_port (SockV6 ip port flow scope) = port"

fun is_ipv4 :: "socket_addr \<Rightarrow> bool" where
  "is_ipv4 (SockV4 _ _) = True"
| "is_ipv4 (SockV6 _ _ _ _) = False"

fun sock_set_ip :: "socket_addr \<Rightarrow> ip_addr \<Rightarrow> socket_addr" where
  "sock_set_ip (SockV6 _ port flow scope) (V6 ip) = SockV6 ip port flow scope"
| "sock_set_ip addr ip = sock_new ip (sock_port addr)"

fun is_unspecified :: "ip_addr \<Rightarrow> bool" where
  "is_unspecified (V4 ip) = (ip = 0)"
| "is_unspecified (V6 ip) = (ip = 0)"

text \<open>\<open>to_canonical\<close> turns an IPv4-mapped IPv6 address into the IPv4 address.\<close>

fun to_canonical :: "ip_addr \<Rightarrow> ip_addr" where
  "to_canonical (V4 ip) = V4 ip"
| "to_canonical (V6 ip) = (if drop_bit 32 ip = 0xFFFF then V4 (ucast ip) else V6 ip)"

definition v4_octets :: "ipv4 \<Rightarrow> bytes" where
  [eval_simps]: "v4_octets ip = to_be 4 (unat ip)"

definition v6_octets :: "ipv6 \<Rightarrow> bytes" where
  [eval_simps]: "v6_octets ip = to_be 16 (unat ip)"

definition v4_from :: "bytes \<Rightarrow> ipv4" where
  [eval_simps]: "v4_from octets = of_nat (of_be octets)"

definition v6_from :: "bytes \<Rightarrow> ipv6" where
  [eval_simps]: "v6_from octets = of_nat (of_be octets)"

lemma length_octets [simp, wire_simps]:
  "length (v4_octets a) = 4" "length (v6_octets b) = 16"
  by (simp_all add: v4_octets_def v6_octets_def)

lemma v4_from_octets [simp]: "v4_from (v4_octets ip) = ip"
  by (simp add: v4_from_def v4_octets_def word_of_be_to_be)

lemma v6_from_octets [simp]: "v6_from (v6_octets ip) = ip"
  by (simp add: v6_from_def v6_octets_def word_of_be_to_be)

lemma v4_octets_from: "length bs = 4 \<Longrightarrow> v4_octets (v4_from bs) = bs"
  using of_be_less [of bs] by (simp add: v4_octets_def v4_from_def unat_of_nat to_be_of_be)

lemma v6_octets_from: "length bs = 16 \<Longrightarrow> v6_octets (v6_from bs) = bs"
  using of_be_less [of bs] by (simp add: v6_octets_def v6_from_def unat_of_nat to_be_of_be)

lemma sock_ip_new [simp]: "sock_ip (sock_new ip port) = ip"
  and sock_port_new [simp]: "sock_port (sock_new ip port) = port"
  by (cases ip; simp)+

section \<open>Targets, commands, sessions\<close>

datatype target_addr = TIp socket_addr | TDomain string u16

fun target_port :: "target_addr \<Rightarrow> u16" where
  "target_port (TIp addr) = sock_port addr"
| "target_port (TDomain host port) = port"

definition target_from_sock :: "socket_addr \<Rightarrow> target_addr" where
  "target_from_sock value = TIp value"

definition target_from_ip_port :: "ip_addr \<Rightarrow> u16 \<Rightarrow> target_addr" where
  "target_from_ip_port ip port = TIp (sock_new ip port)"

datatype command = Connect | UdpAssociate

record session =
  sess_inbound :: string
  sess_command :: command
  sess_target :: target_addr

section \<open>The address format\<close>

text \<open>
  Which targets fit the one-byte length of a domain, and the target a decoder can give back:
  the wire carries neither the flow information nor the scope of an IPv6 address.
\<close>

fun fits :: "target_addr \<Rightarrow> bool" where
  "fits (TIp addr) = True"
| "fits (TDomain host port) = (length host \<le> 255)"

fun valid_target :: "target_addr \<Rightarrow> bool" where
  "valid_target (TIp addr) = True"
| "valid_target (TDomain host port) = valid_str host"

fun wire_form :: "target_addr \<Rightarrow> target_addr" where
  "wire_form (TIp (SockV6 ip port flow scope)) = TIp (SockV6 ip port 0 0)"
| "wire_form t = t"

lemma sock_new_wire [simp]: "wire_form (TIp (sock_new ip port)) = TIp (sock_new ip port)"
  by (cases ip) simp_all

fun format_addr :: "u8 \<Rightarrow> u8 \<Rightarrow> u8 \<Rightarrow> target_addr \<Rightarrow> bytes" where
  "format_addr t4 td t6 (TIp (SockV4 ip port)) = [t4] @ v4_octets ip @ be16 port"
| "format_addr t4 td t6 (TIp (SockV6 ip port flow scope)) = [t6] @ v6_octets ip @ be16 port"
| "format_addr t4 td t6 (TDomain host port) =
     [td] @ [of_nat (length host)] @ as_bytes host @ be16 port"

definition parse_v4 :: "target_addr parser" where
  "parse_v4 = p_bind (p_exact 4) (\<lambda>octets. p_bind p_u16 (\<lambda>port.
     p_return (TIp (SockV4 (v4_from octets) port))))"

definition parse_v6 :: "target_addr parser" where
  "parse_v6 = p_bind (p_exact 16) (\<lambda>octets. p_bind p_u16 (\<lambda>port.
     p_return (TIp (SockV6 (v6_from octets) port 0 0))))"

definition parse_domain :: "target_addr parser" where
  "parse_domain = p_bind p_u8 (\<lambda>len. p_bind (p_exact (unat len)) (\<lambda>host. p_bind p_u16 (\<lambda>port.
     p_bind (p_lift (from_utf8 host)) (\<lambda>host. p_return (TDomain host port)))))"

definition parse_addr :: "u8 \<Rightarrow> u8 \<Rightarrow> u8 \<Rightarrow> error \<Rightarrow> target_addr parser" where
  "parse_addr t4 td t6 bad = p_bind p_u8 (\<lambda>atyp.
     if atyp = t4 then parse_v4
     else if atyp = td then parse_domain
     else if atyp = t6 then parse_v6
     else p_fail bad)"

lemma parse_v4_iff:
  "parse_v4 bs = Inr (t, rest) \<longleftrightarrow>
     (\<exists>ip port. t = TIp (SockV4 ip port) \<and> bs = v4_octets ip @ be16 port @ rest)"
proof
  assume "parse_v4 bs = Inr (t, rest)"
  then obtain oct port where
      "bs = oct @ be16 port @ rest" "length oct = 4" "t = TIp (SockV4 (v4_from oct) port)"
    by (auto simp: parse_v4_def p_bind_Inr_iff p_exact_Inr_iff p_u16_Inr_iff p_return_def)
  then show "\<exists>ip port. t = TIp (SockV4 ip port) \<and> bs = v4_octets ip @ be16 port @ rest"
    using v4_octets_from [of oct] by metis
qed (auto simp: parse_v4_def p_return_def)

lemma parse_v6_iff:
  "parse_v6 bs = Inr (t, rest) \<longleftrightarrow>
     (\<exists>ip port. t = TIp (SockV6 ip port 0 0) \<and> bs = v6_octets ip @ be16 port @ rest)"
proof
  assume "parse_v6 bs = Inr (t, rest)"
  then obtain oct port where
      "bs = oct @ be16 port @ rest" "length oct = 16" "t = TIp (SockV6 (v6_from oct) port 0 0)"
    by (auto simp: parse_v6_def p_bind_Inr_iff p_exact_Inr_iff p_u16_Inr_iff p_return_def)
  then show "\<exists>ip port. t = TIp (SockV6 ip port 0 0) \<and> bs = v6_octets ip @ be16 port @ rest"
    using v6_octets_from [of oct] by metis
qed (auto simp: parse_v6_def p_return_def)

lemma p_u8_Inr_iff: "p_u8 bs = Inr (b, rest) \<longleftrightarrow> bs = b # rest"
  by (cases bs) auto

lemma p_lift_Inr_iff: "p_lift r bs = Inr (x, rest) \<longleftrightarrow> r = Inr x \<and> rest = bs"
  by (cases r) (auto simp: p_lift_def)

lemma unat_of_nat_len: "n \<le> 255 \<Longrightarrow> unat (of_nat n :: u8) = n"
  by (simp add: unat_of_nat_u8)

lemma parse_domain_iff:
  "parse_domain bs = Inr (t, rest) \<longleftrightarrow>
     (\<exists>host port. t = TDomain host port \<and> length host \<le> 255 \<and> valid_str host \<and>
        bs = of_nat (length host) # as_bytes host @ be16 port @ rest)"
proof
  assume "parse_domain bs = Inr (t, rest)"
  then obtain len host port where
      h: "bs = len # as_bytes host @ be16 port @ rest" "length host = unat len"
         "valid_str host" "t = TDomain host port"
    by (auto simp: parse_domain_def p_bind_Inr_iff p_exact_Inr_iff p_u16_Inr_iff p_return_def
        p_u8_Inr_iff p_lift_Inr_iff from_utf8_Inr_iff)
  have "unat len \<le> 255" using unat_u8_less [of len] by linarith
  with h show "\<exists>host port. t = TDomain host port \<and> length host \<le> 255 \<and> valid_str host \<and>
        bs = of_nat (length host) # as_bytes host @ be16 port @ rest" by auto
next
  assume "\<exists>host port. t = TDomain host port \<and> length host \<le> 255 \<and> valid_str host \<and>
        bs = of_nat (length host) # as_bytes host @ be16 port @ rest"
  then show "parse_domain bs = Inr (t, rest)"
    by (auto simp: parse_domain_def p_return_def p_lift_def unat_of_nat_len)
qed

locale addr_format =
  fixes t4 td t6 :: u8
  assumes tags_distinct: "t4 \<noteq> td" "t4 \<noteq> t6" "td \<noteq> t6"
begin

lemma parse_addr_iff:
  "parse_addr t4 td t6 bad bs = Inr (t, rest) \<longleftrightarrow>
     fits t \<and> valid_target t \<and> wire_form t = t \<and> bs = format_addr t4 td t6 t @ rest"
proof (cases bs)
  case Nil
  then show ?thesis by (cases t rule: wire_form.cases) (simp_all add: parse_addr_def)
next
  case (Cons b bs')
  then have "parse_addr t4 td t6 bad bs =
      (if b = t4 then parse_v4 bs' else if b = td then parse_domain bs'
       else if b = t6 then parse_v6 bs' else Inl bad)"
    by (simp add: parse_addr_def p_fail_def)
  with Cons tags_distinct show ?thesis
    by (cases t rule: wire_form.cases)
      (auto simp: parse_v4_iff parse_v6_iff parse_domain_iff)
qed

lemma parse_format:
  assumes "fits t" "valid_target t"
  shows "parse_addr t4 td t6 bad (format_addr t4 td t6 t @ rest) = Inr (wire_form t, rest)"
proof -
  have "fits (wire_form t)" "valid_target (wire_form t)" "wire_form (wire_form t) = wire_form t"
    "format_addr t4 td t6 (wire_form t) = format_addr t4 td t6 t"
    using assms by (cases t rule: wire_form.cases; simp)+
  then show ?thesis by (simp add: parse_addr_iff)
qed

end

text \<open>
  The contract of an address codec: the encoder writes the format, or refuses a domain that does
  not fit; the decoder parses the format and returns the number of bytes it consumed.
\<close>

locale addr_codec = addr_format +
  fixes enc :: "target_addr \<Rightarrow> bytes res"
    and dec :: "bytes \<Rightarrow> (target_addr \<times> nat) res"
    and too_long bad :: error
  assumes enc_spec: "enc t = (if fits t then Inr (format_addr t4 td t6 t) else Inl too_long)"
    and dec_spec: "dec bs =
      and_then (parse_addr t4 td t6 bad bs) (\<lambda>(t, rest). Inr (t, length bs - length rest))"
begin

lemma dec_enc:
  assumes "enc t = Inr bs" "valid_target t"
  shows "dec (bs @ rest) = Inr (wire_form t, length bs)"
  using assms by (auto simp: enc_spec dec_spec parse_format split: if_splits)

lemma dec_Inr:
  assumes "dec bs = Inr (t, n)"
  shows "\<exists>rest. bs = format_addr t4 td t6 t @ rest \<and> n = length bs - length rest \<and>
    fits t \<and> valid_target t \<and> wire_form t = t"
  using assms by (auto simp: dec_spec and_then_Inr_iff parse_addr_iff)

text \<open>Decoding is a left inverse of encoding, and re-encoding gives back the bytes consumed.\<close>

lemma enc_dec:
  assumes "dec bs = Inr (t, n)"
  shows "enc t = Inr (take n bs) \<and> n \<le> length bs"
  using dec_Inr [OF assms] by (auto simp: enc_spec)

lemma enc_inject:
  assumes "enc t = Inr bs" "enc u = Inr bs" "valid_target t" "valid_target u"
  shows "wire_form t = wire_form u"
  using dec_enc [OF assms(1,3), of "[]"] dec_enc [OF assms(2,4), of "[]"] by simp

lemma enc_Inl_iff: "enc t = Inl e \<longleftrightarrow> \<not> fits t \<and> e = too_long"
  by (auto simp: enc_spec)

end

end
