(* ===== verification/Socks5_Codec.thy ===== *)
theory Socks5_Codec
  imports Session
begin

text \<open>
  The wire format of \<open>protocol/socks5/codec.rs\<close>: addresses and UDP packets. The codec is an
  instance of the address format with the type bytes 1, 3 and 4 (\<open>socks5_addr\<close>), which gives the
  round trips below.
\<close>

section \<open>Definitions\<close>

definition VERSION :: u8 where "VERSION = 0x05"
definition CMD_CONNECT :: u8 where "CMD_CONNECT = 0x01"
definition CMD_UDP_ASSOCIATE :: u8 where "CMD_UDP_ASSOCIATE = 0x03"
definition ATYP_IPV4 :: u8 where "ATYP_IPV4 = 0x01"
definition ATYP_DOMAIN :: u8 where "ATYP_DOMAIN = 0x03"
definition ATYP_IPV6 :: u8 where "ATYP_IPV6 = 0x04"

lemmas socks5_consts [eval_simps] =
  VERSION_def CMD_CONNECT_def CMD_UDP_ASSOCIATE_def ATYP_IPV4_def ATYP_DOMAIN_def ATYP_IPV6_def

fun encode_addr :: "target_addr \<Rightarrow> bytes res" where
  "encode_addr (TIp (SockV4 ip port)) = Inr ([ATYP_IPV4] @ v4_octets ip @ be16 port)"
| "encode_addr (TIp (SockV6 ip port flow scope)) = Inr ([ATYP_IPV6] @ v6_octets ip @ be16 port)"
| "encode_addr (TDomain host port) =
     and_then (ensure (length host \<le> 255) ''domain is too long for socks5'') (\<lambda>_.
     Inr ([ATYP_DOMAIN] @ [of_nat (length host)] @ as_bytes host @ be16 port))"

definition decode_addr :: "bytes \<Rightarrow> (target_addr \<times> nat) res" where
  "decode_addr data =
     and_then
       (p_bind p_u8 (\<lambda>atyp.
          if atyp = ATYP_IPV4 then
            p_bind (p_exact 4) (\<lambda>octets. p_bind p_u16 (\<lambda>port.
              p_return (TIp (sock_new (V4 (v4_from octets)) port))))
          else if atyp = ATYP_DOMAIN then
            p_bind p_u8 (\<lambda>len. p_bind (p_exact (unat len)) (\<lambda>host. p_bind p_u16 (\<lambda>port.
              p_bind (p_lift (from_utf8 host)) (\<lambda>host. p_return (TDomain host port)))))
          else if atyp = ATYP_IPV6 then
            p_bind (p_exact 16) (\<lambda>octets. p_bind p_u16 (\<lambda>port.
              p_return (TIp (sock_new (V6 (v6_from octets)) port))))
          else p_fail (Bail ''unsupported socks5 address type'')) data)
       (\<lambda>(target, rest). Inr (target, length data - length rest))"

definition encode_udp_packet :: "target_addr \<Rightarrow> bytes \<Rightarrow> bytes res" where
  "encode_udp_packet target payload =
     and_then (encode_addr target) (\<lambda>addr. Inr ([0, 0, 0] @ addr @ payload))"

definition decode_udp_packet :: "bytes \<Rightarrow> (target_addr \<times> bytes) res" where
  "decode_udp_packet data =
     and_then (ensure (4 \<le> length data) ''short socks5 udp packet'') (\<lambda>_.
     and_then (ensure (data ! 0 = 0 \<and> data ! 1 = 0) ''invalid socks5 udp reserved bytes'') (\<lambda>_.
     and_then (ensure (data ! 2 = 0) ''fragmented socks5 udp packets are not supported'') (\<lambda>_.
     and_then (decode_addr (drop 3 data)) (\<lambda>(target, consumed).
     Inr (target, drop (3 + consumed) data)))))"

section \<open>The codec implements the address format\<close>

lemma decode_addr_parse:
  "decode_addr data =
     and_then (parse_addr ATYP_IPV4 ATYP_DOMAIN ATYP_IPV6
         (Bail ''unsupported socks5 address type'') data)
       (\<lambda>(t, rest). Inr (t, length data - length rest))"
  unfolding decode_addr_def parse_addr_def parse_v4_def parse_v6_def parse_domain_def sock_new.simps
  ..

interpretation socks5_addr: addr_codec ATYP_IPV4 ATYP_DOMAIN ATYP_IPV6 encode_addr decode_addr
  "Bail ''domain is too long for socks5''" "Bail ''unsupported socks5 address type''"
proof
  show "ATYP_IPV4 \<noteq> ATYP_DOMAIN" "ATYP_IPV4 \<noteq> ATYP_IPV6" "ATYP_DOMAIN \<noteq> ATYP_IPV6"
    by (simp_all add: socks5_consts)
  show "encode_addr t = (if fits t then Inr (format_addr ATYP_IPV4 ATYP_DOMAIN ATYP_IPV6 t)
      else Inl (Bail ''domain is too long for socks5''))" for t
    by (cases t rule: encode_addr.cases) simp_all
qed (rule decode_addr_parse)

lemma encode_addr_length:
  "encode_addr t = Inr bs \<Longrightarrow> 7 \<le> length bs \<or> (\<exists>host port. t = TDomain host port \<and> 4 \<le> length bs)"
  by (cases t rule: encode_addr.cases) (auto simp: and_then_Inr_iff)

lemma encode_addr_nonempty: "encode_addr t = Inr bs \<Longrightarrow> 4 \<le> length bs"
  using encode_addr_length by force

section \<open>UDP packets\<close>

lemma udp_packet_decodes:
  assumes "encode_addr t = Inr addr" "valid_target t"
  shows "decode_udp_packet ([0, 0, 0] @ addr @ payload) = Inr (wire_form t, payload)"
proof -
  have "decode_addr (addr @ payload) = Inr (wire_form t, length addr)"
    using assms by (rule socks5_addr.dec_enc)
  with encode_addr_nonempty [OF assms(1)] show ?thesis
    by (simp add: decode_udp_packet_def numeral_3_eq_3)
qed

text \<open>A SOCKS5 UDP packet decodes to the target it was encoded with, without the flow
  information and scope of an IPv6 address, and to exactly the payload.\<close>

theorem socks5_udp_packet_roundtrip:
  assumes "encode_udp_packet t payload = Inr packet" and "valid_target t"
  shows "decode_udp_packet packet = Inr (wire_form t, payload)"
  using assms udp_packet_decodes by (auto simp: encode_udp_packet_def and_then_Inr_iff)

end
