(* ===== verification/Config.thy ===== *)
theory Config
  imports Session
begin

text \<open>
  The configuration of \<open>config.rs\<close>: the records the TOML file deserialises to, the validation
  run at start-up, the derived settings the protocols read, and the parser of durations. Error
  messages are the literal part of the messages of the code.
\<close>

section \<open>Records\<close>

datatype protocol = Direct | Socks5 | Anytls | Tuic

record user_config =
  uc_username :: string
  uc_uuid :: "string option"
  uc_password :: string

record tls_acme_config =
  domains :: "string list"

record tls_server_config =
  certificate :: "string option"
  private_key :: "string option"
  tls_acme :: "tls_acme_config option"

datatype server_host = HostIp ip_addr | HostDomain string

record server_addr =
  sa_host :: server_host
  sa_port :: u16

record inbound_config =
  in_tag :: string
  in_listen :: socket_addr
  in_protocol :: protocol
  in_users :: "user_config list option"
  padding_scheme :: "string list"
  fallback :: "server_addr option"
  in_tls :: "tls_server_config option"

record outbound_config =
  out_tag :: string
  out_protocol :: protocol
  out_server :: "server_addr option"
  out_server_name :: "string option"
  insecure :: bool
  ca_certificate :: "string option"
  out_username :: "string option"
  out_password :: "string option"
  out_uuid :: "string option"
  max_streams :: "usize option"
  max_connections :: "usize option"
  connection_idle_timeout :: "duration option"

record route_rule =
  rule_inbound :: "string option"
  rule_outbound :: string

record routing_config =
  routing_default :: "string option"
  rules :: "route_rule list"

record acme_config =
  directory :: string
  cache_dir :: string
  http_listen :: socket_addr
  renew_before_days :: u32
  accept_terms :: bool
  contact :: "string list"

record config =
  log_level :: "string option"
  cfg_acme :: "acme_config option"
  inbounds :: "inbound_config list"
  outbounds :: "outbound_config list"
  routing :: routing_config

section \<open>Defaults\<close>

definition default_anytls_max_streams :: usize where
  "default_anytls_max_streams = 1"

definition default_anytls_connection_idle_timeout :: duration where
  "default_anytls_connection_idle_timeout = from_secs (2 * 60)"

definition default_acme_config :: acme_config where
  "default_acme_config =
     \<lparr>directory = ''letsencrypt-staging'', cache_dir = ''.rtunnel/acme'',
      http_listen = SockV4 0 80, renew_before_days = 30, accept_terms = False, contact = []\<rparr>"

definition acme_config_of :: "config \<Rightarrow> acme_config" where
  "acme_config_of cfg = (case cfg_acme cfg of None \<Rightarrow> default_acme_config | Some a \<Rightarrow> a)"

section \<open>Derived settings\<close>

definition require_server :: "outbound_config \<Rightarrow> server_addr res" where
  "require_server cfg = ok_or (out_server cfg) (Bail ''outbound requires server'')"

fun server_domain :: "server_addr \<Rightarrow> string option" where
  "server_domain sa = (case sa_host sa of HostIp _ \<Rightarrow> None | HostDomain d \<Rightarrow> Some d)"

definition tls_server_name :: "outbound_config \<Rightarrow> string res" where
  "tls_server_name cfg =
     ok_or
       (case out_server_name cfg of
          Some n \<Rightarrow> Some n
        | None \<Rightarrow> Option.bind (out_server cfg) server_domain)
       (Bail ''outbound requires server_name'')"

definition anytls_connection_idle_timeout :: "outbound_config \<Rightarrow> duration" where
  "anytls_connection_idle_timeout cfg =
     (case connection_idle_timeout cfg of
        None \<Rightarrow> default_anytls_connection_idle_timeout
      | Some d \<Rightarrow> d)"

definition anytls_max_streams :: "outbound_config \<Rightarrow> usize option" where
  "anytls_max_streams cfg =
     (if max_connections cfg \<noteq> None then None
      else Some (case max_streams cfg of None \<Rightarrow> default_anytls_max_streams | Some n \<Rightarrow> n))"

definition certificate_path :: "tls_server_config \<Rightarrow> string res" where
  "certificate_path tls =
     ok_or (certificate tls) (Bail ''tls certificate path is not configured'')"

definition private_key_path :: "tls_server_config \<Rightarrow> string res" where
  "private_key_path tls =
     ok_or (private_key tls) (Bail ''tls private key path is not configured'')"

section \<open>Validation\<close>

definition validate_outbound :: "outbound_config \<Rightarrow> unit res" where
  "validate_outbound cfg =
     (if out_protocol cfg \<noteq> Anytls then Inr ()
      else
        and_then (ensure (\<not> (max_streams cfg \<noteq> None \<and> max_connections cfg \<noteq> None))
          ''cannot configure both max_streams and max_connections'') (\<lambda>_.
        and_then (ensure (max_streams cfg \<noteq> Some 0)
          ''max_streams must be greater than zero'') (\<lambda>_.
        and_then (ensure (max_connections cfg \<noteq> Some 0)
          ''max_connections must be greater than zero'') (\<lambda>_.
        and_then (ensure (connection_idle_timeout cfg \<noteq> Some 0)
          ''connection_idle_timeout must be greater than zero'') (\<lambda>_.
        Inr ())))))"

fun validate_domains :: "string list \<Rightarrow> unit res" where
  "validate_domains [] = Inr ()"
| "validate_domains (domain # ds) =
     and_then (ensure (\<not> has_prefix ''*.'' domain)
       ''HTTP-01 does not support wildcard certificates'') (\<lambda>_.
     and_then (ensure (trim domain \<noteq> [] \<and> \<not> contains_whitespace domain)
       ''tls.acme.domains contains invalid domain'') (\<lambda>_.
     validate_domains ds))"

definition validate_tls :: "tls_server_config \<Rightarrow> unit res" where
  "validate_tls tls =
     (let has_certificate = certificate tls \<noteq> None;
          has_private_key = private_key tls \<noteq> None;
          has_static = has_certificate \<or> has_private_key;
          has_acme = tls_acme tls \<noteq> None in
      and_then (if has_static then ensure (has_certificate \<and> has_private_key)
          ''tls requires both certificate and private_key'' else Inr ()) (\<lambda>_.
      and_then (ensure (has_static \<noteq> has_acme)
          ''tls must configure exactly one of certificate/private_key or acme'') (\<lambda>_.
      case tls_acme tls of
        None \<Rightarrow> Inr ()
      | Some acme \<Rightarrow>
          and_then (ensure (domains acme \<noteq> []) ''tls.acme.domains must not be empty'') (\<lambda>_.
          validate_domains (domains acme)))))"

fun validate_inbounds :: "inbound_config list \<Rightarrow> unit res" where
  "validate_inbounds [] = Inr ()"
| "validate_inbounds (i # is) =
     and_then (case in_tls i of None \<Rightarrow> Inr () | Some tls \<Rightarrow> validate_tls tls) (\<lambda>_.
     validate_inbounds is)"

fun validate_outbounds :: "outbound_config list \<Rightarrow> unit res" where
  "validate_outbounds [] = Inr ()"
| "validate_outbounds (out # os) =
     and_then (validate_outbound out) (\<lambda>_. validate_outbounds os)"

definition validate :: "config \<Rightarrow> unit res" where
  "validate cfg =
     (if inbounds cfg = [] then Inl (Bail ''at least one inbound is required'')
      else if outbounds cfg = [] then Inl (Bail ''at least one outbound is required'')
      else
        and_then
          (case routing_default (routing cfg) of
             None \<Rightarrow> Inr ()
           | Some d \<Rightarrow>
               if list_ex (\<lambda>out. out_tag out = d) (outbounds cfg) then Inr ()
               else Inl (Bail ''routing.default references unknown outbound tag'')) (\<lambda>_.
        and_then (validate_inbounds (inbounds cfg)) (\<lambda>_.
        validate_outbounds (outbounds cfg))))"

section \<open>Durations\<close>

datatype duration_value = Seconds u64 | Text string

definition checked_mul_u64 :: "u64 \<Rightarrow> nat \<Rightarrow> nat option" where
  "checked_mul_u64 a k = (if unat a * k < 2 ^ 64 then Some (unat a * k) else None)"

definition parse_duration_text :: "string \<Rightarrow> duration res" where
  "parse_duration_text text =
     (let val = trim text in
      and_then (ensure (val \<noteq> []) ''duration must not be empty'') (\<lambda>_.
      let digits = takeWhile is_digit val in
      and_then (ensure (0 < length digits) ''duration must start with a number'') (\<lambda>_.
      and_then (parse_u64 digits) (\<lambda>amount.
      let unit = trim (drop (length digits) val);
          scaled = (\<lambda>k. and_then (ok_or (checked_mul_u64 amount k) (Bail ''duration is too large''))
                      (\<lambda>seconds. Inr (from_secs seconds))) in
      if unit \<in> set ['''', ''s'', ''sec'', ''secs'', ''second'', ''seconds'']
        then Inr (from_secs (unat amount))
      else if unit \<in> set [''m'', ''min'', ''mins'', ''minute'', ''minutes''] then scaled 60
      else if unit \<in> set [''h'', ''hr'', ''hrs'', ''hour'', ''hours''] then scaled (60 * 60)
      else if unit \<in> set [''d'', ''day'', ''days''] then scaled (24 * 60 * 60)
      else if unit \<in> set [''ms'', ''millisecond'', ''milliseconds'']
        then Inr (from_millis (unat amount))
      else Inl (Bail ''duration has unsupported unit'')))))"

fun parse_duration_value :: "duration_value \<Rightarrow> duration res" where
  "parse_duration_value (Seconds seconds) = Inr (from_secs (unat seconds))"
| "parse_duration_value (Text text) = parse_duration_text text"

section \<open>What validation and parsing guarantee\<close>

lemma validate_inbounds_iff:
  "validate_inbounds is = Inr () \<longleftrightarrow>
     (\<forall>i \<in> set is. \<forall>tls. in_tls i = Some tls \<longrightarrow> validate_tls tls = Inr ())"
  by (induction "is") (auto simp: and_then_Inr_iff split: option.splits)

lemma validate_outbounds_iff:
  "validate_outbounds os = Inr () \<longleftrightarrow> (\<forall>out \<in> set os. validate_outbound out = Inr ())"
  by (induction os) (auto simp: and_then_Inr_iff)

lemma validate_Inr:
  assumes "validate cfg = Inr ()"
  shows "inbounds cfg \<noteq> []" "outbounds cfg \<noteq> []"
    "\<And>d. routing_default (routing cfg) = Some d \<Longrightarrow> \<exists>out \<in> set (outbounds cfg). out_tag out = d"
    "\<And>i tls. i \<in> set (inbounds cfg) \<Longrightarrow> in_tls i = Some tls \<Longrightarrow> validate_tls tls = Inr ()"
    "\<And>out. out \<in> set (outbounds cfg) \<Longrightarrow> validate_outbound out = Inr ()"
  using assms
  by (auto simp: validate_def and_then_Inr_iff validate_inbounds_iff validate_outbounds_iff
      list_ex_iff split: if_splits option.splits)

lemma validate_domains_iff:
  "validate_domains ds = Inr () \<longleftrightarrow>
     (\<forall>d \<in> set ds. \<not> has_prefix ''*.'' d \<and> trim d \<noteq> [] \<and> \<not> contains_whitespace d)"
  by (induction ds) (auto simp: and_then_Inr_iff)

text \<open>
  What a validated configuration is: TLS with exactly one source of its certificate, ACME domains
  that HTTP-01 can serve, and pools with one positive limit.
\<close>

definition tls_ok :: "tls_server_config \<Rightarrow> bool" where
  "tls_ok tls \<longleftrightarrow>
     (case tls_acme tls of
        None \<Rightarrow> certificate tls \<noteq> None \<and> private_key tls \<noteq> None
      | Some acme \<Rightarrow> certificate tls = None \<and> private_key tls = None \<and> domains acme \<noteq> [] \<and>
          (\<forall>d \<in> set (domains acme). \<not> has_prefix ''*.'' d \<and> trim d \<noteq> [] \<and> \<not> contains_whitespace d))"

definition pool_ok :: "outbound_config \<Rightarrow> bool" where
  "pool_ok out \<longleftrightarrow>
     (case anytls_max_streams out of
        Some n \<Rightarrow> n > 0 \<and> max_connections out = None
      | None \<Rightarrow> max_streams out = None \<and> (\<exists>n > 0. max_connections out = Some n)) \<and>
     anytls_connection_idle_timeout out > 0"

lemma validate_tls_iff: "validate_tls tls = Inr () \<longleftrightarrow> tls_ok tls"
  by (cases "tls_acme tls")
    (auto simp: validate_tls_def tls_ok_def and_then_Inr_iff ensure_def validate_domains_iff Let_def)

lemma validate_outbound_iff:
  "validate_outbound out = Inr () \<longleftrightarrow> (out_protocol out = Anytls \<longrightarrow> pool_ok out)"
  by (cases "max_streams out"; cases "max_connections out"; cases "connection_idle_timeout out")
    (auto simp: validate_outbound_def pool_ok_def and_then_Inr_iff ensure_def anytls_max_streams_def
      anytls_connection_idle_timeout_def default_anytls_max_streams_def
      default_anytls_connection_idle_timeout_def from_secs_def)

text \<open>C27: Validation accepts exactly the usable configurations: there are inbounds and outbounds, the
  default route names an outbound, every TLS section has exactly one source of its certificate
  (certificate and key, or ACME with at least one domain, none of them a wildcard or with white
  space), and every AnyTLS outbound has exactly one positive limit and a positive idle timeout.\<close>

theorem config_validation_exact:
  "validate cfg = Inr () \<longleftrightarrow>
     inbounds cfg \<noteq> [] \<and> outbounds cfg \<noteq> [] \<and>
     (\<forall>d. routing_default (routing cfg) = Some d \<longrightarrow> d \<in> out_tag ` set (outbounds cfg)) \<and>
     (\<forall>i \<in> set (inbounds cfg). \<forall>tls. in_tls i = Some tls \<longrightarrow> tls_ok tls) \<and>
     (\<forall>out \<in> set (outbounds cfg). out_protocol out = Anytls \<longrightarrow> pool_ok out)"
  by (cases "routing_default (routing cfg)")
    (auto simp: validate_def and_then_Inr_iff validate_inbounds_iff validate_outbounds_iff
      validate_tls_iff validate_outbound_iff list_ex_iff)

definition demo_pool :: outbound_config where
  "demo_pool =
     \<lparr>out_tag = ''pool'', out_protocol = Anytls, out_server = None, out_server_name = None, insecure = False,
      ca_certificate = None, out_username = None, out_password = None, out_uuid = None,
      max_streams = None, max_connections = Some 2, connection_idle_timeout = None\<rparr>"

definition demo_pool_config :: config where
  "demo_pool_config =
     \<lparr>log_level = None, cfg_acme = None,
      inbounds = [\<lparr>in_tag = ''in'', in_listen = SockV4 0 443, in_protocol = Anytls, in_users = None,
        padding_scheme = [], fallback = None,
        in_tls = Some \<lparr>certificate = Some ''c.pem'', private_key = Some ''k.pem'', tls_acme = None\<rparr>\<rparr>],
      outbounds = [demo_pool], routing = \<lparr>routing_default = Some ''pool'', rules = []\<rparr>\<rparr>"

theorem config_validation_exact_witness:
  "validate demo_pool_config = Inr () \<and>
   validate (demo_pool_config\<lparr>outbounds := [demo_pool\<lparr>max_streams := Some 1\<rparr>]\<rparr>) \<noteq> Inr ()"
proof
  have "pool_ok demo_pool" "\<not> pool_ok (demo_pool\<lparr>max_streams := Some 1\<rparr>)"
    by (simp_all add: pool_ok_def demo_pool_def anytls_max_streams_def anytls_connection_idle_timeout_def
        default_anytls_connection_idle_timeout_def from_secs_def)
  then show "validate demo_pool_config = Inr ()"
    and "validate (demo_pool_config\<lparr>outbounds := [demo_pool\<lparr>max_streams := Some 1\<rparr>]\<rparr>) \<noteq> Inr ()"
    using config_validation_exact [of demo_pool_config]
      config_validation_exact [of "demo_pool_config\<lparr>outbounds := [demo_pool\<lparr>max_streams := Some 1\<rparr>]\<rparr>"]
    by (simp_all add: demo_pool_config_def tls_ok_def, simp_all add: demo_pool_def)
qed

section \<open>Durations are exact\<close>

lemma trim_front_id:
  assumes "\<forall>w \<in> set ws. w = [] \<or> s = [] \<or> hd w \<noteq> hd s"
  shows "trim_front ws s = s"
proof -
  have "find (\<lambda>w. w \<noteq> [] \<and> has_prefix w s) ws = None"
  proof -
    have "\<not> has_prefix w s" if "w \<in> set ws" "w \<noteq> []" for w
      using assms that by (cases w; cases s) (auto simp: has_prefix_def)
    then show ?thesis by (auto simp: find_None_iff)
  qed
  then show ?thesis by (subst trim_front.simps) simp
qed

definition alnum :: "char \<Rightarrow> bool" where
  "alnum c \<longleftrightarrow> is_digit c \<or> (97 \<le> (of_char c :: nat) \<and> (of_char c :: nat) \<le> 122)"

lemma alnum_no_ws:
  assumes "alnum c"
  shows "\<forall>w \<in> set ws_encodings. w = [] \<or> hd w \<noteq> c" "\<forall>w \<in> set (map rev ws_encodings). w = [] \<or> hd w \<noteq> c"
  using assms by (auto simp: ws_encodings_def alnum_def is_digit_def)

lemma trim_alnum:
  assumes "list_all alnum s"
  shows "trim s = s"
proof -
  have "trim_start s = s"
    unfolding trim_start_def using assms
    by (intro trim_front_id) (metis alnum_no_ws(1) list.set_sel(1) list_all_iff)
  moreover have "trim_front (map rev ws_encodings) (rev s) = rev s"
    using assms by (intro trim_front_id) (metis alnum_no_ws(2) list.set_sel(1) list_all_iff set_rev)
  ultimately show ?thesis by (simp add: trim_def trim_end_def)
qed

text \<open>The units, in nanoseconds.\<close>

definition unit_nanos :: "string \<Rightarrow> nat option" where
  "unit_nanos u =
     (if u \<in> set ['''', ''s'', ''sec'', ''secs'', ''second'', ''seconds''] then Some (from_secs 1)
      else if u \<in> set [''m'', ''min'', ''mins'', ''minute'', ''minutes''] then Some (from_secs 60)
      else if u \<in> set [''h'', ''hr'', ''hrs'', ''hour'', ''hours''] then Some (from_secs 3600)
      else if u \<in> set [''d'', ''day'', ''days''] then Some (from_secs 86400)
      else if u \<in> set [''ms'', ''millisecond'', ''milliseconds''] then Some (from_millis 1)
      else None)"

lemma unit_nanos_letters:
  assumes "unit_nanos u = Some k"
  shows "list_all (\<lambda>c. \<not> is_digit c \<and> alnum c) u"
proof -
  let ?units = "['''', ''s'', ''sec'', ''secs'', ''second'', ''seconds''] @
    [''m'', ''min'', ''mins'', ''minute'', ''minutes''] @ [''h'', ''hr'', ''hrs'', ''hour'', ''hours''] @
    [''d'', ''day'', ''days''] @ [''ms'', ''millisecond'', ''milliseconds'']"
  have "(if u \<in> set A then a else if u \<in> set B then b else if u \<in> set C then c else if u \<in> set D then d
      else if u \<in> set E then e else None) = Some k \<Longrightarrow> u \<in> set (A @ B @ C @ D @ E)" for A B C D E a b c d e
    by (auto split: if_splits)
  from this [OF assms [unfolded unit_nanos_def]] have "u \<in> set ?units" .
  moreover have "list_all (list_all (\<lambda>c. \<not> is_digit c \<and> alnum c)) ?units"
    by (simp add: alnum_def is_digit_def)
  ultimately show ?thesis unfolding list_all_iff by blast
qed

text \<open>C28: A duration is read exactly: digits followed by a unit give the number times the unit, and
  when that would exceed the greatest number of seconds of a \<open>u64\<close> the text is refused; no
  multiplication wraps.\<close>

theorem duration_text_exact:
  assumes "list_all is_digit ds" "ds \<noteq> []" "unit_nanos u = Some k"
  shows "parse_duration_text (ds @ u) =
    and_then (parse_u64 ds) (\<lambda>n.
      if unat n * k < from_secs (2 ^ 64) then Inr (unat n * k) else Inl (Bail ''duration is too large''))"
proof -
  have u: "list_all (\<lambda>c. \<not> is_digit c) u" "list_all alnum u" 
    using unit_nanos_letters [OF assms(3)] by (auto simp: list_all_iff)
  have "list_all alnum (ds @ u)" using assms(1) u(2) by (auto simp: list_all_iff alnum_def)
  then have t: "trim (ds @ u) = ds @ u" "trim u = u" using u(2) by (simp_all add: trim_alnum)
  have w: "takeWhile is_digit (ds @ u) = ds"
    using assms(1) u(1) by (cases u) (auto simp: list_all_iff)
  have d: "trim (drop (length ds) (ds @ u)) = u" using t(2) by simp
  have scale: "and_then (ok_or (checked_mul_u64 n j) (Bail ''duration is too large'')) (\<lambda>seconds. Inr (from_secs seconds)) =
      (if unat n * from_secs j < from_secs (2 ^ 64) then Inr (unat n * from_secs j)
       else Inl (Bail ''duration is too large''))" for n j
    by (auto simp: checked_mul_u64_def from_secs_def mult.commute mult.left_commute)
  have small: "unat n * from_secs 1 < from_secs (2 ^ 64)" "unat n * from_millis 1 < from_secs (2 ^ 64)" for n :: u64
    using unat_less_pow [of n] by (simp_all add: from_secs_def from_millis_def)
  have units: "(if u \<in> A then Inr (from_secs (unat n)) else if u \<in> B then f 60
      else if u \<in> C then f (60 * 60) else if u \<in> D then f (24 * 60 * 60)
      else if u \<in> E then Inr (from_millis (unat n)) else e) =
      (if unat n * k < from_secs (2 ^ 64) then Inr (unat n * k) else Inl (Bail ''duration is too large''))"
    if f: "\<And>j. f j = (if unat n * from_secs j < from_secs (2 ^ 64) then Inr (unat n * from_secs j)
         else Inl (Bail ''duration is too large''))"
      and k: "(if u \<in> A then Some (from_secs 1) else if u \<in> B then Some (from_secs 60)
         else if u \<in> C then Some (from_secs 3600) else if u \<in> D then Some (from_secs 86400)
         else if u \<in> E then Some (from_millis 1) else None) = Some k"
    for n :: u64 and f :: "nat \<Rightarrow> duration res" and A B C D E e
  proof -
    have one: "from_secs (unat n) = unat n * from_secs 1" "from_millis (unat n) = unat n * from_millis 1"
      by (simp_all add: from_secs_def from_millis_def)
    show ?thesis using k small [of n] unfolding f one by (auto split: if_splits)
  qed
  have body: "parse_duration_text (ds @ u) = and_then (parse_u64 ds) (\<lambda>n.
      if u \<in> set ['''', ''s'', ''sec'', ''secs'', ''second'', ''seconds''] then Inr (from_secs (unat n))
      else if u \<in> set [''m'', ''min'', ''mins'', ''minute'', ''minutes'']
        then and_then (ok_or (checked_mul_u64 n 60) (Bail ''duration is too large'')) (\<lambda>seconds. Inr (from_secs seconds))
      else if u \<in> set [''h'', ''hr'', ''hrs'', ''hour'', ''hours'']
        then and_then (ok_or (checked_mul_u64 n (60 * 60)) (Bail ''duration is too large'')) (\<lambda>seconds. Inr (from_secs seconds))
      else if u \<in> set [''d'', ''day'', ''days'']
        then and_then (ok_or (checked_mul_u64 n (24 * 60 * 60)) (Bail ''duration is too large'')) (\<lambda>seconds. Inr (from_secs seconds))
      else if u \<in> set [''ms'', ''millisecond'', ''milliseconds''] then Inr (from_millis (unat n))
      else Inl (Bail ''duration has unsupported unit''))"
    unfolding parse_duration_text_def Let_def t(1) w d using assms(2) by (simp only: ensure_def append_is_Nil_conv length_greater_0_conv if_True and_then_simps simp_thms)
  show ?thesis
    unfolding body
    by (rule arg_cong [where f = "and_then (parse_u64 ds)"], rule ext,
        rule units [OF scale assms(3) [unfolded unit_nanos_def]])
qed

theorem duration_text_exact_witness:
  "parse_duration_text (''10'' @ ''min'') = Inr (from_secs 600)"
proof -
  have "parse_u64 ''10'' = Inr 10" by (simp add: parse_u64_def parse_uint_def is_digit_def digit_val_def)
  moreover have "unit_nanos ''min'' = Some (from_secs 60)" by (simp add: unit_nanos_def)
  ultimately show ?thesis
    using duration_text_exact [of "''10''" "''min''" "from_secs 60"]
    by (simp add: is_digit_def from_secs_def)
qed

end
