(* ===== verification/Socks5_Inbound.thy ===== *)
theory Socks5_Inbound
  imports Socks5_Codec Config
begin

text \<open>
  The SOCKS5 server of \<open>protocol/socks5/inbound.rs\<close>: method negotiation, username/password
  authentication, the request, the reply, and the loop of a UDP association. The handshake is a
  computation over a socket stream; the UDP loop is a step function over the events of its
  \<open>select!\<close>, with the state it keeps between events, and an inductive reachability predicate.
\<close>

section \<open>Handshake, authentication, request\<close>

definition authenticate :: "inbound_config \<Rightarrow> (tcp_stream, unit) sm" where
  "authenticate cfg =
     sm_bind tcp_read_u8 (\<lambda>ver.
     if ver \<noteq> 0x01 then sm_fail (Bail ''invalid username/password auth version'')
     else
     sm_bind tcp_read_u8 (\<lambda>ulen.
     sm_bind (tcp_read_exact (unat ulen)) (\<lambda>username.
     sm_bind tcp_read_u8 (\<lambda>plen.
     sm_bind (tcp_read_exact (unat plen)) (\<lambda>password.
     sm_bind (sm_lift (from_utf8 username)) (\<lambda>username.
     sm_bind (sm_lift (from_utf8 password)) (\<lambda>password.
     let ok = (case in_users cfg of
                 None \<Rightarrow> False
               | Some users \<Rightarrow>
                   list_ex (\<lambda>user. uc_username user = username \<and> uc_password user = password) users)
     in
     sm_bind (tcp_write_all [0x01, if ok then 0x00 else 0x01]) (\<lambda>_.
     if \<not> ok then sm_fail (Bail ''invalid socks5 credentials'')
     else sm_return ()))))))))"

definition needs_auth :: "inbound_config \<Rightarrow> bool" where
  "needs_auth cfg = (case in_users cfg of None \<Rightarrow> False | Some users \<Rightarrow> users \<noteq> [])"

definition handshake :: "inbound_config \<Rightarrow> (tcp_stream, unit) sm" where
  "handshake cfg =
     sm_bind tcp_read_u8 (\<lambda>ver.
     if ver \<noteq> 0x05 then sm_fail (Bail ''invalid socks version'')
     else
     sm_bind tcp_read_u8 (\<lambda>nmethods.
     sm_bind (tcp_read_exact (unat nmethods)) (\<lambda>methods.
     let meth = (if needs_auth cfg then 0x02 else 0x00) in
     if meth \<notin> set methods then
       sm_bind (tcp_write_all [0x05, 0xff]) (\<lambda>_.
       sm_fail (Bail ''client did not offer required auth method''))
     else
     sm_bind (tcp_write_all [0x05, meth]) (\<lambda>_.
     if needs_auth cfg then authenticate cfg else sm_return ()))))"

datatype socks_request = SocksConnect target_addr | SocksUdpAssociate target_addr

definition read_target :: "(tcp_stream, target_addr) sm" where
  "read_target =
     sm_bind tcp_read_u8 (\<lambda>atyp.
     if atyp = ATYP_IPV4 then
       sm_bind (tcp_read_exact 4) (\<lambda>octets.
       sm_bind tcp_read_u16 (\<lambda>port.
       sm_return (target_from_ip_port (V4 (v4_from octets)) port)))
     else if atyp = ATYP_DOMAIN then
       sm_bind tcp_read_u8 (\<lambda>len.
       sm_bind (tcp_read_exact (unat len)) (\<lambda>host.
       sm_bind tcp_read_u16 (\<lambda>port.
       sm_bind (sm_lift (from_utf8 host)) (\<lambda>host.
       sm_return (TDomain host port)))))
     else if atyp = ATYP_IPV6 then
       sm_bind (tcp_read_exact 16) (\<lambda>octets.
       sm_bind tcp_read_u16 (\<lambda>port.
       sm_return (target_from_ip_port (V6 (v6_from octets)) port)))
     else sm_fail (Bail ''unsupported address type''))"

definition read_request :: "(tcp_stream, socks_request) sm" where
  "read_request =
     sm_bind tcp_read_u8 (\<lambda>ver.
     sm_bind tcp_read_u8 (\<lambda>cmd.
     sm_bind tcp_read_u8 (\<lambda>rsv.
     if ver \<noteq> 0x05 \<or> rsv \<noteq> 0 then sm_fail (Bail ''invalid socks5 request'')
     else
     sm_bind read_target (\<lambda>target.
     if cmd = CMD_CONNECT then sm_return (SocksConnect target)
     else if cmd = CMD_UDP_ASSOCIATE then sm_return (SocksUdpAssociate target)
     else sm_fail (Bail ''unsupported socks5 command'')))))"

definition write_reply :: "u8 \<Rightarrow> target_addr \<Rightarrow> (tcp_stream, unit) sm" where
  "write_reply status bind =
     sm_bind (tcp_write_all [VERSION, status, 0]) (\<lambda>_.
     sm_bind (sm_lift (encode_addr bind)) (\<lambda>addr.
     tcp_write_all addr))"

definition localhost :: "u16 \<Rightarrow> socket_addr" where
  "localhost port = sock_new (V4 0x7F000001) port"

section \<open>UDP associations\<close>

definition UDP_ASSOCIATE_IDLE_TIMEOUT :: duration where
  "UDP_ASSOCIATE_IDLE_TIMEOUT = from_secs (5 * 60)"

definition udp_client_allowed ::
    "socket_addr \<Rightarrow> u16 \<Rightarrow> socket_addr option \<Rightarrow> socket_addr \<Rightarrow> bool" where
  "udp_client_allowed peer requested_port client_addr source \<longleftrightarrow>
     to_canonical (sock_ip source) = to_canonical (sock_ip peer)
     \<and> (requested_port = 0 \<or> sock_port source = requested_port)
     \<and> (case client_addr of None \<Rightarrow> True | Some client \<Rightarrow> client = source)"

definition udp_bind_addr :: "socket_addr \<Rightarrow> socket_addr" where
  "udp_bind_addr control_addr = sock_new (sock_ip control_addr) 0"

definition udp_reply_addr :: "socket_addr \<Rightarrow> socket_addr \<Rightarrow> socket_addr" where
  "udp_reply_addr control_addr udp_addr =
     (let ip = (if is_unspecified (sock_ip udp_addr) then sock_ip control_addr else sock_ip udp_addr)
      in sock_new ip (sock_port udp_addr))"

text \<open>
  One client connection up to the point where bytes are relayed. The router is a parameter: it
  dials a stream or a datagram channel for the session, or fails. So are the local address of the
  control connection and the binding of the UDP socket, which returns the address it got.
\<close>

datatype ('o, 'd) relay = TcpRelay session 'o | UdpRelay session 'd target_addr

definition udp_associate_open ::
    "socket_addr res \<Rightarrow> (socket_addr \<Rightarrow> socket_addr res) \<Rightarrow> (tcp_stream, target_addr) sm" where
  "udp_associate_open local_addr bind_udp =
     sm_bind (sm_lift local_addr) (\<lambda>control_addr.
     sm_bind (sm_lift (bind_udp (udp_bind_addr control_addr))) (\<lambda>udp_addr.
     let reply = TIp (udp_reply_addr control_addr udp_addr) in
     sm_bind (write_reply 0 reply) (\<lambda>_.
     sm_return reply)))"

definition handle ::
    "inbound_config \<Rightarrow> socket_addr res \<Rightarrow> (socket_addr \<Rightarrow> socket_addr res) \<Rightarrow>
     (session \<Rightarrow> 'o res) \<Rightarrow> (session \<Rightarrow> 'd res) \<Rightarrow>
     (tcp_stream, ('o, 'd) relay) sm" where
  "handle cfg local_addr bind_udp dial dial_udp =
     sm_bind (handshake cfg) (\<lambda>_.
     sm_bind read_request (\<lambda>req.
     case req of
       SocksConnect target \<Rightarrow>
         (let session = \<lparr>sess_inbound = in_tag cfg, sess_command = Connect, sess_target = target\<rparr> in
          sm_bind (sm_lift (dial session)) (\<lambda>outbound.
          sm_bind (write_reply 0 (TIp (localhost 0))) (\<lambda>_.
          sm_return (TcpRelay session outbound))))
     | SocksUdpAssociate target \<Rightarrow>
         (let session = \<lparr>sess_inbound = in_tag cfg, sess_command = UdpAssociate, sess_target = target\<rparr> in
          sm_bind (sm_lift (dial_udp session)) (\<lambda>outbound.
          sm_bind (udp_associate_open local_addr bind_udp) (\<lambda>reply.
          sm_return (UdpRelay session outbound reply))))))"

section \<open>The UDP loop\<close>

text \<open>
  The loop keeps the address that claimed the association and the time of the last activity. An
  event is what one \<open>select!\<close> returns, with the result of the send it leads to and the time
  after it; \<open>Idle\<close> is the timer, which is due at \<open>last_activity + UDP_ASSOCIATE_IDLE_TIMEOUT\<close>.
\<close>

record udp_assoc =
  client_addr :: "socket_addr option"
  last_activity :: instant

datatype udp_event =
    Control "nat res"
  | FromOutbound "(target_addr \<times> bytes) res" "unit res" instant
  | FromSocket "(socket_addr \<times> bytes) res" "unit res" instant
  | Idle instant

datatype udp_action =
    SendClient socket_addr bytes
  | SendOutbound target_addr bytes

fun udp_step ::
    "socket_addr \<Rightarrow> session \<Rightarrow> udp_assoc \<Rightarrow> udp_event \<Rightarrow> udp_action list \<times> udp_assoc flow" where
  "udp_step peer session st (Control read) =
     (case read of
        Inl _ \<Rightarrow> ([], Break)
      | Inr n \<Rightarrow> if n = 0 then ([], Break) else ([], Continue st))"
| "udp_step peer session st (FromOutbound received sent now) =
     (case received of
        Inl e \<Rightarrow> ([], Failed e)
      | Inr (source, payload) \<Rightarrow>
          (case client_addr st of
             None \<Rightarrow> ([], Continue st)
           | Some client \<Rightarrow>
               (case encode_udp_packet source payload of
                  Inl _ \<Rightarrow> ([], Continue st)
                | Inr packet \<Rightarrow>
                    ([SendClient client packet],
                     (case sent of
                        Inl e \<Rightarrow> Failed e
                      | Inr _ \<Rightarrow> Continue (st\<lparr>last_activity := now\<rparr>))))))"
| "udp_step peer session st (FromSocket received sent now) =
     (case received of
        Inl e \<Rightarrow> ([], Failed e)
      | Inr (client, datagram) \<Rightarrow>
          (if \<not> udp_client_allowed peer (target_port (sess_target session)) (client_addr st) client
           then ([], Continue st)
           else
             (case decode_udp_packet datagram of
                Inl _ \<Rightarrow> ([], Continue st)
              | Inr (target, payload) \<Rightarrow>
                  ([SendOutbound target payload],
                   (case sent of
                      Inl e \<Rightarrow> Failed e
                    | Inr _ \<Rightarrow>
                        Continue (st\<lparr>client_addr := Some client, last_activity := now\<rparr>))))))"
| "udp_step peer session st (Idle now) =
     (if now < last_activity st + UDP_ASSOCIATE_IDLE_TIMEOUT then ([], Continue st) else ([], Break))"

fun udp_run ::
    "socket_addr \<Rightarrow> session \<Rightarrow> udp_assoc \<Rightarrow> udp_event list \<Rightarrow> (udp_event \<times> udp_action) list" where
  "udp_run peer session st [] = []"
| "udp_run peer session st (ev # evs) =
     map (Pair ev) (fst (udp_step peer session st ev))
     @ (case snd (udp_step peer session st ev) of
          Continue st' \<Rightarrow> udp_run peer session st' evs
        | _ \<Rightarrow> [])"

definition udp_start :: "instant \<Rightarrow> udp_assoc" where
  "udp_start now = \<lparr>client_addr = None, last_activity = now\<rparr>"

inductive udp_reachable :: "socket_addr \<Rightarrow> session \<Rightarrow> udp_assoc \<Rightarrow> bool"
  for peer session where
  start: "udp_reachable peer session (udp_start now)"
| step: "udp_reachable peer session st \<Longrightarrow>
    snd (udp_step peer session st ev) = Continue st' \<Longrightarrow> udp_reachable peer session st'"

section \<open>Requests\<close>

lemma read_target_implements:
  "implements (tcp_frame w f) rd read_target
     (parse_addr ATYP_IPV4 ATYP_DOMAIN ATYP_IPV6 (Bail ''unsupported address type''))"
  unfolding read_target_def parse_addr_def parse_v4_def parse_v6_def parse_domain_def
    target_from_ip_port_def sock_new.simps
  by (intro implements_bind implements_if tcp_implements)

lemma read_request_target:
  assumes "rd s = [5, cmd, 0] @ format_addr ATYP_IPV4 ATYP_DOMAIN ATYP_IPV6 t @ rest"
    and "fits t" "valid_target t"
  shows "sm_bind read_target k (s\<lparr>rd := format_addr ATYP_IPV4 ATYP_DOMAIN ATYP_IPV6 t @ rest\<rparr>)
    = k (wire_form t) (s\<lparr>rd := rest\<rparr>)"
proof -
  let ?bad = "Bail ''unsupported address type''"
  let ?bs = "format_addr ATYP_IPV4 ATYP_DOMAIN ATYP_IPV6 t @ rest"
  have "tcp_frame (wr s) (fault s) (s\<lparr>rd := ?bs\<rparr>)" by (simp add: tcp_frame_def)
  moreover have "parse_addr ATYP_IPV4 ATYP_DOMAIN ATYP_IPV6 ?bad (rd (s\<lparr>rd := ?bs\<rparr>)) =
      Inr (wire_form t, rest)"
    using assms(2,3) by (simp add: socks5_addr.parse_format)
  ultimately obtain s' where s': "read_target (s\<lparr>rd := ?bs\<rparr>) = (Inr (wire_form t), s')"
      "tcp_frame (wr s) (fault s) s'" "rd s' = rest"
    using implements_Inr [OF read_target_implements] by blast
  from s'(2,3) have "s' = s\<lparr>rd := rest\<rparr>" by (simp add: tcp_frame_def)
  with s'(1) show ?thesis by simp
qed

section \<open>Authentication\<close>

lemma authenticate_Inr:
  assumes "authenticate cfg s = (Inr (), s')"
  shows "\<exists>users u. in_users cfg = Some users \<and> u \<in> set users \<and>
    rd s = [1, of_nat (length (uc_username u))] @ as_bytes (uc_username u)
      @ [of_nat (length (uc_password u))] @ as_bytes (uc_password u) @ rd s' \<and>
    wr s' = wr s @ [1, 0]"
proof -
  from assms obtain ulen uname plen pass s1 s2 users u where
      r: "rd s = 1 # ulen # uname @ plen # pass @ rd s1" "length uname = unat ulen"
         "length pass = unat plen" "s1 = s\<lparr>rd := rd s1\<rparr>"
         "uname = as_bytes (uc_username u)" "pass = as_bytes (uc_password u)"
    and u: "in_users cfg = Some users" "u \<in> set users"
    and w: "tcp_write_all [1, 0] s1 = (Inr (), s')"
    by (auto simp: authenticate_def tcp_Inr from_utf8_Inr_iff list_ex_iff Let_def
        split: if_splits option.splits)
  have "length (uc_username u) = unat ulen" "length (uc_password u) = unat plen"
    using r by (metis length_as_bytes)+
  then have "ulen = of_nat (length (uc_username u))" "plen = of_nat (length (uc_password u))"
    by simp_all
  moreover have "wr s1 = wr s" by (subst r(4)) simp
  then have "rd s' = rd s1" "wr s' = wr s @ [1, 0]" using tcp_write_all_Inr [OF w] by simp_all
  ultimately show ?thesis using r u by force
qed

text \<open>C13: Where users are configured, the handshake succeeds only for a client that offered the
  username/password method and then sent the name and the password of one of them; the bytes
  consumed are exactly that exchange, and the two acceptances are the only bytes written.\<close>

theorem socks5_handshake_authenticates:
  assumes "needs_auth cfg" and "handshake cfg s = (Inr (), s')"
  shows "\<exists>users u methods. in_users cfg = Some users \<and> u \<in> set users \<and> 2 \<in> set methods \<and>
    rd s = [5, of_nat (length methods)] @ methods
      @ [1, of_nat (length (uc_username u))] @ as_bytes (uc_username u)
      @ [of_nat (length (uc_password u))] @ as_bytes (uc_password u) @ rd s' \<and>
    wr s' = wr s @ [5, 2] @ [1, 0]"
proof -
  from assms obtain n methods s1 s2 where
      r: "rd s = 5 # n # methods @ rd s1" "length methods = unat n" "s1 = s\<lparr>rd := rd s1\<rparr>"
    and m: "2 \<in> set methods"
    and w: "tcp_write_all [5, 2] s1 = (Inr (), s2)" and a: "authenticate cfg s2 = (Inr (), s')"
    by (auto simp: handshake_def tcp_Inr Let_def split: if_splits)
  have n: "n = of_nat (length methods)" using r(2) by simp
  have "wr s1 = wr s" by (subst r(3)) simp
  then have "rd s2 = rd s1" "wr s2 = wr s @ [5, 2]" using tcp_write_all_Inr [OF w] by simp_all
  with authenticate_Inr [OF a] r(1) n m show ?thesis by force
qed

definition demo_socks_inbound :: inbound_config where
  "demo_socks_inbound =
     \<lparr>in_tag = ''socks-in'', in_listen = SockV4 0x7F000001 1080, in_protocol = Socks5,
      in_users = Some [\<lparr>uc_username = ''u'', uc_uuid = None, uc_password = ''p''\<rparr>],
      padding_scheme = [], fallback = None, in_tls = None\<rparr>"

theorem socks5_handshake_authenticates_witness:
  "needs_auth demo_socks_inbound \<and>
   handshake demo_socks_inbound \<lparr>rd = [5, 2, 0, 2, 1, 1, 117, 1, 112, 9], wr = [], fault = None\<rparr> =
     (Inr (), \<lparr>rd = [9], wr = [5, 2, 1, 0], fault = None\<rparr>) \<and>
   (\<exists>users u methods. in_users demo_socks_inbound = Some users \<and> u \<in> set users \<and>
      2 \<in> set methods \<and>
      [5, 2, 0, 2, 1, 1, 117, 1, 112, 9] = [5, of_nat (length methods)] @ methods
        @ [1, of_nat (length (uc_username u))] @ as_bytes (uc_username u)
        @ [of_nat (length (uc_password u))] @ as_bytes (uc_password u) @ [9 :: u8])"
proof -
  let ?s = "\<lparr>rd = [5, 2, 0, 2, 1, 1, 117, 1, 112, 9], wr = [], fault = None\<rparr>"
  let ?s' = "\<lparr>rd = [9], wr = [5, 2, 1, 0], fault = None\<rparr>"
  have n: "needs_auth demo_socks_inbound"
    by (simp add: needs_auth_def demo_socks_inbound_def)
  have h: "handshake demo_socks_inbound ?s = (Inr (), ?s')"
    by (simp add: handshake_def needs_auth_def authenticate_def sm_bind_def tcp_read_exact_def tcp_write_all_def
        sm_lift_def sm_return_def from_utf8_def demo_socks_inbound_def Let_def eval_simps)
  show ?thesis using n h socks5_handshake_authenticates [OF n h] by simp
qed

section \<open>Ownership of a UDP association\<close>

lemma udp_client_allowed_mono:
  "udp_client_allowed peer port client source \<Longrightarrow> udp_client_allowed peer port None source"
  by (simp add: udp_client_allowed_def)

text \<open>An action is attributed to \<open>client\<close>: a reply sent to it, or the content of a packet from it.\<close>

definition owned_by :: "socket_addr \<Rightarrow> udp_event \<times> udp_action \<Rightarrow> bool" where
  "owned_by client p =
     (case p of
        (ev, SendClient c packet) \<Rightarrow> c = client
      | (ev, SendOutbound t payload) \<Rightarrow>
          (\<exists>d sent now. ev = FromSocket (Inr (client, d)) sent now \<and>
             decode_udp_packet d = Inr (t, payload)))"

lemma udp_step_claimed:
  assumes "client_addr st = Some client"
  shows "list_all (owned_by client) (map (Pair ev) (fst (udp_step peer session st ev)))"
    and "snd (udp_step peer session st ev) = Continue st' \<Longrightarrow> client_addr st' = Some client"
  using assms
  by (cases ev; auto simp: owned_by_def udp_client_allowed_def
      split: sum.splits if_splits option.splits)+

lemma udp_run_claimed:
  "client_addr st = Some client \<Longrightarrow> list_all (owned_by client) (udp_run peer session st evs)"
proof (induction evs arbitrary: st)
  case (Cons ev evs)
  note step = udp_step_claimed [OF Cons.prems, where ev = ev and peer = peer and session = session]
  show ?case
    using step Cons.IH by (cases "snd (udp_step peer session st ev)") (simp_all del: list.pred_map)
qed simp

lemma udp_step_unclaimed:
  assumes "client_addr st = None"
  obtains (quiet) "fst (udp_step peer session st ev) = []"
      "\<And>st'. snd (udp_step peer session st ev) = Continue st' \<Longrightarrow> client_addr st' = None"
  | (claim) client where
      "udp_client_allowed peer (target_port (sess_target session)) None client"
      "list_all (owned_by client) (map (Pair ev) (fst (udp_step peer session st ev)))"
      "\<And>st'. snd (udp_step peer session st ev) = Continue st' \<Longrightarrow> client_addr st' = Some client"
proof (cases "fst (udp_step peer session st ev) = []")
  case True
  then have "\<And>st'. snd (udp_step peer session st ev) = Continue st' \<Longrightarrow> client_addr st' = None"
    using assms by (cases ev) (auto split: sum.splits if_splits option.splits)
  with True that(1) show ?thesis by blast
next
  case False
  then obtain client d sent now where ev: "ev = FromSocket (Inr (client, d)) sent now"
      "udp_client_allowed peer (target_port (sess_target session)) None client"
    using assms by (cases ev) (auto split: sum.splits if_splits option.splits)
  show ?thesis
    by (rule that(2) [of client])
      (use False assms ev in \<open>auto simp: owned_by_def split: sum.splits if_splits option.splits\<close>)
qed

lemma udp_run_unclaimed:
  assumes "client_addr st = None"
  shows "udp_run peer session st evs = [] \<or>
    (\<exists>client. udp_client_allowed peer (target_port (sess_target session)) None client \<and>
       list_all (owned_by client) (udp_run peer session st evs))"
  using assms
proof (induction evs arbitrary: st)
  case (Cons ev evs)
  from \<open>client_addr st = None\<close> show ?case
  proof (cases rule: udp_step_unclaimed [where ev = ev and peer = peer and session = session])
    case quiet
    with Cons.IH show ?thesis by (auto split: flow.splits)
  next
    case (claim client)
    then show ?thesis
      using udp_run_claimed [where client = client]
      by (cases "snd (udp_step peer session st ev)") (auto simp del: list.pred_map)
  qed
qed simp

text \<open>C10: A UDP association serves one client only. Whatever arrives and in whatever order,
  every datagram it relays came from one socket address with the IP of the TCP peer (and the
  requested port, if one was requested), and every response goes back to that address.\<close>

theorem socks5_udp_single_owner:
  "udp_run peer session (udp_start t0) evs = [] \<or>
   (\<exists>client. udp_client_allowed peer (target_port (sess_target session)) None client \<and>
      list_all (owned_by client) (udp_run peer session (udp_start t0) evs))"
  by (rule udp_run_unclaimed) (simp add: udp_start_def)

text \<open>In every reachable state of the loop the claimed address has the canonical IP of the
  TCP peer, and the port the client asked for unless it asked for port 0.\<close>

theorem socks5_udp_claim_is_peer:
  assumes "udp_reachable peer session st" and "client_addr st = Some client"
  shows "to_canonical (sock_ip client) = to_canonical (sock_ip peer) \<and>
    (target_port (sess_target session) = 0 \<or>
     sock_port client = target_port (sess_target session))"
  using assms
proof (induction arbitrary: client rule: udp_reachable.induct)
  case (start now)
  then show ?case by (simp add: udp_start_def)
next
  case (step st ev st')
  show ?case
  proof (cases "client_addr st' = client_addr st")
    case True
    with step show ?thesis by simp
  next
    case False
    with step.hyps(2) step.prems show ?thesis
      by (cases ev) (auto simp: udp_client_allowed_def split: sum.splits if_splits option.splits)
  qed
qed

definition demo_socks_udp_session :: session where
  "demo_socks_udp_session =
     \<lparr>sess_inbound = ''socks-in'', sess_command = UdpAssociate, sess_target = TIp (SockV4 0 0)\<rparr>"

end
