(* ===== verification/Socks5_Outbound.thy ===== *)
theory Socks5_Outbound
  imports Socks5_Inbound
begin

text \<open>
  The SOCKS5 client of \<open>protocol/socks5/outbound.rs\<close>: the control connection, requests and
  responses, the relay address of a UDP association and the datagram session. Opening sockets and
  resolving names are parameters. The last section runs the client against the server of
  \<open>Socks5_Inbound\<close>.
\<close>

section \<open>Control connection\<close>

definition unwrap_or_default :: "string option \<Rightarrow> string" where
  "unwrap_or_default s = (case s of None \<Rightarrow> '''' | Some x \<Rightarrow> x)"

definition connect_control :: "outbound_config \<Rightarrow> (tcp_stream, unit) sm" where
  "connect_control cfg =
     (let auth = (out_username cfg \<noteq> None \<or> out_password cfg \<noteq> None) in
     sm_bind (if auth then tcp_write_all [VERSION, 0x01, 0x02]
              else tcp_write_all [VERSION, 0x01, 0x00]) (\<lambda>_.
     sm_bind (tcp_read_exact 2) (\<lambda>resp.
     if resp ! 0 \<noteq> VERSION \<or> resp ! 1 = 0xff then
       sm_fail (Bail ''socks5 outbound rejected auth method'')
     else if resp ! 1 = 0x02 then
       (let username = as_bytes (unwrap_or_default (out_username cfg));
            password = as_bytes (unwrap_or_default (out_password cfg)) in
       sm_bind (sm_lift (ensure (length username \<le> 255 \<and> length password \<le> 255)
         ''socks5 credentials are too long'')) (\<lambda>_.
       sm_bind (tcp_write_all [0x01]) (\<lambda>_.
       sm_bind (tcp_write_all [of_nat (length username)]) (\<lambda>_.
       sm_bind (tcp_write_all username) (\<lambda>_.
       sm_bind (tcp_write_all [of_nat (length password)]) (\<lambda>_.
       sm_bind (tcp_write_all password) (\<lambda>_.
       sm_bind (tcp_read_exact 2) (\<lambda>resp.
       if resp \<noteq> [0x01, 0x00] then sm_fail (Bail ''socks5 outbound authentication failed'')
       else sm_return ()))))))))
     else sm_return ())))"

definition write_request :: "u8 \<Rightarrow> target_addr \<Rightarrow> (tcp_stream, unit) sm" where
  "write_request cmd target =
     sm_bind (tcp_write_all [VERSION, cmd, 0]) (\<lambda>_.
     sm_bind (sm_lift (encode_addr target)) (\<lambda>addr.
     tcp_write_all addr))"

definition read_response :: "(tcp_stream, u8 \<times> target_addr) sm" where
  "read_response =
     sm_bind tcp_read_u8 (\<lambda>ver.
     sm_bind tcp_read_u8 (\<lambda>status.
     sm_bind tcp_read_u8 (\<lambda>rsv.
     if ver \<noteq> VERSION \<or> rsv \<noteq> 0 then sm_fail (Bail ''invalid socks5 outbound response'')
     else
     sm_bind tcp_read_u8 (\<lambda>atyp.
     sm_bind
       (if atyp = ATYP_IPV4 then
          sm_bind (tcp_read_exact 4) (\<lambda>addr. sm_return ([atyp] @ addr))
        else if atyp = ATYP_DOMAIN then
          sm_bind tcp_read_u8 (\<lambda>len.
          sm_bind (tcp_read_exact (unat len)) (\<lambda>host.
          sm_return ([atyp] @ [len] @ host)))
        else if atyp = ATYP_IPV6 then
          sm_bind (tcp_read_exact 16) (\<lambda>addr. sm_return ([atyp] @ addr))
        else sm_fail (Bail ''unsupported socks5 response address type'')) (\<lambda>encoded.
     sm_bind tcp_read_u16 (\<lambda>port.
     sm_bind (sm_lift (decode_addr (encoded @ be16 port))) (\<lambda>(target, consumed).
     sm_return (status, target))))))))"

section \<open>Dialling\<close>

text \<open>
  \<open>connect\<close> opens the TCP connection to the configured server, \<open>resolve\<close> looks its address
  up; both may fail.
\<close>

definition socks5_dial ::
    "(server_addr \<Rightarrow> tcp_stream res) \<Rightarrow> outbound_config \<Rightarrow> session \<Rightarrow> tcp_stream res" where
  "socks5_dial connect cfg session =
     and_then (ensure (sess_command session = Connect) ''socks5 outbound only supports CONNECT'') (\<lambda>_.
     and_then (require_server cfg) (\<lambda>server.
     and_then (connect server) (\<lambda>stream.
     case
       sm_bind (connect_control cfg) (\<lambda>_.
       sm_bind (write_request CMD_CONNECT (sess_target session)) (\<lambda>_.
       sm_bind read_response (\<lambda>(status, bind).
       if status \<noteq> 0 then sm_fail (Bail ''socks5 outbound connect failed with status'')
       else sm_return ()))) stream
     of (Inl e, stream) \<Rightarrow> Inl e | (Inr _, stream) \<Rightarrow> Inr stream)))"

definition relay_addr :: "socket_addr \<Rightarrow> target_addr \<Rightarrow> socket_addr res" where
  "relay_addr server bind =
     (case bind of
        TIp addr \<Rightarrow>
          Inr (if is_unspecified (sock_ip addr) then sock_set_ip addr (sock_ip server) else addr)
      | TDomain _ _ \<Rightarrow> Inl (Bail ''socks5 udp relay returned a domain address''))"

record socks5_udp_session =
  control :: tcp_stream
  relay :: socket_addr

definition socks5_dial_udp ::
    "(server_addr \<Rightarrow> tcp_stream res) \<Rightarrow> (server_addr \<Rightarrow> socket_addr res) \<Rightarrow> outbound_config \<Rightarrow>
     session \<Rightarrow> socks5_udp_session res" where
  "socks5_dial_udp connect resolve cfg session =
     and_then (ensure (sess_command session = UdpAssociate)
       ''socks5 outbound udp only supports UDP associate'') (\<lambda>_.
     and_then (require_server cfg) (\<lambda>server.
     and_then (resolve server) (\<lambda>server_sock.
     and_then (connect server) (\<lambda>stream.
     let bind_target = TIp (sock_new (if is_ipv4 server_sock then V4 0 else V6 0) 0) in
     case
       sm_bind (connect_control cfg) (\<lambda>_.
       sm_bind (write_request CMD_UDP_ASSOCIATE bind_target) (\<lambda>_.
       sm_bind read_response (\<lambda>(status, bind).
       if status \<noteq> 0 then sm_fail (Bail ''socks5 outbound udp associate failed with status'')
       else sm_lift (relay_addr server_sock bind)))) stream
     of (Inl e, stream) \<Rightarrow> Inl e
      | (Inr addr, stream) \<Rightarrow> Inr \<lparr>control = stream, relay = addr\<rparr>))))"

definition socks5_udp_send_to ::
    "socks5_udp_session \<Rightarrow> target_addr \<Rightarrow> bytes \<Rightarrow> (socket_addr \<times> bytes) res" where
  "socks5_udp_send_to sess target payload =
     and_then (encode_udp_packet target payload) (\<lambda>packet. Inr (relay sess, packet))"

text \<open>The packets the socket delivers, in order; the loop skips those of other senders.\<close>

fun socks5_udp_recv_from ::
    "socks5_udp_session \<Rightarrow> (socket_addr \<times> bytes) res list \<Rightarrow> (target_addr \<times> bytes) res option" where
  "socks5_udp_recv_from sess [] = None"
| "socks5_udp_recv_from sess (received # later) =
     (case received of
        Inl e \<Rightarrow> Some (Inl e)
      | Inr (source, packet) \<Rightarrow>
          if source \<noteq> relay sess then socks5_udp_recv_from sess later
          else Some (decode_udp_packet packet))"

definition socks5_outbound_new :: "outbound_config \<Rightarrow> outbound_config res" where
  "socks5_outbound_new cfg = and_then (require_server cfg) (\<lambda>_. Inr cfg)"

section \<open>Client and server agree\<close>

definition creds_match :: "inbound_config \<Rightarrow> outbound_config \<Rightarrow> bool" where
  "creds_match icfg ocfg \<longleftrightarrow>
     (case in_users icfg of
        Some (u # us) \<Rightarrow>
          (\<exists>user \<in> set (u # us). out_username ocfg = Some (uc_username user) \<and>
             out_password ocfg = Some (uc_password user) \<and>
             length (uc_username user) \<le> 255 \<and> length (uc_password user) \<le> 255 \<and>
             valid_str (uc_username user) \<and> valid_str (uc_password user))
      | _ \<Rightarrow> out_username ocfg = None \<and> out_password ocfg = None)"

text \<open>The bytes the client and the server write while the control connection is set up.\<close>

definition client_hello_bytes :: "outbound_config \<Rightarrow> bytes" where
  "client_hello_bytes ocfg =
     (case out_username ocfg of
        None \<Rightarrow> [5, 1, 0]
      | Some u \<Rightarrow>
          [5, 1, 2] @ [1] @ [of_nat (length u)] @ as_bytes u
          @ [of_nat (length (unwrap_or_default (out_password ocfg)))]
          @ as_bytes (unwrap_or_default (out_password ocfg)))"

definition server_hello_bytes :: "outbound_config \<Rightarrow> bytes" where
  "server_hello_bytes ocfg = (case out_username ocfg of None \<Rightarrow> [5, 0] | Some _ \<Rightarrow> [5, 2, 1, 0])"

lemma server_handshake_ok:
  assumes "creds_match icfg ocfg"
  shows "handshake icfg \<lparr>rd = client_hello_bytes ocfg @ rest, wr = w, fault = None\<rparr>
    = (Inr (), \<lparr>rd = rest, wr = w @ server_hello_bytes ocfg, fault = None\<rparr>)"
proof (cases "needs_auth icfg")
  case True
  then obtain u us where us: "in_users icfg = Some (u # us)"
    by (auto simp: needs_auth_def neq_Nil_conv split: option.splits)
  with assms obtain user where user: "user \<in> set (u # us)"
      "out_username ocfg = Some (uc_username user)" "out_password ocfg = Some (uc_password user)"
      "length (uc_username user) \<le> 255" "length (uc_password user) \<le> 255"
      "valid_str (uc_username user)" "valid_str (uc_password user)"
    by (auto simp: creds_match_def)
  then have found: "list_ex (\<lambda>x. uc_username x = uc_username user \<and> uc_password x = uc_password user) (u # us)"
    by (auto simp: list_ex_iff)
  show ?thesis
    using True us user found
    by (simp add: handshake_def authenticate_def client_hello_bytes_def server_hello_bytes_def
        unwrap_or_default_def sm_bind_def tcp_read_exact_def sm_lift_def sm_return_def
        unat_of_nat_len Let_def)
next
  case False
  with assms show ?thesis
    by (auto simp: handshake_def needs_auth_def creds_match_def client_hello_bytes_def
        server_hello_bytes_def sm_bind_def tcp_read_exact_def sm_return_def Let_def
        split: option.splits list.splits)
qed

lemma client_control_ok:
  assumes "creds_match icfg ocfg"
  shows "connect_control ocfg \<lparr>rd = server_hello_bytes ocfg @ rest, wr = w, fault = None\<rparr>
    = (Inr (), \<lparr>rd = rest, wr = w @ client_hello_bytes ocfg, fault = None\<rparr>)"
  using assms
  by (auto simp: connect_control_def creds_match_def client_hello_bytes_def server_hello_bytes_def
      unwrap_or_default_def sm_bind_def tcp_read_exact_def sm_return_def sm_lift_def VERSION_def
      Let_def split: option.splits list.splits)

lemma write_request_ok:
  assumes "encode_addr t = Inr addr"
  shows "write_request cmd t \<lparr>rd = r, wr = w, fault = None\<rparr> =
    (Inr (), \<lparr>rd = r, wr = w @ [5, cmd, 0] @ addr, fault = None\<rparr>)"
  using assms by (simp add: write_request_def sm_lift_def VERSION_def)

lemma write_reply_ok:
  assumes "encode_addr t = Inr addr"
  shows "write_reply status t \<lparr>rd = r, wr = w, fault = None\<rparr> =
    (Inr (), \<lparr>rd = r, wr = w @ [5, status, 0] @ addr, fault = None\<rparr>)"
  using assms by (simp add: write_reply_def sm_lift_def VERSION_def)

lemma read_request_ok:
  assumes "encode_addr t = Inr addr" "valid_target t"
  shows "read_request \<lparr>rd = [5, cmd, 0] @ addr @ rest, wr = w, fault = None\<rparr> =
    (if cmd = CMD_CONNECT then Inr (SocksConnect (wire_form t))
     else if cmd = CMD_UDP_ASSOCIATE then Inr (SocksUdpAssociate (wire_form t))
     else Inl (Bail ''unsupported socks5 command''), \<lparr>rd = rest, wr = w, fault = None\<rparr>)"
proof -
  let ?s = "\<lparr>rd = [5, cmd, 0] @ addr @ rest, wr = w, fault = None\<rparr>"
  have addr: "addr = format_addr ATYP_IPV4 ATYP_DOMAIN ATYP_IPV6 t" "fits t"
    using assms(1) by (simp_all add: socks5_addr.enc_spec split: if_splits)
  then have "rd ?s = [5, cmd, 0] @ format_addr ATYP_IPV4 ATYP_DOMAIN ATYP_IPV6 t @ rest" by simp
  from read_request_target [OF this addr(2) assms(2), where k =
      "\<lambda>target. if cmd = CMD_CONNECT then sm_return (SocksConnect target)
         else if cmd = CMD_UDP_ASSOCIATE then sm_return (SocksUdpAssociate target)
         else sm_fail (Bail ''unsupported socks5 command'')"]
  show ?thesis
    by (simp add: read_request_def addr(1) sm_return_def sm_fail_def)
qed

lemma read_response_ok:
  assumes "encode_addr t = Inr addr" "valid_target t"
  shows "read_response \<lparr>rd = [5, status, 0] @ addr @ rest, wr = w, fault = None\<rparr> =
    (Inr (status, wire_form t), \<lparr>rd = rest, wr = w, fault = None\<rparr>)"
proof -
  have dec: "decode_addr addr = Inr (wire_form t, length addr)"
    using socks5_addr.dec_enc [OF assms, of "[]"] by simp
  show ?thesis
    using assms(1) dec
    by (cases t rule: encode_addr.cases)
      (auto simp: read_response_def VERSION_def ATYP_IPV4_def ATYP_DOMAIN_def ATYP_IPV6_def
        and_then_Inr_iff unat_of_nat_len sm_return_def sm_lift_def)
qed

lemma encode_sock [simp]: "\<exists>addr. encode_addr (TIp a) = Inr addr"
  by (cases a) simp_all

definition demo_socks_outbound :: outbound_config where
  "demo_socks_outbound =
     \<lparr>out_tag = ''socks-out'', out_protocol = Socks5,
      out_server = Some \<lparr>sa_host = HostDomain ''proxy'', sa_port = 1080\<rparr>, out_server_name = None,
      insecure = False, ca_certificate = None, out_username = Some ''u'', out_password = Some ''p'',
      out_uuid = None, max_streams = None, max_connections = None, connection_idle_timeout = None\<rparr>"

lemma demo_creds_match: "creds_match demo_socks_inbound demo_socks_outbound"
  by (simp add: creds_match_def demo_socks_inbound_def demo_socks_outbound_def valid_str_def eval_simps)

text \<open>C9: The client and the server of this repository set up a CONNECT tunnel together. With
  matching credentials there are bytes \<open>c\<close> and \<open>v\<close> such that a client that reads \<open>v\<close> dials
  successfully and writes \<open>c\<close>, while the server that reads \<open>c\<close> writes \<open>v\<close> and relays a
  session for the client's target; all later bytes, in both directions, are left for the relay.\<close>

theorem socks5_tunnel_setup:
  assumes "creds_match icfg ocfg" and "out_server ocfg = Some srv"
    and "encode_addr t = Inr addr" and "valid_target t"
    and "dial \<lparr>sess_inbound = in_tag icfg, sess_command = Connect, sess_target = wire_form t\<rparr> = Inr out"
  shows "\<exists>c v. \<forall>down up.
    socks5_dial (\<lambda>_. Inr \<lparr>rd = v @ down, wr = [], fault = None\<rparr>) ocfg
        \<lparr>sess_inbound = tag, sess_command = Connect, sess_target = t\<rparr> =
      Inr \<lparr>rd = down, wr = c, fault = None\<rparr> \<and>
    handle icfg local_addr bind_udp dial dial_udp \<lparr>rd = c @ up, wr = [], fault = None\<rparr> =
      (Inr (TcpRelay \<lparr>sess_inbound = in_tag icfg, sess_command = Connect,
              sess_target = wire_form t\<rparr> out),
       \<lparr>rd = up, wr = v, fault = None\<rparr>)"
proof -
  obtain lo where lo: "encode_addr (TIp (localhost 0)) = Inr lo" using encode_sock by blast
  have val: "valid_target (TIp (localhost 0))" by simp
  let ?c = "client_hello_bytes ocfg @ [5, 1, 0] @ addr"
  let ?v = "server_hello_bytes ocfg @ [5, 0, 0] @ lo"
  have client: "socks5_dial (\<lambda>_. Inr \<lparr>rd = ?v @ down, wr = [], fault = None\<rparr>) ocfg
      \<lparr>sess_inbound = tag, sess_command = Connect, sess_target = t\<rparr> =
      Inr \<lparr>rd = down, wr = ?c, fault = None\<rparr>" for down
    using client_control_ok [OF assms(1), of "[5, 0, 0] @ lo @ down" "[]"]
      write_request_ok [OF assms(3)] read_response_ok [OF lo val, of 0 down]
    by (simp add: socks5_dial_def require_server_def assms(2) CMD_CONNECT_def sm_return_def)
  have server: "handle icfg local_addr bind_udp dial dial_udp \<lparr>rd = ?c @ up, wr = [], fault = None\<rparr> =
      (Inr (TcpRelay \<lparr>sess_inbound = in_tag icfg, sess_command = Connect,
              sess_target = wire_form t\<rparr> out),
       \<lparr>rd = up, wr = ?v, fault = None\<rparr>)" for up
    using server_handshake_ok [OF assms(1), of "[5, 1, 0] @ addr @ up" "[]"]
      read_request_ok [OF assms(3,4), of 1 up] write_reply_ok [OF lo, of 0 up]
    by (simp add: handle_def sm_lift_def assms(5) sm_return_def Let_def CMD_CONNECT_def)
  from client server show ?thesis by blast
qed

theorem socks5_tunnel_setup_witness:
  "\<exists>c v. \<forall>down up.
    socks5_dial (\<lambda>_. Inr \<lparr>rd = v @ down, wr = [], fault = None\<rparr>) demo_socks_outbound
        \<lparr>sess_inbound = ''in'', sess_command = Connect, sess_target = TDomain ''a.b'' 443\<rparr> =
      Inr \<lparr>rd = down, wr = c, fault = None\<rparr> \<and>
    handle demo_socks_inbound (Inr (localhost 0)) Inr (\<lambda>s. Inr (sess_target s)) Inr
        \<lparr>rd = c @ up, wr = [], fault = None\<rparr> =
      (Inr (TcpRelay \<lparr>sess_inbound = in_tag demo_socks_inbound, sess_command = Connect,
              sess_target = TDomain ''a.b'' 443\<rparr> (TDomain ''a.b'' 443)),
       \<lparr>rd = up, wr = v, fault = None\<rparr>)"
proof -
  let ?t = "TDomain ''a.b'' 443"
  have "encode_addr ?t = Inr ([3, 3, 97, 46, 98] @ be16 443)" by (simp add: ATYP_DOMAIN_def eval_simps)
  moreover have "valid_target ?t" by (simp add: valid_str_def eval_simps)
  moreover have "out_server demo_socks_outbound = Some \<lparr>sa_host = HostDomain ''proxy'', sa_port = 1080\<rparr>"
    by (simp add: demo_socks_outbound_def)
  ultimately show ?thesis
    using socks5_tunnel_setup [OF demo_creds_match, where t = ?t and tag = "''in''"
        and local_addr = "Inr (localhost 0)" and bind_udp = Inr
        and dial = "\<lambda>s. Inr (sess_target s)" and dial_udp = Inr and out = ?t]
    by simp
qed

text \<open>The client's UDP session hands up a datagram only from its relay: packets of other
  senders are skipped, the first packet of the relay is decoded, and a datagram built by the
  encoder comes back as target and payload.\<close>

theorem socks5_udp_recv_only_relay:
  assumes "\<forall>p \<in> set others. \<exists>src d. p = Inr (src, d) \<and> src \<noteq> relay sess"
    and "encode_udp_packet t payload = Inr packet" and "valid_target t"
  shows "socks5_udp_recv_from sess (others @ Inr (relay sess, packet) # later) =
    Some (Inr (wire_form t, payload))"
proof -
  have dec: "decode_udp_packet packet = Inr (wire_form t, payload)"
  proof -
    from assms(2) obtain a where a: "encode_addr t = Inr a" "packet = [0, 0, 0] @ a @ payload"
      by (auto simp: encode_udp_packet_def and_then_Inr_iff)
    from udp_packet_decodes [OF a(1) assms(3)] a(2) show ?thesis by simp
  qed
  from assms(1) show ?thesis by (induction others) (auto simp: dec)
qed



end
