(* ===== verification/Direct_Outbound.thy ===== *)
theory Direct_Outbound
  imports Session
begin

text \<open>
  The direct outbound of \<open>protocol/direct/outbound.rs\<close>, and the contract of the trait \<open>Outbound\<close>
  of \<open>router.rs\<close> that every outbound keeps: a stream is dialled only for CONNECT and a datagram
  channel only for UDP ASSOCIATE. Connecting and binding sockets are parameters.
\<close>

section \<open>The contract of an outbound\<close>

locale dialer =
  fixes dial :: "session \<Rightarrow> 's res"
    and dial_udp :: "session \<Rightarrow> 'd res"
  assumes dial_connect: "dial session = Inr stream \<Longrightarrow> sess_command session = Connect"
    and dial_udp_associate: "dial_udp session = Inr channel \<Longrightarrow> sess_command session = UdpAssociate"
begin

lemma dial_exclusive: "is_ok (dial session) \<Longrightarrow> \<not> is_ok (dial_udp session)"
  using dial_connect [of session] dial_udp_associate [of session]
  by (auto simp: is_ok_def split: sum.splits)

lemma dial_udp_refuses_connect: "sess_command session = Connect \<Longrightarrow> \<exists>e. dial_udp session = Inl e"
  using dial_udp_associate [of session] by (cases "dial_udp session") auto

lemma dial_refuses_associate: "sess_command session = UdpAssociate \<Longrightarrow> \<exists>e. dial session = Inl e"
  using dial_connect [of session] by (cases "dial session") auto

end

section \<open>Dialling\<close>

definition UDP_BUFFER_SIZE :: usize where
  "UDP_BUFFER_SIZE = 64 * 1024"

definition direct_dial ::
    "(socket_addr \<Rightarrow> 's res) \<Rightarrow> (string \<Rightarrow> u16 \<Rightarrow> 's res) \<Rightarrow> session \<Rightarrow> 's res" where
  "direct_dial connect_addr connect_host session =
     and_then (ensure (sess_command session = Connect) ''direct outbound only supports CONNECT'') (\<lambda>_.
     case sess_target session of
       TIp addr \<Rightarrow> connect_addr addr
     | TDomain host port \<Rightarrow> connect_host host port)"

record 'u direct_udp_session =
  direct_ipv4 :: 'u
  direct_ipv6 :: 'u

definition direct_dial_udp ::
    "(socket_addr \<Rightarrow> 'u res) \<Rightarrow> session \<Rightarrow> 'u direct_udp_session res" where
  "direct_dial_udp bind_udp session =
     and_then (ensure (sess_command session = UdpAssociate)
       ''direct udp outbound only supports UDP associate'') (\<lambda>_.
     and_then (bind_udp (SockV4 0 0)) (\<lambda>v4.
     and_then (bind_udp (SockV6 0 0 0 0)) (\<lambda>v6.
     Inr \<lparr>direct_ipv4 = v4, direct_ipv6 = v6\<rparr>)))"

text \<open>
  \<open>send_addr\<close> and \<open>send_host\<close> are \<open>send_to\<close> of a socket with an address and with a host to
  resolve. A receive names the socket that was ready first.
\<close>

definition direct_send_to ::
    "('u \<Rightarrow> bytes \<Rightarrow> socket_addr \<Rightarrow> unit res) \<Rightarrow> ('u \<Rightarrow> bytes \<Rightarrow> string \<Rightarrow> u16 \<Rightarrow> unit res) \<Rightarrow>
     'u direct_udp_session \<Rightarrow> target_addr \<Rightarrow> bytes \<Rightarrow> unit res" where
  "direct_send_to send_addr send_host sess target payload =
     (case target of
        TIp addr \<Rightarrow>
          (case sock_ip addr of
             V6 _ \<Rightarrow> send_addr (direct_ipv6 sess) payload addr
           | V4 _ \<Rightarrow> send_addr (direct_ipv4 sess) payload addr)
      | TDomain host port \<Rightarrow> send_host (direct_ipv4 sess) payload host port)"

datatype direct_ready = Ipv4Ready "(bytes \<times> socket_addr) res" | Ipv6Ready "(bytes \<times> socket_addr) res"

fun direct_recv_from :: "direct_ready \<Rightarrow> (target_addr \<times> bytes) res" where
  "direct_recv_from (Ipv4Ready received) =
     and_then received (\<lambda>(data, source). Inr (TIp source, take UDP_BUFFER_SIZE data))"
| "direct_recv_from (Ipv6Ready received) =
     and_then received (\<lambda>(data, source). Inr (TIp source, take UDP_BUFFER_SIZE data))"

interpretation direct: dialer "direct_dial connect_addr connect_host" "direct_dial_udp bind_udp"
  for connect_addr connect_host bind_udp
  by unfold_locales (auto simp: direct_dial_def direct_dial_udp_def and_then_Inr_iff)

end
