(* ===== verification/Collections.thy ===== *)
theory Collections
  imports Prelude "HOL-Library.Finite_Map"
begin

text \<open>
  What the components use of the collections of the Rust standard library beyond lists: maps with
  \<open>retain\<close>, \<open>chunks\<close> of a slice, checked arithmetic on \<open>usize\<close>, and the predicate on parsers
  that makes them usable on a stream whose end has not arrived yet. A \<open>BTreeMap\<close> or \<open>HashMap\<close>
  is an \<open>fmap\<close>.
\<close>

section \<open>Arithmetic on \<open>usize\<close>\<close>

definition USIZE_MAX :: nat where
  "USIZE_MAX = 2 ^ 64 - 1"

definition checked_add :: "usize \<Rightarrow> usize \<Rightarrow> usize option" where
  "checked_add a b = (if a + b \<le> USIZE_MAX then Some (a + b) else None)"

definition checked_sub :: "usize \<Rightarrow> usize \<Rightarrow> usize option" where
  "checked_sub a b = (if b \<le> a then Some (a - b) else None)"

definition saturating_add :: "usize \<Rightarrow> usize \<Rightarrow> usize" where
  "saturating_add a b = min (a + b) USIZE_MAX"

definition opt_filter :: "('a \<Rightarrow> bool) \<Rightarrow> 'a option \<Rightarrow> 'a option" where
  "opt_filter P x = (case x of None \<Rightarrow> None | Some v \<Rightarrow> if P v then Some v else None)"

definition div_ceil :: "nat \<Rightarrow> nat \<Rightarrow> nat" where
  "div_ceil a b = (a + b - 1) div b"

lemma checked_sub_Some_iff: "checked_sub a b = Some c \<longleftrightarrow> b \<le> a \<and> c = a - b"
  by (auto simp: checked_sub_def)

lemma opt_filter_Some_iff: "opt_filter P x = Some v \<longleftrightarrow> x = Some v \<and> P v"
  by (auto simp: opt_filter_def split: option.splits)

section \<open>Chunks of a slice\<close>

function chunks :: "nat \<Rightarrow> 'a list \<Rightarrow> 'a list list" where
  "chunks n xs = (if xs = [] \<or> n = 0 then [] else take n xs # chunks n (drop n xs))"
  by pat_completeness auto

termination chunks
  by (relation "measure (length \<circ> snd)") auto

declare chunks.simps [simp del]

lemma chunks_Nil [simp]: "chunks n [] = []"
  by (simp add: chunks.simps)

lemma concat_chunks: "0 < n \<Longrightarrow> concat (chunks n xs) = xs"
  by (induction n xs rule: chunks.induct) (subst chunks.simps, auto)

lemma div_ceil_step:
  assumes "0 < n" "0 < m"
  shows "div_ceil m n = Suc (div_ceil (m - n) n)"
proof -
  have shift: "(k + n) div n = Suc (k div n)" for k using assms(1) by simp
  show ?thesis
  proof (cases "n \<le> m")
    case True
    then have "m + n - 1 = (m - n + n - 1) + n" using assms by linarith
    then show ?thesis unfolding div_ceil_def by (metis shift)
  next
    case False
    then have "m + n - 1 = (m - 1) + n" "(m - 1) div n = 0" "(m - n + n - 1) div n = 0"
      using assms by simp_all
    then show ?thesis unfolding div_ceil_def by (metis shift)
  qed
qed

lemma length_chunks: "0 < n \<Longrightarrow> length (chunks n xs) = div_ceil (length xs) n"
proof (induction n xs rule: chunks.induct)
  case (1 n xs)
  show ?case
  proof (cases "xs = []")
    case True
    with \<open>0 < n\<close> show ?thesis by (simp add: div_ceil_def)
  next
    case False
    then have "length (chunks n (drop n xs)) = div_ceil (length xs - n) n"
      using "1.IH" \<open>0 < n\<close> by simp
    moreover have "length (chunks n xs) = Suc (length (chunks n (drop n xs)))"
      using False \<open>0 < n\<close> by (subst chunks.simps) simp
    ultimately show ?thesis using div_ceil_step [of n "length xs"] False \<open>0 < n\<close> by simp
  qed
qed

lemma chunks_member: "c \<in> set (chunks n xs) \<Longrightarrow> c \<noteq> [] \<and> length c \<le> n"
  by (induction n xs rule: chunks.induct) (subst (asm) (2) chunks.simps, auto split: if_splits)

section \<open>Maps\<close>

definition fm_retain :: "('v \<Rightarrow> bool) \<Rightarrow> ('k, 'v) fmap \<Rightarrow> ('k, 'v) fmap" where
  "fm_retain P m = fmfilter (\<lambda>k. case fmlookup m k of None \<Rightarrow> False | Some v \<Rightarrow> P v) m"

definition fm_len :: "('k, 'v) fmap \<Rightarrow> nat" where
  "fm_len m = fcard (fmdom m)"

lemma fmlookup_retain [simp]: "fmlookup (fm_retain P m) k = opt_filter P (fmlookup m k)"
  by (simp add: fm_retain_def opt_filter_def split: option.split)

lemma fm_len_retain: "fm_len (fm_retain P m) \<le> fm_len m"
  by (auto simp: fm_len_def intro!: fcard_mono fmdomI elim!: fmdomE simp: opt_filter_Some_iff)

lemma fm_len_empty [simp]: "fm_len fmempty = 0"
  by (simp add: fm_len_def)

lemma fm_len_upd: "fm_len (fmupd k v m) = (if fmlookup m k = None then Suc (fm_len m) else fm_len m)"
  by (auto simp: fm_len_def fmdom_notD fcard_finsert_disjoint finsert_absorb fmdomI
      dest: fmdom_notI)

lemma fm_len_drop: "fm_len (fmdrop k m) = (if fmlookup m k = None then fm_len m else fm_len m - 1)"
  by (auto simp: fm_len_def fcard.rep_eq card_Diff_singleton_if dest: fmdomI fmdom_notI)

lemma fm_len_pos: "fmlookup m k \<noteq> None \<Longrightarrow> 0 < fm_len m"
  by (auto simp: fm_len_def fcard.rep_eq card_gt_0_iff dest: fmdomI)

lemma fm_len_remove: "fmlookup m k = Some v \<Longrightarrow> Suc (fm_len (fmdrop k m)) = fm_len m"
  using fm_len_pos [of m k] by (simp add: fm_len_drop)

text \<open>The sum of a measure over the values of a map.\<close>

definition fm_sum :: "('v \<Rightarrow> nat) \<Rightarrow> ('k, 'v) fmap \<Rightarrow> nat" where
  "fm_sum f m = (\<Sum>k\<in>fset (fmdom m). f (the (fmlookup m k)))"

lemma fm_sum_empty [simp]: "fm_sum f fmempty = 0"
  by (simp add: fm_sum_def)

lemma fm_sum_remove:
  "fm_sum f m = fm_sum f (fmdrop k m) + (case fmlookup m k of None \<Rightarrow> 0 | Some v \<Rightarrow> f v)"
proof (cases "fmlookup m k")
  case None
  then have "fmdrop k m = m" by (intro fmap_ext) auto
  with None show ?thesis by simp
next
  case (Some v)
  then have k: "k \<in> fset (fmdom m)" by (simp add: fmdomI)
  have "fm_sum f (fmdrop k m) = (\<Sum>j\<in>fset (fmdom m) - {k}. f (the (fmlookup m j)))"
    unfolding fm_sum_def by (rule sum.cong) auto
  with Some sum.remove [OF _ k, of "\<lambda>j. f (the (fmlookup m j))"] show ?thesis
    by (simp add: fm_sum_def)
qed

lemma fm_sum_upd: "fm_sum f (fmupd k v m) = fm_sum f (fmdrop k m) + f v"
proof -
  have "fmdrop k (fmupd k v m) = fmdrop k m" by (intro fmap_ext) simp
  with fm_sum_remove [of f "fmupd k v m" k] show ?thesis by simp
qed

text \<open>
  Idle eviction. Several components keep a table whose entries carry the time of their last use
  and drop those that have been idle for a timeout.
\<close>

locale idle_table =
  fixes last_used :: "'v \<Rightarrow> instant"
    and evict :: "instant \<Rightarrow> duration \<Rightarrow> ('k, 'v) fmap \<Rightarrow> ('k, 'v) fmap"
  assumes evict_spec:
    "fmlookup (evict now timeout m) k =
       opt_filter (\<lambda>v. saturating_duration_since now (last_used v) < timeout) (fmlookup m k)"
begin

lemma evict_Some_iff:
  "fmlookup (evict now timeout m) k = Some v \<longleftrightarrow>
     fmlookup m k = Some v \<and> now - last_used v < timeout"
  by (auto simp: evict_spec opt_filter_Some_iff saturating_duration_since_def)

lemma evict_fresh:
  "fmlookup m k = Some v \<Longrightarrow> now - last_used v < timeout \<Longrightarrow> fmlookup (evict now timeout m) k = Some v"
  by (simp add: evict_Some_iff)

lemma evict_idle_gone:
  "fmlookup m k = Some v \<Longrightarrow> last_used v + timeout \<le> now \<Longrightarrow> fmlookup (evict now timeout m) k = None"
  by (auto simp: evict_spec opt_filter_def saturating_duration_since_def)

lemma evict_absorb:
  assumes "now \<le> later"
  shows "evict later timeout (evict now timeout m) = evict later timeout m"
  using assms
  by (intro fmap_ext) (auto simp: evict_spec opt_filter_def saturating_duration_since_def
      split: option.splits)

end

section \<open>Parsers of a growing prefix\<close>

text \<open>
  A parser is incremental if what it consumes determines its result, and if it reports
  \<open>UnexpectedEof\<close> on every strict prefix of what it consumes.
\<close>

definition incremental :: "'a parser \<Rightarrow> bool" where
  "incremental p \<longleftrightarrow> (\<forall>bs x rest. p bs = Inr (x, rest) \<longrightarrow>
     (\<exists>used. bs = used @ rest \<and> (\<forall>ys. p (used @ ys) = Inr (x, ys)) \<and>
        (\<forall>k < length used. p (take k used) = Inl UnexpectedEof)))"

lemma incrementalD:
  assumes "incremental p" "p bs = Inr (x, rest)"
  obtains used where "bs = used @ rest" "\<And>ys. p (used @ ys) = Inr (x, ys)"
    "\<And>k. k < length used \<Longrightarrow> p (take k used) = Inl UnexpectedEof"
  using assms unfolding incremental_def by blast

lemma incremental_return: "incremental (p_return x)"
  by (auto simp: incremental_def p_return_def)

lemma incremental_fail: "incremental (p_fail e)"
  by (simp add: incremental_def p_fail_def)

lemma incremental_lift: "incremental (p_lift r)"
  by (cases r) (auto simp: incremental_def p_lift_def)

lemma incremental_exact: "incremental (p_exact n)"
  unfolding incremental_def
proof (intro allI impI)
  fix bs x rest
  assume "p_exact n bs = Inr (x, rest)"
  then have "bs = x @ rest" "length x = n" by (simp_all add: p_exact_Inr_iff)
  then show "\<exists>used. bs = used @ rest \<and> (\<forall>ys. p_exact n (used @ ys) = Inr (x, ys)) \<and>
      (\<forall>k < length used. p_exact n (take k used) = Inl UnexpectedEof)"
    by (intro exI [of _ x]) (simp add: p_exact_def)
qed

lemma incremental_bind:
  assumes p: "incremental p" and k: "\<And>x. incremental (k x)"
  shows "incremental (p_bind p k)"
  unfolding incremental_def
proof (intro allI impI)
  fix bs y rest
  assume "p_bind p k bs = Inr (y, rest)"
  then obtain x mid where x: "p bs = Inr (x, mid)" and y: "k x mid = Inr (y, rest)"
    by (auto simp: p_bind_def and_then_Inr_iff)
  obtain u1 where u1: "bs = u1 @ mid" "\<And>ys. p (u1 @ ys) = Inr (x, ys)"
      "\<And>i. i < length u1 \<Longrightarrow> p (take i u1) = Inl UnexpectedEof"
    using incrementalD [OF p x] by blast
  obtain u2 where u2: "mid = u2 @ rest" "\<And>ys. k x (u2 @ ys) = Inr (y, ys)"
      "\<And>i. i < length u2 \<Longrightarrow> k x (take i u2) = Inl UnexpectedEof"
    using incrementalD [OF k y] by blast
  have "p_bind p k ((u1 @ u2) @ ys) = Inr (y, ys)" for ys
    by (simp add: p_bind_def u1(2) u2(2))
  moreover have "p_bind p k (take i (u1 @ u2)) = Inl UnexpectedEof" if "i < length (u1 @ u2)" for i
    using that u1(2) [of "take (i - length u1) u2"] u1(3) [of i] u2(3) [of "i - length u1"]
    by (cases "i < length u1") (simp_all add: p_bind_def)
  ultimately show "\<exists>used. bs = used @ rest \<and> (\<forall>ys. p_bind p k (used @ ys) = Inr (y, ys)) \<and>
      (\<forall>i < length used. p_bind p k (take i used) = Inl UnexpectedEof)"
    using u1(1) u2(1) by (intro exI [of _ "u1 @ u2"]) simp
qed

lemma incremental_if: "incremental p \<Longrightarrow> incremental q \<Longrightarrow> incremental (if b then p else q)"
  by simp

lemma incremental_u8: "incremental p_u8" and incremental_u16: "incremental p_u16"
  unfolding p_u8_def p_u16_def
  by (intro incremental_bind incremental_exact incremental_return)+

lemmas incremental_intros = incremental_return incremental_fail incremental_lift incremental_exact
  incremental_bind incremental_if incremental_u8 incremental_u16

end
