(* ===== verification/Router.thy ===== *)
theory Router
  imports Socks5_Outbound Direct_Outbound Collections
begin

text \<open>
  The router of \<open>router.rs\<close>: the table of outbounds built from the configuration, the choice of an
  outbound for a session and the dispatch to it; and the dispatch to inbounds of \<open>protocol.rs\<close>.
  The constructors of the AnyTLS and TUIC outbounds (see \<open>Outbounds\<close>) and what it means to dial an
  outbound are parameters.
\<close>

section \<open>Building outbounds\<close>

datatype ('a, 't) outbound =
    DirectOutbound
  | Socks5Outbound outbound_config
  | AnytlsOutbound 'a
  | TuicOutbound 't

definition build_outbound ::
    "(outbound_config \<Rightarrow> 'a res) \<Rightarrow> (outbound_config \<Rightarrow> 't res) \<Rightarrow> outbound_config \<Rightarrow>
     ('a, 't) outbound res" where
  "build_outbound anytls_new tuic_new cfg =
     and_then
       (case out_protocol cfg of
          Direct \<Rightarrow> Inr DirectOutbound
        | Socks5 \<Rightarrow> and_then (socks5_outbound_new cfg) (\<lambda>out. Inr (Socks5Outbound out))
        | Anytls \<Rightarrow> and_then (anytls_new cfg) (\<lambda>out. Inr (AnytlsOutbound out))
        | Tuic \<Rightarrow> and_then (tuic_new cfg) (\<lambda>out. Inr (TuicOutbound out))) (\<lambda>outbound.
     if out_protocol cfg \<in> set [Socks5, Anytls, Tuic] \<and> out_server cfg = None
     then Inl (Bail ''outbound requires server'')
     else Inr outbound)"

section \<open>The router\<close>

record 'o router =
  router_cfg :: config
  router_outbounds :: "(string, 'o) fmap"

fun insert_outbounds ::
    "(outbound_config \<Rightarrow> 'o res) \<Rightarrow> (string, 'o) fmap \<Rightarrow> outbound_config list \<Rightarrow> (string, 'o) fmap res" where
  "insert_outbounds build table [] = Inr table"
| "insert_outbounds build table (outbound # os) =
     and_then (build outbound) (\<lambda>out. insert_outbounds build (fmupd (out_tag outbound) out table) os)"

definition router_new :: "(outbound_config \<Rightarrow> 'o res) \<Rightarrow> config \<Rightarrow> 'o router res" where
  "router_new build cfg =
     and_then (insert_outbounds build fmempty (outbounds cfg)) (\<lambda>table.
     Inr \<lparr>router_cfg = cfg, router_outbounds = table\<rparr>)"

fun first_rule :: "route_rule list \<Rightarrow> string \<Rightarrow> string option" where
  "first_rule [] inbound = None"
| "first_rule (rule # rs) inbound =
     (if rule_inbound rule = Some inbound then Some (rule_outbound rule) else first_rule rs inbound)"

definition pick_outbound :: "'o router \<Rightarrow> session \<Rightarrow> string res" where
  "pick_outbound r session =
     (case first_rule (rules (routing (router_cfg r))) (sess_inbound session) of
        Some tag \<Rightarrow> Inr tag
      | None \<Rightarrow>
          (case routing_default (routing (router_cfg r)) of
             Some tag \<Rightarrow> Inr tag
           | None \<Rightarrow>
               (case outbounds (router_cfg r) of
                  [] \<Rightarrow> Inl (Bail ''no outbound available'')
                | out # _ \<Rightarrow> Inr (out_tag out))))"

text \<open>\<open>dial\<close> and \<open>dial_udp\<close> of the router differ only in the operation of the outbound.\<close>

definition router_dial :: "('o \<Rightarrow> session \<Rightarrow> 's res) \<Rightarrow> 'o router \<Rightarrow> session \<Rightarrow> 's res" where
  "router_dial dial r session =
     and_then (pick_outbound r session) (\<lambda>tag.
     and_then (ok_or (fmlookup (router_outbounds r) tag) (Bail ''unknown outbound'')) (\<lambda>outbound.
     dial outbound session))"

definition router_dial_udp :: "('o \<Rightarrow> session \<Rightarrow> 'd res) \<Rightarrow> 'o router \<Rightarrow> session \<Rightarrow> 'd res" where
  "router_dial_udp dial_udp r session =
     and_then (pick_outbound r session) (\<lambda>tag.
     and_then (ok_or (fmlookup (router_outbounds r) tag) (Bail ''unknown outbound'')) (\<lambda>outbound.
     dial_udp outbound session))"

definition run_inbound ::
    "(inbound_config \<Rightarrow> unit res) \<Rightarrow> (inbound_config \<Rightarrow> unit res) \<Rightarrow> (inbound_config \<Rightarrow> unit res) \<Rightarrow>
     inbound_config \<Rightarrow> unit res" where
  "run_inbound socks5_run anytls_run tuic_run cfg =
     (case in_protocol cfg of
        Socks5 \<Rightarrow> socks5_run cfg
      | Anytls \<Rightarrow> anytls_run cfg
      | Tuic \<Rightarrow> tuic_run cfg
      | Direct \<Rightarrow> Inl (Bail ''direct is only valid as an outbound''))"

interpretation socks5: dialer "socks5_dial connect cfg" "socks5_dial_udp connect resolve cfg"
  for connect resolve cfg
  by unfold_locales (auto simp: socks5_dial_def socks5_dial_udp_def and_then_Inr_iff)

section \<open>Routing as a search in the configuration\<close>

text \<open>
  The specification of routing, on the configuration alone: the first rule for the inbound decides,
  then the default, then the first outbound; and the tag means the last outbound that has it.
\<close>

definition route :: "config \<Rightarrow> string \<Rightarrow> string option" where
  "route cfg inbound =
     (case find (\<lambda>rule. rule_inbound rule = Some inbound) (rules (routing cfg)) of
        Some rule \<Rightarrow> Some (rule_outbound rule)
      | None \<Rightarrow>
          (case routing_default (routing cfg) of
             Some tag \<Rightarrow> Some tag
           | None \<Rightarrow> map_option out_tag (find (\<lambda>_. True) (outbounds cfg))))"

definition outbound_named :: "config \<Rightarrow> string \<Rightarrow> outbound_config option" where
  "outbound_named cfg tag = find (\<lambda>out. out_tag out = tag) (rev (outbounds cfg))"

lemma first_rule_find:
  "first_rule rs inbound = map_option rule_outbound (find (\<lambda>rule. rule_inbound rule = Some inbound) rs)"
  by (induction rs) simp_all

lemma pick_outbound_route:
  "pick_outbound r session =
     ok_or (route (router_cfg r) (sess_inbound session)) (Bail ''no outbound available'')"
  by (simp add: pick_outbound_def route_def first_rule_find ok_or_def split: option.splits list.splits)

lemma find_snoc: "find P (xs @ [x]) = (case find P xs of None \<Rightarrow> if P x then Some x else None | Some y \<Rightarrow> Some y)"
  by (induction xs) simp_all

lemma insert_outbounds_lookup:
  assumes "insert_outbounds build table os = Inr table'"
  shows "fmlookup table' tag =
    (case find (\<lambda>out. out_tag out = tag) (rev os) of
       None \<Rightarrow> fmlookup table tag
     | Some out \<Rightarrow> (case build out of Inl _ \<Rightarrow> None | Inr o' \<Rightarrow> Some o'))"
  using assms
proof (induction os arbitrary: table)
  case (Cons out os)
  then obtain o' where o': "build out = Inr o'"
      "insert_outbounds build (fmupd (out_tag out) o' table) os = Inr table'"
    by (auto simp: and_then_Inr_iff)
  show ?case
    unfolding Cons.IH [OF o'(2)] by (simp add: find_snoc o'(1) split: option.splits)
qed simp

lemma insert_outbounds_built:
  "insert_outbounds build table os = Inr table' \<Longrightarrow> out \<in> set os \<Longrightarrow> is_ok (build out)"
  by (induction os arbitrary: table) (auto simp: and_then_Inr_iff is_ok_def)

lemma router_new_lookup:
  assumes "router_new build cfg = Inr r"
  shows "router_cfg r = cfg"
    "ok_or (fmlookup (router_outbounds r) tag) e =
       and_then (ok_or (outbound_named cfg tag) e) build"
proof -
  from assms obtain table where t: "insert_outbounds build fmempty (outbounds cfg) = Inr table"
      "r = \<lparr>router_cfg = cfg, router_outbounds = table\<rparr>"
    by (auto simp: router_new_def and_then_Inr_iff)
  then show "router_cfg r = cfg" by simp
  have "is_ok (build out)" if "outbound_named cfg tag = Some out" for out
    using insert_outbounds_built [OF t(1), of out] that
    by (auto simp: outbound_named_def find_Some_iff) (metis nth_mem set_rev length_rev)
  then show "ok_or (fmlookup (router_outbounds r) tag) e =
       and_then (ok_or (outbound_named cfg tag) e) build"
    using insert_outbounds_lookup [OF t(1), of tag] t(2)
    by (auto simp: ok_or_def outbound_named_def is_ok_def split: option.splits sum.splits)
qed

lemma outbound_named_Some:
  assumes "\<exists>out \<in> set (outbounds cfg). out_tag out = tag"
  obtains out where "outbound_named cfg tag = Some out" "out \<in> set (outbounds cfg)" "out_tag out = tag"
proof -
  have "outbound_named cfg tag \<noteq> None" using assms by (auto simp: outbound_named_def find_None_iff)
  then obtain out where "outbound_named cfg tag = Some out" by blast
  moreover from this have "out \<in> set (outbounds cfg)" "out_tag out = tag"
    by (auto simp: outbound_named_def find_Some_iff) (metis nth_mem set_rev length_rev)
  ultimately show thesis by (rule that)
qed

text \<open>C11: The router implements routing as a search in the configuration. A router that was built
  dials a session with the outbound that the rules, the default or the order of the outbounds
  give for its inbound, fails if there is no such outbound, and never falls back to another.\<close>

theorem router_dial_refines:
  assumes "router_new build cfg = Inr r"
  shows "router_dial dial r session =
    and_then (ok_or (route cfg (sess_inbound session)) (Bail ''no outbound available'')) (\<lambda>tag.
    and_then (ok_or (outbound_named cfg tag) (Bail ''unknown outbound'')) (\<lambda>out.
    and_then (build out) (\<lambda>o'. dial o' session)))"
  unfolding router_dial_def pick_outbound_route router_new_lookup [OF assms]
  by (simp add: and_then_assoc)

text \<open>
  In a validated configuration whose rules for an inbound name outbounds that exist, every session of the inbound
  is given an outbound that exists and was built; without a rule for the inbound this is always so.
\<close>

lemma validated_routing:
  assumes "validate cfg = Inr ()" and "router_new build cfg = Inr r"
    and "\<forall>rule \<in> set (rules (routing cfg)). rule_inbound rule = Some (sess_inbound session) \<longrightarrow>
      rule_outbound rule \<in> out_tag ` set (outbounds cfg)"
  shows "\<exists>out \<in> set (outbounds cfg). \<exists>o'. build out = Inr o' \<and> router_dial dial r session = dial o' session"
proof -
  obtain tag where tag: "route cfg (sess_inbound session) = Some tag" "\<exists>out \<in> set (outbounds cfg). out_tag out = tag"
  proof (cases "find (\<lambda>rule. rule_inbound rule = Some (sess_inbound session)) (rules (routing cfg))")
    case None
    then show thesis
      using validate_Inr(2,3) [OF assms(1)] that
      by (cases "outbounds cfg"; cases "routing_default (routing cfg)") (auto simp: route_def)
  next
    case (Some rule)
    then have "rule \<in> set (rules (routing cfg))" "rule_inbound rule = Some (sess_inbound session)"
      by (auto simp: find_Some_iff)
    then have "rule_outbound rule \<in> out_tag ` set (outbounds cfg)" using assms(3) by blast
    then have "\<exists>out \<in> set (outbounds cfg). out_tag out = rule_outbound rule" by force
    then show thesis using that [of "rule_outbound rule"] Some by (simp add: route_def)
  qed
  from tag(2) obtain out where out: "outbound_named cfg tag = Some out" "out \<in> set (outbounds cfg)"
    using outbound_named_Some by blast
  obtain table where t: "insert_outbounds build fmempty (outbounds cfg) = Inr table"
    using assms(2) by (auto simp: router_new_def and_then_Inr_iff)
  obtain o' where "build out = Inr o'"
    using insert_outbounds_built [OF t out(2)] by (auto simp: is_ok_def split: sum.splits)
  moreover have "router_dial dial r session = and_then (build out) (\<lambda>o'. dial o' session)"
    unfolding router_dial_def pick_outbound_route router_new_lookup [OF assms(2)]
    by (simp add: tag(1) out(1) ok_or_def)
  ultimately show ?thesis using out(2) by auto
qed

lemma validated_routing_total:
  assumes "validate cfg = Inr ()" and "router_new build cfg = Inr r"
    and "\<forall>rule \<in> set (rules (routing cfg)). rule_inbound rule \<noteq> Some (sess_inbound session)"
  shows "\<exists>out \<in> set (outbounds cfg). \<exists>o'. build out = Inr o' \<and>
    router_dial dial r session = dial o' session"
  using assms by (intro validated_routing) auto

lemma router_new_ok: "is_ok (router_new build cfg) \<longleftrightarrow> (\<forall>out \<in> set (outbounds cfg). is_ok (build out))"
proof -
  have "is_ok (insert_outbounds build table os) \<longleftrightarrow> (\<forall>out \<in> set os. is_ok (build out))" for table os
  proof (induction os arbitrary: table)
    case (Cons out os)
    then show ?case by (cases "build out") (simp_all add: is_ok_def)
  qed (simp add: is_ok_def)
  note insert = this [of fmempty "outbounds cfg"]
  have "is_ok (router_new build cfg) \<longleftrightarrow> is_ok (insert_outbounds build fmempty (outbounds cfg))"
    by (cases "insert_outbounds build fmempty (outbounds cfg)") (simp_all add: router_new_def is_ok_def)
  with insert show ?thesis by simp
qed

definition demo_config :: config where
  "demo_config =
     \<lparr>log_level = None, cfg_acme = None, inbounds = [demo_socks_inbound],
      outbounds = [demo_socks_outbound\<lparr>out_tag := ''a''\<rparr>, demo_socks_outbound\<lparr>out_tag := ''b''\<rparr>],
      routing = \<lparr>routing_default = Some ''b'',
        rules = [\<lparr>rule_inbound = Some ''other'', rule_outbound = ''a''\<rparr>]\<rparr>\<rparr>"

definition demo_session :: session where
  "demo_session = \<lparr>sess_inbound = ''socks-in'', sess_command = Connect, sess_target = TDomain ''a.b'' 443\<rparr>"

lemma demo_router:
  "router_new (\<lambda>cfg. Inr (out_tag cfg)) demo_config =
     Inr \<lparr>router_cfg = demo_config, router_outbounds = fmupd ''b'' ''b'' (fmupd ''a'' ''a'' fmempty)\<rparr>"
  by (simp add: router_new_def demo_config_def)

theorem router_dial_refines_witness:
  "\<exists>r. router_new (\<lambda>cfg. Inr (out_tag cfg)) demo_config = Inr r \<and>
     router_dial (\<lambda>o' s. Inr o') r demo_session = Inr ''b''"
  using router_dial_refines [OF demo_router, of "\<lambda>o' s. Inr o'" demo_session] demo_router
  by (simp add: route_def outbound_named_def demo_config_def demo_session_def ok_or_def)

end
