(* ===== verification/Tuic_Codec.thy ===== *)
theory Tuic_Codec
  imports Session Collections
begin

text \<open>
  The TUIC command codec of \<open>protocol/tuic/codec.rs\<close>. Marshalling a header is the work of the
  crate \<open>tuic_core\<close>, whose operations and constants are the record \<open>tuic_core\<close>, an argument of
  the definitions. What the code relies on is \<open>tuic_v5\<close>: the crate follows the wire format of
  version 5 of the protocol, which is written down in the first section.
\<close>

section \<open>Headers and their wire format\<close>

type_synonym uuid = "128 word"

datatype address = AddrNone | DomainAddress string u16 | SocketAddress socket_addr

datatype header =
    HAuthenticate uuid bytes
  | HConnect address
  | HPacket u16 u16 u8 u8 u16 address
  | HDissociate u16
  | HHeartbeat

record tuic_core =
  core_VERSION :: u8
  TYPE_CODE_AUTHENTICATE :: u8
  TYPE_CODE_CONNECT :: u8
  TYPE_CODE_PACKET :: u8
  TYPE_CODE_DISSOCIATE :: u8
  TYPE_CODE_HEARTBEAT :: u8
  core_marshal :: "header \<Rightarrow> bytes res"
  core_unmarshal :: "bytes \<Rightarrow> (header \<times> usize) res"

text \<open>
  The wire format: version, type code, fields in network order; an address is a tag and its
  octets, with tag \<open>0xff\<close> for no address. \<open>core_unmarshal\<close> returns how far it read.
\<close>

fun format_address :: "address \<Rightarrow> bytes" where
  "format_address AddrNone = [0xff]"
| "format_address (DomainAddress host port) = format_addr 1 0 2 (TDomain host port)"
| "format_address (SocketAddress addr) = format_addr 1 0 2 (TIp addr)"

fun wire_address :: "address \<Rightarrow> address" where
  "wire_address (SocketAddress (SockV6 ip port flow scope)) = SocketAddress (SockV6 ip port 0 0)"
| "wire_address (SocketAddress (SockV4 ip port)) = SocketAddress (SockV4 ip port)"
| "wire_address (DomainAddress host port) = DomainAddress host port"
| "wire_address AddrNone = AddrNone"

fun address_ok :: "address \<Rightarrow> bool" where
  "address_ok (DomainAddress host port) = (length host \<le> 255 \<and> valid_str host)"
| "address_ok _ = True"

fun format_header :: "header \<Rightarrow> bytes" where
  "format_header (HAuthenticate uuid token) = [5, 0] @ to_be 16 (unat uuid) @ token"
| "format_header (HConnect addr) = [5, 1] @ format_address addr"
| "format_header (HPacket assoc pkt tot frag len addr) =
     [5, 2] @ be16 assoc @ be16 pkt @ [tot, frag] @ be16 len @ format_address addr"
| "format_header (HDissociate assoc) = [5, 3] @ be16 assoc"
| "format_header HHeartbeat = [5, 4]"

fun wire_header :: "header \<Rightarrow> header" where
  "wire_header (HConnect addr) = HConnect (wire_address addr)"
| "wire_header (HPacket assoc pkt tot frag len addr) =
     HPacket assoc pkt tot frag len (wire_address addr)"
| "wire_header h = h"

fun header_ok :: "header \<Rightarrow> bool" where
  "header_ok (HAuthenticate uuid token) = (length token = 32)"
| "header_ok (HConnect addr) = address_ok addr"
| "header_ok (HPacket assoc pkt tot frag len addr) = address_ok addr"
| "header_ok _ = True"

fun address_of :: "target_addr \<Rightarrow> address" where
  "address_of (TDomain host port) = DomainAddress host port"
| "address_of (TIp addr) = SocketAddress addr"

definition p_address :: "address parser" where
  "p_address = p_bind p_u8 (\<lambda>tag.
     if tag = 0xff then p_return AddrNone
     else if tag = 0 then p_bind parse_domain (\<lambda>t. p_return (address_of t))
     else if tag = 1 then p_bind parse_v4 (\<lambda>t. p_return (address_of t))
     else if tag = 2 then p_bind parse_v6 (\<lambda>t. p_return (address_of t))
     else p_fail (Bail ''invalid address type''))"

definition p_header :: "header parser" where
  "p_header = p_bind p_u8 (\<lambda>ver.
     if ver \<noteq> 5 then p_fail (Bail ''invalid version'') else
     p_bind p_u8 (\<lambda>code.
     if code = 0 then
       p_bind (p_exact 16) (\<lambda>uuid. p_bind (p_exact 32) (\<lambda>token.
         p_return (HAuthenticate (of_nat (of_be uuid)) token)))
     else if code = 1 then p_bind p_address (\<lambda>addr. p_return (HConnect addr))
     else if code = 2 then
       p_bind p_u16 (\<lambda>assoc. p_bind p_u16 (\<lambda>pkt. p_bind p_u8 (\<lambda>tot. p_bind p_u8 (\<lambda>frag.
       p_bind p_u16 (\<lambda>len. p_bind p_address (\<lambda>addr.
         p_return (HPacket assoc pkt tot frag len addr)))))))
     else if code = 3 then p_bind p_u16 (\<lambda>assoc. p_return (HDissociate assoc))
     else if code = 4 then p_return HHeartbeat
     else p_fail (Bail ''invalid command'')))"

definition tuic_v5 :: "tuic_core \<Rightarrow> bool" where
  "tuic_v5 core \<longleftrightarrow>
     core_VERSION core = 5 \<and> TYPE_CODE_AUTHENTICATE core = 0 \<and> TYPE_CODE_CONNECT core = 1 \<and>
     TYPE_CODE_PACKET core = 2 \<and> TYPE_CODE_DISSOCIATE core = 3 \<and> TYPE_CODE_HEARTBEAT core = 4 \<and>
     (\<forall>h. header_ok h \<longrightarrow> core_marshal core h = Inr (format_header h)) \<and>
     (\<forall>bs h n. core_unmarshal core bs = Inr (h, n) \<longleftrightarrow>
        (\<exists>rest. p_header bs = Inr (h, rest) \<and> n = length bs - length rest)) \<and>
     (\<forall>bs. core_unmarshal core bs = Inl UnexpectedEof \<longleftrightarrow> p_header bs = Inl UnexpectedEof)"

section \<open>Commands\<close>

definition TOKEN_LEN :: usize where
  "TOKEN_LEN = 32"

definition AUTHENTICATE_LEN :: usize where
  "AUTHENTICATE_LEN = 2 + 16 + TOKEN_LEN"

definition FRAGMENT_IDLE_TIMEOUT :: duration where
  "FRAGMENT_IDLE_TIMEOUT = from_secs 30"

text \<open>
  \<open>exporter len label context\<close> is \<open>SSL_export_keying_material\<close> of the connection, which fails
  or fills the buffer.
\<close>

definition token ::
    "(usize \<Rightarrow> bytes \<Rightarrow> bytes \<Rightarrow> bytes option) \<Rightarrow> uuid \<Rightarrow> bytes \<Rightarrow> bytes res" where
  "token exporter uuid password =
     (case exporter TOKEN_LEN (to_be 16 (unat uuid)) password of
        None \<Rightarrow> Inl (Bail ''failed to export TUIC token'')
      | Some out \<Rightarrow> Inr out)"

definition marshal_header :: "tuic_core \<Rightarrow> header \<Rightarrow> bytes res" where
  "marshal_header core header = core_marshal core header"

definition parse_header :: "tuic_core \<Rightarrow> bytes \<Rightarrow> (header \<times> usize) res" where
  "parse_header core data = core_unmarshal core data"

fun target_to_address :: "target_addr \<Rightarrow> address res" where
  "target_to_address (TDomain host port) =
     and_then (ensure (length host \<le> 255) ''domain is too long'') (\<lambda>_.
     Inr (DomainAddress host port))"
| "target_to_address (TIp addr) = Inr (SocketAddress addr)"

fun address_to_target :: "address \<Rightarrow> target_addr res" where
  "address_to_target (DomainAddress host port) = Inr (TDomain host port)"
| "address_to_target (SocketAddress addr) = Inr (TIp addr)"
| "address_to_target AddrNone = Inl (Bail ''empty address is not valid for TCP connect'')"

fun address_to_optional_target :: "address \<Rightarrow> target_addr option res" where
  "address_to_optional_target AddrNone = Inr None"
| "address_to_optional_target other = and_then (address_to_target other) (\<lambda>t. Inr (Some t))"

definition encode_authenticate :: "tuic_core \<Rightarrow> uuid \<Rightarrow> bytes \<Rightarrow> bytes res" where
  "encode_authenticate core uuid tok = marshal_header core (HAuthenticate uuid tok)"

definition parse_authenticate :: "tuic_core \<Rightarrow> bytes \<Rightarrow> (uuid \<times> bytes) res" where
  "parse_authenticate core data =
     and_then (parse_header core data) (\<lambda>(header, _).
     case header of
       HAuthenticate uuid tok \<Rightarrow> Inr (uuid, tok)
     | _ \<Rightarrow> Inl (Bail ''unexpected tuic command, expected authenticate''))"

definition parse_connect :: "tuic_core \<Rightarrow> bytes \<Rightarrow> (target_addr \<times> usize) res" where
  "parse_connect core data =
     and_then (parse_header core data) (\<lambda>(header, consumed).
     case header of
       HConnect addr \<Rightarrow> and_then (address_to_target addr) (\<lambda>target. Inr (target, consumed))
     | _ \<Rightarrow> Inl (Bail ''unexpected tuic command, expected connect''))"

definition try_parse_connect :: "tuic_core \<Rightarrow> bytes \<Rightarrow> (target_addr \<times> usize) option res" where
  "try_parse_connect core data =
     (case parse_connect core data of
        Inr connect \<Rightarrow> Inr (Some connect)
      | Inl err \<Rightarrow> if err = UnexpectedEof then Inr None else Inl err)"

definition tuic_encode_addr :: "tuic_core \<Rightarrow> target_addr \<Rightarrow> bytes res" where
  "tuic_encode_addr core target =
     and_then (target_to_address target) (\<lambda>addr.
     and_then (marshal_header core (HConnect addr)) (\<lambda>encoded.
     Inr (drop 2 encoded)))"

definition tuic_decode_addr :: "tuic_core \<Rightarrow> bytes \<Rightarrow> (target_addr \<times> usize) res" where
  "tuic_decode_addr core data =
     and_then (parse_connect core ([core_VERSION core, TYPE_CODE_CONNECT core] @ data))
       (\<lambda>(target, consumed). Inr (target, consumed - 2))"

definition encode_connect :: "tuic_core \<Rightarrow> target_addr \<Rightarrow> bytes \<Rightarrow> bytes res" where
  "encode_connect core target payload =
     and_then (target_to_address target) (\<lambda>addr.
     and_then (marshal_header core (HConnect addr)) (\<lambda>output.
     Inr (output @ payload)))"

definition encode_dissociate :: "tuic_core \<Rightarrow> u16 \<Rightarrow> bytes" where
  "encode_dissociate core assoc_id =
     (case marshal_header core (HDissociate assoc_id) of
        Inr output \<Rightarrow> output
      | Inl _ \<Rightarrow> [core_VERSION core, TYPE_CODE_DISSOCIATE core] @ be16 assoc_id)"

definition parse_dissociate :: "tuic_core \<Rightarrow> bytes \<Rightarrow> u16 res" where
  "parse_dissociate core data =
     and_then (parse_header core data) (\<lambda>(header, _).
     case header of
       HDissociate assoc_id \<Rightarrow> Inr assoc_id
     | _ \<Rightarrow> Inl (Bail ''unexpected tuic command, expected dissociate''))"

definition encode_heartbeat :: "tuic_core \<Rightarrow> bytes res" where
  "encode_heartbeat core = marshal_header core HHeartbeat"

section \<open>Packets\<close>

record packet =
  pk_assoc_id :: u16
  pk_pkt_id :: u16
  pk_frag_total :: u8
  pk_frag_id :: u8
  pk_target :: "target_addr option"
  pk_payload :: bytes

definition encode_packet :: "tuic_core \<Rightarrow> packet \<Rightarrow> bytes res" where
  "encode_packet core packet =
     and_then (ensure (pk_frag_total packet > 0) ''packet fragment total cannot be zero'') (\<lambda>_.
     and_then (ensure (pk_frag_id packet < pk_frag_total packet)
       ''packet fragment id exceeds fragment total'') (\<lambda>_.
     and_then (ensure (length (pk_payload packet) \<le> 65535)
       ''tuic packet fragment is too large'') (\<lambda>_.
     and_then (case pk_target packet of
         Some target \<Rightarrow> target_to_address target
       | None \<Rightarrow> Inr AddrNone) (\<lambda>addr.
     and_then (marshal_header core (HPacket (pk_assoc_id packet) (pk_pkt_id packet)
       (pk_frag_total packet) (pk_frag_id packet) (of_nat (length (pk_payload packet))) addr)) (\<lambda>output.
     Inr (output @ pk_payload packet))))))"

definition parse_packet :: "tuic_core \<Rightarrow> bytes \<Rightarrow> packet res" where
  "parse_packet core data =
     and_then (parse_header core data) (\<lambda>(header, payload_start).
     case header of
       HPacket assoc_id pkt_id frag_total frag_id len addr \<Rightarrow>
         and_then (ensure (frag_total > 0) ''packet fragment total cannot be zero'') (\<lambda>_.
         and_then (ensure (frag_id < frag_total) ''packet fragment id exceeds fragment total'') (\<lambda>_.
         and_then (ok_or (checked_add payload_start (unat len)) (Bail ''tuic packet size overflow''))
           (\<lambda>payload_end.
         and_then (ensure (payload_end \<le> length data) ''short tuic packet payload'') (\<lambda>_.
         and_then (address_to_optional_target addr) (\<lambda>target.
         Inr \<lparr>pk_assoc_id = assoc_id, pk_pkt_id = pkt_id, pk_frag_total = frag_total,
              pk_frag_id = frag_id, pk_target = target,
              pk_payload = take (payload_end - payload_start) (drop payload_start data)\<rparr>)))))
     | _ \<Rightarrow> Inl (Bail ''unexpected tuic command, expected packet''))"

definition fragment_packet :: "tuic_core \<Rightarrow> packet \<Rightarrow> usize \<Rightarrow> packet list res" where
  "fragment_packet core packet max_size =
     and_then (encode_packet core packet) (\<lambda>encoded.
     if length encoded \<le> max_size then Inr [packet]
     else
     and_then (ensure (pk_frag_total packet = 1 \<and> pk_frag_id packet = 0)
       ''cannot refragment a TUIC fragment'') (\<lambda>_.
     let header_len = length encoded - length (pk_payload packet) in
     and_then (ok_or (opt_filter (\<lambda>len. len > 0) (checked_sub max_size header_len))
       (Bail ''QUIC DATAGRAM limit cannot fit a TUIC packet header'')) (\<lambda>capacity.
     let count = div_ceil (length (pk_payload packet)) capacity in
     and_then (ensure (count \<le> 255) ''TUIC packet requires too many fragments'') (\<lambda>_.
     Inr (map (\<lambda>(index, payload).
         \<lparr>pk_assoc_id = pk_assoc_id packet, pk_pkt_id = pk_pkt_id packet,
          pk_frag_total = of_nat count, pk_frag_id = of_nat index,
          pk_target = (if index = 0 then pk_target packet else None),
          pk_payload = payload\<rparr>)
       (enumerate 0 (chunks capacity (pk_payload packet))))))))"

section \<open>Reassembly\<close>

record fragmented_packet =
  fp_assoc_id :: u16
  fp_pkt_id :: u16
  fp_frag_total :: u8
  fp_target :: "target_addr option"
  fp_last_used :: instant
  fp_fragments :: "(u8, bytes) fmap"

type_synonym packet_assembler = "(u16 \<times> u16, fragmented_packet) fmap"

text \<open>The loop over \<open>0..frag_total\<close>: it stops at a missing fragment, with those before removed.\<close>

fun join_fragments :: "u8 list \<Rightarrow> (u8, bytes) fmap \<Rightarrow> bytes \<Rightarrow> bytes option \<times> (u8, bytes) fmap" where
  "join_fragments [] fragments payload = (Some payload, fragments)"
| "join_fragments (frag_id # ids) fragments payload =
     (case fmlookup fragments frag_id of
        None \<Rightarrow> (None, fragments)
      | Some fragment \<Rightarrow> join_fragments ids (fmdrop frag_id fragments) (payload @ fragment))"

definition push_at ::
    "packet_assembler \<Rightarrow> packet \<Rightarrow> instant \<Rightarrow> packet option res \<times> packet_assembler" where
  "push_at asm packet now =
     (if pk_frag_total packet = 1 then
        (if pk_target packet \<noteq> None then (Inr (Some packet), asm)
         else (Inl (Bail ''single-fragment packet missing target''), asm))
      else
        let key = (pk_assoc_id packet, pk_pkt_id packet);
            entry = (case fmlookup asm key of
                       Some entry \<Rightarrow> entry
                     | None \<Rightarrow>
                         \<lparr>fp_assoc_id = pk_assoc_id packet, fp_pkt_id = pk_pkt_id packet,
                          fp_frag_total = pk_frag_total packet, fp_target = None,
                          fp_last_used = now, fp_fragments = fmempty\<rparr>)
        in
        if fp_frag_total entry \<noteq> pk_frag_total packet then
          (Inl (Bail ''fragment total changed within packet''), fmupd key entry asm)
        else
          let entry = entry\<lparr>fp_last_used := now\<rparr>;
              entry = (if pk_frag_id packet = 0 then entry\<lparr>fp_target := pk_target packet\<rparr> else entry);
              entry = entry\<lparr>fp_fragments :=
                fmupd (pk_frag_id packet) (pk_payload packet) (fp_fragments entry)\<rparr>
          in
          if fm_len (fp_fragments entry) \<noteq> unat (fp_frag_total entry) then
            (Inr None, fmupd key entry asm)
          else
            (case fp_target entry of
               None \<Rightarrow> (Inr None, fmupd key entry asm)
             | Some target \<Rightarrow>
                 (case join_fragments (map of_nat [0..<unat (fp_frag_total entry)])
                         (fp_fragments entry) [] of
                    (None, fragments) \<Rightarrow> (Inr None, fmupd key (entry\<lparr>fp_fragments := fragments\<rparr>) asm)
                  | (Some payload, _) \<Rightarrow>
                      (Inr (Some
                         \<lparr>pk_assoc_id = fp_assoc_id entry, pk_pkt_id = fp_pkt_id entry,
                          pk_frag_total = 1, pk_frag_id = 0, pk_target = Some target,
                          pk_payload = payload\<rparr>),
                       fmdrop key asm))))"

definition evict_idle :: "instant \<Rightarrow> duration \<Rightarrow> packet_assembler \<Rightarrow> packet_assembler" where
  "evict_idle now timeout asm =
     fm_retain (\<lambda>packet. saturating_duration_since now (fp_last_used packet) < timeout) asm"

definition evict_idle_count :: "instant \<Rightarrow> duration \<Rightarrow> packet_assembler \<Rightarrow> usize" where
  "evict_idle_count now timeout asm = fm_len asm - fm_len (evict_idle now timeout asm)"

definition push ::
    "packet_assembler \<Rightarrow> packet \<Rightarrow> instant \<Rightarrow> packet option res \<times> packet_assembler" where
  "push asm packet now = push_at (evict_idle now FRAGMENT_IDLE_TIMEOUT asm) packet now"

definition pending_fragment_groups :: "packet_assembler \<Rightarrow> usize" where
  "pending_fragment_groups asm = fm_len asm"

interpretation assembler: idle_table fp_last_used evict_idle
  by unfold_locales (simp add: evict_idle_def)

section \<open>The wire format\<close>

lemma p_address_format:
  "address_ok a \<Longrightarrow> p_address (format_address a @ rest) = Inr (wire_address a, rest)"
proof (cases a rule: wire_address.cases)
  case (1 ip port flow scope)
  have "parse_v6 (v6_octets ip @ be16 port @ rest) = Inr (TIp (SockV6 ip port 0 0), rest)"
    by (simp add: parse_v6_iff)
  with 1 show ?thesis by (simp add: p_address_def p_return_def)
next
  case (3 host port)
  moreover assume "address_ok a"
  ultimately have "parse_domain (of_nat (length host) # as_bytes host @ be16 port @ rest) =
      Inr (TDomain host port, rest)"
    by (simp add: parse_domain_iff)
  with 3 show ?thesis by (simp add: p_address_def p_return_def)
next
  case (2 ip port)
  have "parse_v4 (v4_octets ip @ be16 port @ rest) = Inr (TIp (SockV4 ip port), rest)"
    by (simp add: parse_v4_iff)
  with 2 show ?thesis by (simp add: p_address_def p_return_def)
qed (simp add: p_address_def p_return_def)

lemma p_header_format:
  assumes "header_ok h"
  shows "p_header (format_header h @ rest) = Inr (wire_header h, rest)"
proof (cases h)
  case (HAuthenticate uuid tok)
  have "(of_nat (of_be (to_be 16 (unat uuid))) :: uuid) = uuid" by (simp add: word_of_be_to_be)
  with HAuthenticate assms show ?thesis by (simp add: p_header_def p_return_def)
qed (use assms in \<open>simp_all add: p_header_def p_return_def p_address_format\<close>)

lemma incremental_header: "incremental p_header"
  unfolding p_header_def p_address_def parse_v4_def parse_v6_def parse_domain_def
  by (intro incremental_intros)

lemma p_header_prefix:
  assumes "header_ok h" "k < length (format_header h)"
  shows "p_header (take k (format_header h)) = Inl UnexpectedEof"
proof -
  obtain used where "format_header h = used" "\<And>i. i < length used \<Longrightarrow> p_header (take i used) = Inl UnexpectedEof"
    using incrementalD [OF incremental_header p_header_format [OF assms(1), of "[]"]] by auto
  with assms(2) show ?thesis by blast
qed

lemma v5_marshal: "tuic_v5 core \<Longrightarrow> header_ok h \<Longrightarrow> marshal_header core h = Inr (format_header h)"
  by (simp add: tuic_v5_def marshal_header_def)

lemma v5_parse:
  "tuic_v5 core \<Longrightarrow> header_ok h \<Longrightarrow>
   parse_header core (format_header h @ rest) = Inr (wire_header h, length (format_header h))"
  by (auto simp: tuic_v5_def parse_header_def p_header_format)

lemma v5_prefix:
  "tuic_v5 core \<Longrightarrow> header_ok h \<Longrightarrow> k < length (format_header h) \<Longrightarrow>
   parse_header core (take k (format_header h)) = Inl UnexpectedEof"
  by (simp add: tuic_v5_def parse_header_def p_header_prefix)

lemmas v5_simps = v5_marshal v5_parse v5_prefix

text \<open>An instance of the crate's interface that follows the format.\<close>

definition v5_core :: tuic_core where
  "v5_core =
     \<lparr>core_VERSION = 5, TYPE_CODE_AUTHENTICATE = 0, TYPE_CODE_CONNECT = 1, TYPE_CODE_PACKET = 2,
      TYPE_CODE_DISSOCIATE = 3, TYPE_CODE_HEARTBEAT = 4,
      core_marshal = (\<lambda>h. Inr (format_header h)),
      core_unmarshal = (\<lambda>bs. and_then (p_header bs) (\<lambda>(h, rest). Inr (h, length bs - length rest)))\<rparr>"

lemma tuic_v5_core: "tuic_v5 v5_core"
  by (auto simp: tuic_v5_def v5_core_def and_then_def split: sum.splits)

section \<open>Connect\<close>

lemma target_to_address_Inr_iff:
  "target_to_address t = Inr a \<longleftrightarrow> fits t \<and> a = address_of t"
  by (cases t) (auto simp: and_then_Inr_iff ensure_def)

lemma address_of_ok: "fits t \<Longrightarrow> valid_target t \<Longrightarrow> address_ok (address_of t)"
  by (cases t) simp_all

lemma address_of_wire:
  "address_to_target (wire_address (address_of t)) = Inr (wire_form t)"
  "address_to_optional_target (wire_address (address_of t)) = Inr (Some (wire_form t))"
  by (cases t rule: wire_form.cases; simp)+

text \<open>A CONNECT command can be read from a stream that arrives in pieces. There is a header
  length such that every shorter prefix is reported as incomplete, never as invalid, and every
  longer one gives the target and that length; what follows the header is the payload.\<close>

theorem tuic_connect_incremental:
  assumes "tuic_v5 core" and "encode_connect core t payload = Inr bs" and "valid_target t"
  shows "\<exists>n \<le> length bs. drop n bs = payload \<and>
    (\<forall>k. try_parse_connect core (take k bs) = Inr (if k < n then None else Some (wire_form t, n)))"
proof -
  let ?h = "HConnect (address_of t)"
  let ?n = "length (format_header ?h)"
  have t: "fits t" using assms(2) by (auto simp: encode_connect_def and_then_Inr_iff target_to_address_Inr_iff)
  then have ok: "header_ok ?h" using assms(3) by (simp add: address_of_ok)
  have bs: "bs = format_header ?h @ payload"
    using assms(1,2) ok
    by (auto simp: encode_connect_def and_then_Inr_iff target_to_address_Inr_iff v5_marshal)
  have "try_parse_connect core (take k bs) = Inr None" if "k < ?n" for k
  proof -
    have "take k bs = take k (format_header ?h)" using that bs by (simp del: format_header.simps)
    then show ?thesis
      using v5_prefix [OF assms(1) ok that]
      by (simp add: try_parse_connect_def parse_connect_def del: format_header.simps)
  qed
  moreover have "try_parse_connect core (take k bs) = Inr (Some (wire_form t, ?n))" if "?n \<le> k" for k
  proof -
    have "take k bs = format_header ?h @ take (k - ?n) payload"
      using that bs by (simp del: format_header.simps)
    then show ?thesis
      using v5_parse [OF assms(1) ok, of "take (k - ?n) payload"]
      by (simp add: try_parse_connect_def parse_connect_def address_of_wire del: format_header.simps)
  qed
  ultimately show ?thesis using bs by (intro exI [of _ ?n]) simp
qed

section \<open>Authentication and dissociation\<close>

text \<open>The other commands of the codec round trip: a parsed AUTHENTICATE or DISSOCIATE gives back
  what was encoded whatever bytes follow, and an AUTHENTICATE command has the announced length.\<close>

theorem tuic_command_roundtrip:
  assumes "tuic_v5 core" and "length tok = TOKEN_LEN"
  shows "(\<exists>bs. encode_authenticate core uuid tok = Inr bs \<and> length bs = AUTHENTICATE_LEN \<and>
      parse_authenticate core (bs @ rest) = Inr (uuid, tok)) \<and>
    parse_dissociate core (encode_dissociate core assoc @ rest) = Inr assoc"
proof -
  have ok: "header_ok (HAuthenticate uuid tok)" "header_ok (HDissociate assoc)"
    using assms(2) by (simp_all add: TOKEN_LEN_def)
  show ?thesis
    using v5_simps(1,2) [OF assms(1) ok(1)] v5_simps(1,2) [OF assms(1) ok(2)] assms(2)
    by (auto simp: encode_authenticate_def parse_authenticate_def encode_dissociate_def
        parse_dissociate_def AUTHENTICATE_LEN_def)
qed

section \<open>Packets and fragments\<close>

definition packet_header :: "packet \<Rightarrow> header" where
  "packet_header p = HPacket (pk_assoc_id p) (pk_pkt_id p) (pk_frag_total p) (pk_frag_id p)
     (of_nat (length (pk_payload p)))
     (case pk_target p of None \<Rightarrow> AddrNone | Some t \<Rightarrow> address_of t)"

definition packet_valid :: "packet \<Rightarrow> bool" where
  "packet_valid p \<longleftrightarrow> pred_option valid_target (pk_target p)"

definition packet_fits :: "packet \<Rightarrow> bool" where
  "packet_fits p \<longleftrightarrow> pk_frag_id p < pk_frag_total p \<and> length (pk_payload p) \<le> 65535 \<and>
     pred_option fits (pk_target p)"

lemma encode_packet_iff:
  assumes "tuic_v5 core" "packet_valid p"
  shows "encode_packet core p = Inr bs \<longleftrightarrow>
    packet_fits p \<and> bs = format_header (packet_header p) @ pk_payload p"
proof -
  have pos: "0 < pk_frag_total p" if "pk_frag_id p < pk_frag_total p"
    using that by (metis word_gt_0 word_not_simps(1))
  show ?thesis
  proof (cases "pk_target p")
    case None
    then show ?thesis
      using pos v5_marshal [OF assms(1), of "packet_header p"]
      by (auto simp: encode_packet_def packet_fits_def packet_header_def and_then_Inr_iff ensure_def)
  next
    case (Some t)
    then show ?thesis
      using pos assms(2) v5_marshal [OF assms(1), of "packet_header p"] address_of_ok [of t]
      by (auto simp: encode_packet_def packet_fits_def packet_header_def packet_valid_def
          and_then_Inr_iff ensure_def target_to_address_Inr_iff)
  qed
qed

lemma header_ok_packet: "packet_valid p \<Longrightarrow> packet_fits p \<Longrightarrow> header_ok (packet_header p)"
  by (cases "pk_target p")
    (simp_all add: packet_header_def packet_valid_def packet_fits_def address_of_ok)

lemma length_format_address: "address_ok a \<Longrightarrow> length (format_address a) \<le> 300"
  by (cases a rule: wire_address.cases) simp_all

lemma length_packet_header:
  "length (format_header (packet_header p)) =
     10 + length (format_address (case pk_target p of None \<Rightarrow> AddrNone | Some t \<Rightarrow> address_of t))"
  by (simp add: packet_header_def)

lemma packet_decodes:
  assumes "tuic_v5 core" and "packet_valid p" and "encode_packet core p = Inr bs"
  shows "parse_packet core (bs @ rest) = Inr (p\<lparr>pk_target := map_option wire_form (pk_target p)\<rparr>)"
proof -
  let ?h = "packet_header p"
  have fits: "packet_fits p" and bs: "bs = format_header ?h @ pk_payload p"
    using assms by (simp_all add: encode_packet_iff)
  have ok: "header_ok ?h" using header_ok_packet assms(2) fits by blast
  have len: "length (pk_payload p) \<le> 65535" using fits by (simp add: packet_fits_def)
  then have size: "unat (of_nat (length (pk_payload p)) :: u16) = length (pk_payload p)"
    by (simp add: unat_of_nat_u16)
  have "length (format_header ?h) \<le> 310"
    using ok length_format_address unfolding length_packet_header by (simp add: packet_header_def)
  then have add: "checked_add (length (format_header ?h)) (length (pk_payload p)) =
      Some (length (format_header ?h) + length (pk_payload p))"
    using len by (simp add: checked_add_def USIZE_MAX_def)
  have pos: "0 < pk_frag_total p"
    using fits by (metis packet_fits_def word_gt_0 word_not_simps(1))
  have target: "address_to_optional_target
      (wire_address (case pk_target p of None \<Rightarrow> AddrNone | Some t \<Rightarrow> address_of t)) =
      Inr (map_option wire_form (pk_target p))"
    by (cases "pk_target p") (simp_all add: address_of_wire)
  have "parse_header core (bs @ rest) = Inr (wire_header ?h, length (format_header ?h))"
    using v5_parse [OF assms(1) ok, of "pk_payload p @ rest"] bs by simp
  then show ?thesis
    using fits pos target size add bs
    by (simp add: parse_packet_def packet_header_def packet_fits_def ensure_def ok_or_def)
qed

text \<open>A packet that can be encoded is parsed back, whatever follows it in the buffer: all ids,
  the fragment numbers and the payload, and the target without flow information and scope.\<close>

theorem tuic_packet_roundtrip:
  assumes "tuic_v5 core" and "packet_valid p" and "encode_packet core p = Inr bs"
  shows "parse_packet core (bs @ rest) = Inr (p\<lparr>pk_target := map_option wire_form (pk_target p)\<rparr>)"
  using assms by (rule packet_decodes)

definition demo_packet :: packet where
  "demo_packet = \<lparr>pk_assoc_id = 7, pk_pkt_id = 9, pk_frag_total = 1, pk_frag_id = 0,
     pk_target = Some (TIp (SockV4 0x7F000001 80)), pk_payload = [1, 2, 3]\<rparr>"

lemma demo_packet_valid: "packet_valid demo_packet"
  by (simp add: packet_valid_def demo_packet_def)

lemma encode_demo_packet:
  "encode_packet v5_core demo_packet =
     Inr [5, 2, 0, 7, 0, 9, 1, 0, 0, 3, 1, 127, 0, 0, 1, 0, 80, 1, 2, 3]"
  by (simp add: encode_packet_def marshal_header_def v5_core_def demo_packet_def eval_simps)

lemma v5_capacity:
  assumes "tuic_v5 core" "packet_valid p" "encode_packet core p = Inr encoded"
  shows "length encoded - length (pk_payload p) = length (format_header (packet_header p))"
  using assms by (auto simp: encode_packet_iff)

lemma fragment_fits:
  assumes "tuic_v5 core" "packet_valid p" "packet_fits p"
    and "f = \<lparr>pk_assoc_id = a, pk_pkt_id = i, pk_frag_total = tot, pk_frag_id = k,
             pk_target = (if first then pk_target p else None), pk_payload = c\<rparr>"
    and "k < tot" "length c \<le> length (pk_payload p)"
    and "length (format_header (packet_header p)) + length c \<le> max_size"
  shows "\<exists>bs. encode_packet core f = Inr bs \<and> length bs \<le> max_size"
proof -
  have "packet_valid f" "packet_fits f"
    using assms(2-6) by (auto simp: packet_valid_def packet_fits_def)
  moreover have "length (format_header (packet_header f)) \<le> length (format_header (packet_header p))"
  proof -
    have "0 < length (format_address a)" for a by (cases a rule: wire_address.cases) simp_all
    then show ?thesis using assms(4) by (simp add: length_packet_header Suc_le_eq)
  qed
  ultimately show ?thesis using assms by (simp add: encode_packet_iff)
qed

text \<open>\<open>fs\<close> are the numbered fragments of \<open>p\<close>: together they carry its payload, and only the
  first carries the target.\<close>

definition fragments_of :: "packet \<Rightarrow> packet list \<Rightarrow> bool" where
  "fragments_of p fs \<longleftrightarrow> fs \<noteq> [] \<and> length fs \<le> 255 \<and>
     concat (map pk_payload fs) = pk_payload p \<and>
     (\<forall>i < length fs. fs ! i = p\<lparr>pk_frag_total := of_nat (length fs), pk_frag_id := of_nat i,
        pk_target := (if i = 0 then pk_target p else None), pk_payload := pk_payload (fs ! i)\<rparr>)"

lemma fragment_list_spec:
  assumes "0 < capacity" "0 < length (pk_payload p)"
    and "n = div_ceil (length (pk_payload p)) capacity" "n \<le> 255"
    and "fs = map (\<lambda>(i, c). \<lparr>pk_assoc_id = pk_assoc_id p, pk_pkt_id = pk_pkt_id p,
      pk_frag_total = of_nat n, pk_frag_id = of_nat i,
      pk_target = (if i = 0 then pk_target p else None), pk_payload = c\<rparr>)
      (enumerate 0 (chunks capacity (pk_payload p)))"
  shows "fragments_of p fs" "length fs = n"
proof -
  have len: "length (chunks capacity (pk_payload p)) = n"
    using assms(1,3) by (simp add: length_chunks)
  then show n: "length fs = n" using assms(5) by simp
  have "map pk_payload fs = chunks capacity (pk_payload p)"
    by (rule nth_equalityI) (simp_all add: assms(5) nth_enumerate_eq)
  then have "concat (map pk_payload fs) = pk_payload p" using assms(1) by (simp add: concat_chunks)
  moreover have "fs \<noteq> []" using calculation assms(2) by force
  moreover have "fs ! i = p\<lparr>pk_frag_total := of_nat (length fs), pk_frag_id := of_nat i,
        pk_target := (if i = 0 then pk_target p else None), pk_payload := pk_payload (fs ! i)\<rparr>"
    if "i < length fs" for i
    using that len n by (simp add: assms(5) nth_enumerate_eq)
  ultimately show "fragments_of p fs" using n assms(4) by (simp add: fragments_of_def)
qed

lemma fragment_packet_Inr:
  assumes "fragment_packet core p max_size = Inr fs"
  obtains (whole) encoded where "encode_packet core p = Inr encoded" "length encoded \<le> max_size" "fs = [p]"
  | (split) encoded capacity n where "encode_packet core p = Inr encoded" "max_size < length encoded"
      "0 < capacity" "length encoded - length (pk_payload p) + capacity = max_size"
      "n = div_ceil (length (pk_payload p)) capacity" "n \<le> 255"
      "fs = map (\<lambda>(i, c). \<lparr>pk_assoc_id = pk_assoc_id p, pk_pkt_id = pk_pkt_id p,
        pk_frag_total = of_nat n, pk_frag_id = of_nat i,
        pk_target = (if i = 0 then pk_target p else None), pk_payload = c\<rparr>)
        (enumerate 0 (chunks capacity (pk_payload p)))"
proof -
  obtain encoded where e: "encode_packet core p = Inr encoded"
    using assms by (auto simp: fragment_packet_def and_then_Inr_iff)
  show thesis
  proof (cases "length encoded \<le> max_size")
    case True
    with e assms that(1) show thesis by (simp add: fragment_packet_def)
  next
    case False
    then obtain capacity where c: "opt_filter (\<lambda>len. len > 0)
          (checked_sub max_size (length encoded - length (pk_payload p))) = Some capacity"
        "div_ceil (length (pk_payload p)) capacity \<le> 255"
        "fs = map (\<lambda>(i, c). \<lparr>pk_assoc_id = pk_assoc_id p, pk_pkt_id = pk_pkt_id p,
          pk_frag_total = of_nat (div_ceil (length (pk_payload p)) capacity), pk_frag_id = of_nat i,
          pk_target = (if i = 0 then pk_target p else None), pk_payload = c\<rparr>)
          (enumerate 0 (chunks capacity (pk_payload p)))"
      using e assms
      by (auto simp: fragment_packet_def and_then_Inr_iff ensure_def ok_or_def Let_def
          split: if_splits option.splits)
    from c(1) have "0 < capacity" "length encoded - length (pk_payload p) + capacity = max_size"
      by (auto simp: opt_filter_Some_iff checked_sub_Some_iff)
    with e False c(2,3) show thesis by (intro that(2)) simp_all
  qed
qed

lemma fragment_packet_correct:
  assumes "tuic_v5 core" and "packet_valid p" and "pk_frag_total p = 1"
    and "fragment_packet core p max_size = Inr fs"
  shows "fragments_of p fs \<and>
    list_all (\<lambda>f. \<exists>bs. encode_packet core f = Inr bs \<and> length bs \<le> max_size) fs"
  using assms(4)
proof (cases rule: fragment_packet_Inr)
  case (whole encoded)
  then have "packet_fits p" using assms(1,2) by (simp add: encode_packet_iff)
  then have "pk_frag_id p = 0" using assms(3) by (simp add: packet_fits_def word_less_nat_alt unsigned_eq_0_iff)
  then have "p\<lparr>pk_frag_total := 1, pk_frag_id := 0\<rparr> = p" using assms(3) by simp
  with whole show ?thesis by (simp add: fragments_of_def)
next
  case (split encoded capacity n)
  have fits: "packet_fits p" using split(1) assms(1,2) by (simp add: encode_packet_iff)
  have header: "length encoded - length (pk_payload p) = length (format_header (packet_header p))"
    using v5_capacity [OF assms(1,2) split(1)] .
  moreover have "length encoded = length (format_header (packet_header p)) + length (pk_payload p)"
    using split(1) assms(1,2) by (simp add: encode_packet_iff)
  ultimately have pos: "0 < length (pk_payload p)" using split(2,3,4) by linarith
  have frags: "fragments_of p fs" "length fs = n"
    using fragment_list_spec [OF split(3) pos split(5,6,7)] by simp_all
  have "\<exists>bs. encode_packet core f = Inr bs \<and> length bs \<le> max_size" if f: "f \<in> set fs" for f
  proof -
    from f obtain i where i: "i < n" "f = fs ! i" using frags(2) by (auto simp: in_set_conv_nth)
    then have id: "(of_nat i :: u8) < of_nat n" using split(6) by (simp add: word_less_nat_alt unat_of_nat_u8)
    from i have len: "i < length (chunks capacity (pk_payload p))" using split(7) frags(2) by simp
    then have "chunks capacity (pk_payload p) ! i \<in> set (chunks capacity (pk_payload p))" by simp
    then have c: "length (chunks capacity (pk_payload p) ! i) \<le> capacity" using chunks_member by blast
    have eq: "f = \<lparr>pk_assoc_id = pk_assoc_id p, pk_pkt_id = pk_pkt_id p, pk_frag_total = of_nat n,
        pk_frag_id = of_nat i, pk_target = (if i = 0 then pk_target p else None),
        pk_payload = chunks capacity (pk_payload p) ! i\<rparr>"
      using i(2) len by (simp add: split(7) nth_enumerate_eq)
    show ?thesis
      by (rule fragment_fits [OF assms(1,2) fits eq id])
        (use c header split(2,4) pos in simp_all)
  qed
  then show ?thesis using frags(1) by (simp add: list_all_iff)
qed

text \<open>C16: A whole packet that is split for a datagram limit is split correctly. There are at most
  255 fragments, numbered from zero with their count as total; they carry the payload in order and
  without gap, the first carries the target; and every one of them is encoded within the limit.\<close>

theorem tuic_fragment_packet:
  assumes "tuic_v5 core" and "packet_valid p" and "pk_frag_total p = 1"
    and "fragment_packet core p max_size = Inr fs"
  shows "fragments_of p fs \<and>
    list_all (\<lambda>f. \<exists>bs. encode_packet core f = Inr bs \<and> length bs \<le> max_size) fs"
  using assms by (rule fragment_packet_correct)

definition demo_fragments :: "packet list" where
  "demo_fragments =
     [demo_packet\<lparr>pk_frag_total := 2, pk_frag_id := 0, pk_payload := [1, 2]\<rparr>,
      demo_packet\<lparr>pk_frag_total := 2, pk_frag_id := 1, pk_target := None, pk_payload := [3]\<rparr>]"

lemma fragment_demo_packet: "fragment_packet v5_core demo_packet 19 = Inr demo_fragments"
  by (simp add: fragment_packet_def encode_demo_packet [unfolded demo_packet_def] demo_fragments_def
      demo_packet_def checked_sub_def opt_filter_def div_ceil_def chunks.simps)

theorem tuic_fragment_packet_witness:
  "fragment_packet v5_core demo_packet 19 = Inr demo_fragments \<and>
   fragments_of demo_packet demo_fragments \<and>
   list_all (\<lambda>f. \<exists>bs. encode_packet v5_core f = Inr bs \<and> length bs \<le> 19) demo_fragments"
proof -
  have "pk_frag_total demo_packet = 1" by (simp add: demo_packet_def)
  then show ?thesis
    using tuic_fragment_packet [OF tuic_v5_core demo_packet_valid _ fragment_demo_packet]
      fragment_demo_packet by simp
qed

end
