(* ===== verification/Tuic_Reassembly.thy ===== *)
theory Tuic_Reassembly
  imports Tuic_Codec "HOL-Library.Multiset"
begin

text \<open>
  Correctness of \<open>PacketAssembler\<close> of \<open>protocol/tuic/codec.rs\<close>: an invariant of its groups under
  which a complete group is always joined, and the reassembly of a packet from its fragments in any
  order, interleaved with other traffic.
\<close>

section \<open>The groups of an assembler\<close>

abbreviation packet_key :: "packet \<Rightarrow> u16 \<times> u16" where
  "packet_key p \<equiv> (pk_assoc_id p, pk_pkt_id p)"

definition group_ok :: "u16 \<times> u16 \<Rightarrow> fragmented_packet \<Rightarrow> bool" where
  "group_ok key g \<longleftrightarrow> key = (fp_assoc_id g, fp_pkt_id g) \<and>
     (\<forall>i. fmlookup (fp_fragments g) i \<noteq> None \<longrightarrow> i < fp_frag_total g)"

definition assembler_ok :: "packet_assembler \<Rightarrow> bool" where
  "assembler_ok asm \<longleftrightarrow> (\<forall>key g. fmlookup asm key = Some g \<longrightarrow> group_ok key g)"

lemma join_fragments_all:
  assumes "distinct ids" "\<And>i. i \<in> set ids \<Longrightarrow> fmlookup fr i \<noteq> None"
  shows "fst (join_fragments ids fr acc) = Some (acc @ concat (map (\<lambda>i. the (fmlookup fr i)) ids))"
  using assms
proof (induction ids arbitrary: fr acc)
  case (Cons i ids)
  then obtain f where f: "fmlookup fr i = Some f" by fastforce
  have eq: "map (\<lambda>j. the (fmlookup (fmdrop i fr) j)) ids = map (\<lambda>j. the (fmlookup fr j)) ids"
    using Cons.prems(1) by auto
  have "fst (join_fragments ids (fmdrop i fr) (acc @ f)) =
      Some ((acc @ f) @ concat (map (\<lambda>j. the (fmlookup (fmdrop i fr) j)) ids))"
    using Cons.prems by (intro Cons.IH) auto
  then show ?case unfolding eq by (simp add: f)
qed simp

lemma u8_below: "i < n \<longleftrightarrow> i \<in> set (map of_nat [0..<unat (n :: u8)])"
proof
  assume "i < n"
  then have "unat i < unat n" by (simp add: word_less_nat_alt)
  then show "i \<in> set (map of_nat [0..<unat n])" by (auto intro!: image_eqI [of _ _ "unat i"])
next
  assume "i \<in> set (map of_nat [0..<unat n])"
  then obtain k where "i = of_nat k" "k < unat n" by auto
  then show "i < n" using unat_u8_less [of n] by (simp add: word_less_nat_alt unat_of_nat_u8)
qed

lemma distinct_u8_ids: "n \<le> 256 \<Longrightarrow> distinct (map (of_nat :: nat \<Rightarrow> u8) [0..<n])"
  by (auto simp: distinct_map inj_on_def) (metis (no_types, lifting) less_le_trans mod_less unat_of_nat_u8)

text \<open>A group whose fragments are as many as its total has every fragment.\<close>

lemma group_complete:
  assumes "group_ok key g" "fm_len (fp_fragments g) = unat (fp_frag_total g)" "i < fp_frag_total g"
  shows "fmlookup (fp_fragments g) i \<noteq> None"
proof -
  let ?ids = "set (map (of_nat :: nat \<Rightarrow> u8) [0..<unat (fp_frag_total g)])"
  have sub: "fset (fmdom (fp_fragments g)) \<subseteq> ?ids"
    using assms(1) u8_below unfolding group_ok_def by (metis fmdomE option.distinct(1) subsetI)
  have "card ?ids = unat (fp_frag_total g)"
    using distinct_card [OF distinct_u8_ids [of "unat (fp_frag_total g)"]] unat_u8_less [of "fp_frag_total g"]
    by simp
  with assms(2) have "fset (fmdom (fp_fragments g)) = ?ids"
    by (intro card_subset_eq sub) (simp_all add: fm_len_def fcard.rep_eq)
  with assms(3) u8_below show ?thesis by (metis fmdom_notD fmdom_notI)
qed

section \<open>One fragment\<close>

definition group_of :: "packet_assembler \<Rightarrow> packet \<Rightarrow> instant \<Rightarrow> fragmented_packet" where
  "group_of asm p now = (case fmlookup asm (packet_key p) of
      Some g \<Rightarrow> g
    | None \<Rightarrow> \<lparr>fp_assoc_id = pk_assoc_id p, fp_pkt_id = pk_pkt_id p, fp_frag_total = pk_frag_total p,
               fp_target = None, fp_last_used = now, fp_fragments = fmempty\<rparr>)"

definition add_fragment :: "packet \<Rightarrow> instant \<Rightarrow> fragmented_packet \<Rightarrow> fragmented_packet" where
  "add_fragment p now g = g\<lparr>fp_last_used := now,
     fp_target := (if pk_frag_id p = 0 then pk_target p else fp_target g),
     fp_fragments := fmupd (pk_frag_id p) (pk_payload p) (fp_fragments g)\<rparr>"

definition joined :: "fragmented_packet \<Rightarrow> bytes" where
  "joined g = concat (map (\<lambda>i. the (fmlookup (fp_fragments g) i))
     (map of_nat [0..<unat (fp_frag_total g)]))"

lemma group_of_ok: "assembler_ok asm \<Longrightarrow> group_ok (packet_key p) (group_of asm p now)"
  by (auto simp: assembler_ok_def group_of_def group_ok_def split: option.splits)

lemma add_fragment_ok:
  assumes "group_ok key g" "pk_frag_id p < fp_frag_total g"
  shows "group_ok key (add_fragment p now g)"
  using assms by (auto simp: group_ok_def add_fragment_def)

text \<open>Under the invariant a push has three outcomes; the loop never meets a missing fragment.\<close>

lemma push_at_cases:
  fixes now :: instant
  assumes "assembler_ok asm" "pk_frag_id p < pk_frag_total p" "pk_frag_total p \<noteq> 1"
  defines "g \<equiv> group_of asm p now" and "g' \<equiv> add_fragment p now (group_of asm p now)"
  shows "push_at asm p now =
    (if fp_frag_total g \<noteq> pk_frag_total p then
       (Inl (Bail ''fragment total changed within packet''), fmupd (packet_key p) g asm)
     else
       (case fp_target g' of
          Some t \<Rightarrow>
            if fm_len (fp_fragments g') = unat (fp_frag_total g') then
              (Inr (Some \<lparr>pk_assoc_id = pk_assoc_id p, pk_pkt_id = pk_pkt_id p, pk_frag_total = 1,
                 pk_frag_id = 0, pk_target = Some t, pk_payload = joined g'\<rparr>),
               fmdrop (packet_key p) asm)
            else (Inr None, fmupd (packet_key p) g' asm)
        | None \<Rightarrow> (Inr None, fmupd (packet_key p) g' asm)))"
proof (cases "fp_frag_total g \<noteq> pk_frag_total p")
  case True
  then show ?thesis using assms(3) by (simp add: push_at_def g_def group_of_def Let_def split: option.splits)
next
  case same: False
  have ok: "group_ok (packet_key p) g" unfolding g_def using assms(1) by (rule group_of_ok)
  then have ok': "group_ok (packet_key p) g'"
    unfolding g'_def g_def using add_fragment_ok assms(2) same g_def by metis
  have entry: "g' = (let e = g\<lparr>fp_last_used := now\<rparr>;
      e = (if pk_frag_id p = 0 then e\<lparr>fp_target := pk_target p\<rparr> else e) in
      e\<lparr>fp_fragments := fmupd (pk_frag_id p) (pk_payload p) (fp_fragments e)\<rparr>)"
    by (simp add: g'_def g_def add_fragment_def Let_def)
  have keys: "fp_assoc_id g' = pk_assoc_id p" "fp_pkt_id g' = pk_pkt_id p"
    using ok' by (simp_all add: group_ok_def)
  have joined: "fst (join_fragments (map of_nat [0..<unat (fp_frag_total g')]) (fp_fragments g') []) =
      Some (joined g')" if "fm_len (fp_fragments g') = unat (fp_frag_total g')"
    unfolding joined_def
    using join_fragments_all [OF distinct_u8_ids, of "unat (fp_frag_total g')" "fp_fragments g'" "[]"]
      group_complete [OF ok' that] u8_below [of _ "fp_frag_total g'"] unat_u8_less [of "fp_frag_total g'"]
    by (simp del: set_map set_upt)
  have push: "push_at asm p now =
      (if fm_len (fp_fragments g') \<noteq> unat (fp_frag_total g') then (Inr None, fmupd (packet_key p) g' asm)
       else
         (case fp_target g' of
            None \<Rightarrow> (Inr None, fmupd (packet_key p) g' asm)
          | Some t \<Rightarrow>
              (case join_fragments (map of_nat [0..<unat (fp_frag_total g')]) (fp_fragments g') [] of
                 (None, fr) \<Rightarrow> (Inr None, fmupd (packet_key p) (g'\<lparr>fp_fragments := fr\<rparr>) asm)
               | (Some payload, _) \<Rightarrow>
                   (Inr (Some \<lparr>pk_assoc_id = fp_assoc_id g', pk_pkt_id = fp_pkt_id g',
                      pk_frag_total = 1, pk_frag_id = 0, pk_target = Some t, pk_payload = payload\<rparr>),
                    fmdrop (packet_key p) asm))))"
    using assms(3) same unfolding entry push_at_def g_def group_of_def Let_def by simp
  show ?thesis
    using same joined keys unfolding push
    by (auto split: option.splits prod.splits)
qed

lemma push_at_other:
  "packet_key q \<noteq> key \<or> pk_frag_total q = 1 \<Longrightarrow>
   fmlookup (snd (push_at asm q now)) key = fmlookup asm key"
  unfolding push_at_def Let_def by (auto split: option.splits prod.splits)

lemma assembler_ok_evict: "assembler_ok asm \<Longrightarrow> assembler_ok (evict_idle now timeout asm)"
  by (simp add: assembler_ok_def assembler.evict_Some_iff)

lemma assembler_ok_upd: "assembler_ok asm \<Longrightarrow> group_ok key g \<Longrightarrow> assembler_ok (fmupd key g asm)"
  by (auto simp: assembler_ok_def split: if_splits)

lemma assembler_ok_drop: "assembler_ok asm \<Longrightarrow> assembler_ok (fmdrop key asm)"
  by (auto simp: assembler_ok_def split: if_splits)

lemma push_at_ok:
  assumes "assembler_ok asm" "pk_frag_id p < pk_frag_total p"
  shows "assembler_ok (snd (push_at asm p now))"
proof (cases "pk_frag_total p = 1")
  case True
  then show ?thesis using assms(1) by (simp add: push_at_def)
next
  case False
  note ok = group_of_ok [OF assms(1), of p now]
  show ?thesis
    unfolding push_at_cases [OF assms False]
    using assms ok add_fragment_ok [OF ok, of p now]
    by (auto simp: assembler_ok_upd assembler_ok_drop split: option.splits)
qed

lemma push_ok:
  "assembler_ok asm \<Longrightarrow> pk_frag_id p < pk_frag_total p \<Longrightarrow> assembler_ok (snd (push asm p now))"
  by (simp add: push_def push_at_ok assembler_ok_evict)

text \<open>The assembler loses no fragment. From a well-formed assembler every push of a parsed
  fragment gives a well-formed one, and when it answers that the packet is not complete yet, the
  fragment is stored and the fragments its group already had are still there.\<close>

theorem tuic_push_keeps_fragments:
  assumes "assembler_ok asm" and "pk_frag_id p < pk_frag_total p"
    and "push asm p now = (Inr None, asm')"
  shows "assembler_ok asm' \<and>
    (\<exists>g. fmlookup asm' (packet_key p) = Some g \<and>
       fmlookup (fp_fragments g) (pk_frag_id p) = Some (pk_payload p) \<and>
       (\<forall>old i. fmlookup (evict_idle now FRAGMENT_IDLE_TIMEOUT asm) (packet_key p) = Some old \<longrightarrow>
          i \<noteq> pk_frag_id p \<longrightarrow> fmlookup (fp_fragments g) i = fmlookup (fp_fragments old) i))"
proof -
  let ?asm = "evict_idle now FRAGMENT_IDLE_TIMEOUT asm"
  have multi: "pk_frag_total p \<noteq> 1" using assms(3) by (auto simp: push_def push_at_def split: if_splits)
  let ?g = "add_fragment p now (group_of ?asm p now)"
  have "asm' = fmupd (packet_key p) ?g ?asm"
    using assms(3) unfolding push_def push_at_cases [OF assembler_ok_evict [OF assms(1)] assms(2) multi]
    by (auto split: if_splits option.splits)
  moreover have "assembler_ok asm'" using push_ok [OF assms(1,2), of now] assms(3) by simp
  ultimately show ?thesis by (simp add: add_fragment_def group_of_def)
qed

section \<open>Reassembly in any order\<close>

fun push_all ::
    "packet_assembler \<Rightarrow> (packet \<times> instant) list \<Rightarrow> packet option res list \<times> packet_assembler" where
  "push_all asm [] = ([], asm)"
| "push_all asm ((p, now) # evs) =
     (let (r, asm') = push asm p now; (rs, asm'') = push_all asm' evs in (r # rs, asm''))"

definition of_group :: "packet \<Rightarrow> packet \<Rightarrow> bool" where
  "of_group p q \<longleftrightarrow> pk_frag_total q \<noteq> 1 \<and> packet_key q = packet_key p"

text \<open>A group that has collected the fragments of \<open>p\<close> with the indices \<open>S\<close>.\<close>

definition collected :: "packet \<Rightarrow> packet list \<Rightarrow> nat set \<Rightarrow> fragmented_packet \<Rightarrow> bool" where
  "collected p fs S g \<longleftrightarrow> fp_frag_total g = of_nat (length fs) \<and>
     fp_target g = (if 0 \<in> S then pk_target p else None) \<and>
     (\<forall>i. fmlookup (fp_fragments g) i = (if unat i \<in> S then Some (pk_payload (fs ! unat i)) else None))"

definition holds :: "packet \<Rightarrow> packet list \<Rightarrow> instant \<Rightarrow> nat set \<Rightarrow> packet_assembler \<Rightarrow> bool" where
  "holds p fs t0 S asm \<longleftrightarrow> assembler_ok asm \<and>
     (case fmlookup asm (packet_key p) of
        None \<Rightarrow> S = {}
      | Some g \<Rightarrow> S \<noteq> {} \<and> collected p fs S g \<and> t0 \<le> fp_last_used g)"

lemma holds_evict:
  assumes "holds p fs t0 S asm" "now < t0 + timeout" "0 < timeout"
  shows "holds p fs t0 S (evict_idle now timeout asm)"
  using assms assembler.evict_fresh [of asm "packet_key p" _ now timeout]
  by (auto simp: holds_def assembler_ok_evict assembler.evict_spec opt_filter_def
      saturating_duration_since_def split: option.splits)

lemma push_other_holds:
  assumes "holds p fs t0 S asm" "\<not> of_group p q" "pk_frag_id q < pk_frag_total q"
    and "now < t0 + FRAGMENT_IDLE_TIMEOUT"
  shows "holds p fs t0 S (snd (push asm q now))"
proof -
  have h: "holds p fs t0 S (evict_idle now FRAGMENT_IDLE_TIMEOUT asm)"
    using assms(1,4) by (rule holds_evict) (simp add: FRAGMENT_IDLE_TIMEOUT_def from_secs_def)
  moreover have "packet_key q \<noteq> packet_key p \<or> pk_frag_total q = 1"
    using assms(2) by (auto simp: of_group_def)
  ultimately show ?thesis
    using assms(3) push_at_other push_at_ok by (simp add: holds_def push_def)
qed

lemma fragments_nth:
  assumes "fragments_of p fs" "i < length fs"
  shows "packet_key (fs ! i) = packet_key p" "pk_frag_total (fs ! i) = of_nat (length fs)"
    "unat (pk_frag_id (fs ! i)) = i" "pk_frag_id (fs ! i) = 0 \<longleftrightarrow> i = 0"
    "pk_target (fs ! i) = (if i = 0 then pk_target p else None)"
    "pk_frag_id (fs ! i) < pk_frag_total (fs ! i)"
proof -
  have f: "fs ! i = p\<lparr>pk_frag_total := of_nat (length fs), pk_frag_id := of_nat i,
      pk_target := (if i = 0 then pk_target p else None), pk_payload := pk_payload (fs ! i)\<rparr>"
    and n: "length fs \<le> 255"
    using assms by (auto simp: fragments_of_def)
  show "packet_key (fs ! i) = packet_key p" "pk_frag_total (fs ! i) = of_nat (length fs)"
    "pk_target (fs ! i) = (if i = 0 then pk_target p else None)"
    by (subst f; simp)+
  have id: "pk_frag_id (fs ! i) = of_nat i" "pk_frag_total (fs ! i) = of_nat (length fs)"
    by (subst f; simp)+
  then show u: "unat (pk_frag_id (fs ! i)) = i" using assms(2) n by (simp add: unat_of_nat_u8)
  show "pk_frag_id (fs ! i) = 0 \<longleftrightarrow> i = 0" using u unsigned_eq_0_iff by metis
  show "pk_frag_id (fs ! i) < pk_frag_total (fs ! i)"
    using id u assms(2) n by (simp add: word_less_nat_alt unat_of_nat_u8)
qed

lemma collected_len:
  assumes "collected p fs S g" "S \<subseteq> {..<length fs}" "length fs \<le> 255"
  shows "fm_len (fp_fragments g) = card S"
proof -
  have "fset (fmdom (fp_fragments g)) = {i. unat i \<in> S}"
    using assms(1) by (auto simp: collected_def fmlookup_dom_iff split: if_splits)
  moreover have "unat ` {i :: u8. unat i \<in> S} = S"
  proof -
    have "k \<in> unat ` {i :: u8. unat i \<in> S}" if "k \<in> S" for k
      using that assms(2,3) by (intro image_eqI [of _ _ "of_nat k"]) (auto simp: unat_of_nat_u8)
    then show ?thesis by auto
  qed
  moreover have "inj_on unat {i :: u8. unat i \<in> S}" by (simp add: inj_on_def word_unat_eq_iff)
  ultimately show ?thesis by (metis card_image fcard.rep_eq fm_len_def)
qed

lemma add_collected:
  assumes "fragments_of p fs" "i < length fs" "collected p fs S g"
  shows "collected p fs (insert i S) (add_fragment (fs ! i) now g)"
proof -
  note f = fragments_nth [OF assms(1,2)]
  have "unat k = i \<longleftrightarrow> k = pk_frag_id (fs ! i)" for k
    using f(3) by (auto simp: word_unat_eq_iff)
  with assms(3) f(2,4,5) show ?thesis by (auto simp: collected_def add_fragment_def f(3))
qed

lemma group_of_collected:
  assumes "fragments_of p fs" "i < length fs" "holds p fs t0 S asm"
  shows "collected p fs S (group_of asm (fs ! i) now)"
  using assms(3) fragments_nth(1,2) [OF assms(1,2)]
  by (auto simp: holds_def group_of_def collected_def split: option.splits)

lemma joined_all:
  assumes "fragments_of p fs" "collected p fs {..<length fs} g"
  shows "joined g = pk_payload p"
proof -
  have n: "length fs \<le> 255" and c: "concat (map pk_payload fs) = pk_payload p"
    using assms(1) by (simp_all add: fragments_of_def)
  have "map (\<lambda>i. the (fmlookup (fp_fragments g) i)) (map of_nat [0..<length fs]) = map pk_payload fs"
    using assms(2) n by (auto simp: collected_def unat_of_nat_u8 intro!: nth_equalityI)
  moreover have "unat (fp_frag_total g) = length fs"
    using assms(2) n by (simp add: collected_def unat_of_nat_u8)
  ultimately show ?thesis unfolding joined_def using c by simp
qed

lemma push_fragment:
  assumes "fragments_of p fs" "2 \<le> length fs" "pk_frag_total p = 1" "pk_frag_id p = 0"
    and "pk_target p = Some t" "holds p fs t0 S asm" "S \<subseteq> {..<length fs}" "i < length fs" "i \<notin> S"
    and "t0 \<le> now" "now < t0 + FRAGMENT_IDLE_TIMEOUT"
  shows "if insert i S = {..<length fs}
    then fst (push asm (fs ! i) now) = Inr (Some p) \<and>
      holds p fs t0 {} (snd (push asm (fs ! i) now))
    else fst (push asm (fs ! i) now) = Inr None \<and>
      holds p fs t0 (insert i S) (snd (push asm (fs ! i) now))"
proof -
  let ?asm = "evict_idle now FRAGMENT_IDLE_TIMEOUT asm"
  let ?g = "group_of ?asm (fs ! i) now"
  let ?g' = "add_fragment (fs ! i) now ?g"
  note f = fragments_nth [OF assms(1,8)]
  have n: "length fs \<le> 255" using assms(1) by (simp add: fragments_of_def)
  have total: "unat (of_nat (length fs) :: u8) = length fs" using n by (simp add: unat_of_nat_u8)
  then have multi: "pk_frag_total (fs ! i) \<noteq> 1" using f(2) assms(2) by auto
  have h: "holds p fs t0 S ?asm"
    using assms(6,11) by (rule holds_evict) (simp add: FRAGMENT_IDLE_TIMEOUT_def from_secs_def)
  then have ok: "assembler_ok ?asm" by (simp add: holds_def)
  have g: "collected p fs S ?g" using group_of_collected [OF assms(1,8) h] .
  have g': "collected p fs (insert i S) ?g'" using add_collected [OF assms(1,8) g] .
  have len: "fm_len (fp_fragments ?g') = card (insert i S)"
    by (rule collected_len [OF g' _ n]) (use assms(7,8) in simp)
  have tot: "fp_frag_total ?g = pk_frag_total (fs ! i)" "unat (fp_frag_total ?g') = length fs"
    using g g' total f(2) by (simp_all add: collected_def)
  have complete: "card (insert i S) = length fs \<longleftrightarrow> insert i S = {..<length fs}"
    using card_subset_eq [of "{..<length fs}" "insert i S"] assms(7,8) by auto
  have used: "fp_last_used ?g' = now" by (simp add: add_fragment_def)
  note push = push_at_cases [OF ok f(6) multi, of now]
  show ?thesis
  proof (cases "insert i S = {..<length fs}")
    case True
    have "fp_target ?g' = Some t" using g' True assms(2,5) by (auto simp: collected_def)
    moreover have "joined ?g' = pk_payload p" using joined_all [OF assms(1)] g' True by simp
    ultimately have "push asm (fs ! i) now = (Inr (Some p), fmdrop (packet_key p) ?asm)"
      using push tot len complete True f(1) assms(3-5) by (simp add: push_def)
    with True ok show ?thesis by (simp add: holds_def assembler_ok_drop)
  next
    case False
    have "push asm (fs ! i) now = (Inr None, fmupd (packet_key p) ?g' ?asm)"
      using push tot len complete False f(1) by (simp add: push_def split: option.split)
    moreover have "assembler_ok (snd (push asm (fs ! i) now))"
      using push_ok [OF _ f(6)] assms(6) by (simp add: holds_def)
    ultimately show ?thesis using False g' used assms(10) by (simp add: holds_def)
  qed
qed

text \<open>The answers to the events that belong to the group of \<open>p\<close>, in order.\<close>

definition group_results ::
    "packet \<Rightarrow> packet_assembler \<Rightarrow> (packet \<times> instant) list \<Rightarrow> packet option res list" where
  "group_results p asm evs =
     map snd (filter (\<lambda>((q, _), _). of_group p q) (zip evs (fst (push_all asm evs))))"

lemma group_results_Cons:
  "group_results p asm ((q, now) # evs) =
     (if of_group p q then [fst (push asm q now)] else []) @ group_results p (snd (push asm q now)) evs"
  by (simp add: group_results_def split: prod.split)

lemma push_all_Cons:
  "snd (push_all asm ((q, now) # evs)) = snd (push_all (snd (push asm q now)) evs)"
  by (simp split: prod.split)

lemma no_group_events:
  assumes "holds p fs t0 {} asm" "\<forall>(q, now) \<in> set evs. \<not> of_group p q \<and>
      pk_frag_id q < pk_frag_total q \<and> now < t0 + FRAGMENT_IDLE_TIMEOUT"
  shows "group_results p asm evs = [] \<and> fmlookup (snd (push_all asm evs)) (packet_key p) = None"
  using assms
proof (induction evs arbitrary: asm)
  case Nil
  then show ?case by (auto simp: group_results_def holds_def split: option.splits)
next
  case (Cons ev evs)
  obtain q now where ev: "ev = (q, now)" by (cases ev)
  then have "holds p fs t0 {} (snd (push asm q now))"
    using Cons.prems by (intro push_other_holds) auto
  then show ?case
    using Cons.IH Cons.prems ev by (simp add: group_results_Cons push_all_Cons del: push_all.simps)
qed

lemma reassemble_from:
  assumes "fragments_of p fs" "2 \<le> length fs" "pk_frag_total p = 1" "pk_frag_id p = 0"
    and "pk_target p = Some t" "holds p fs t0 S asm" "S \<subset> {..<length fs}"
    and "\<forall>(q, now) \<in> set evs. pk_frag_id q < pk_frag_total q \<and> t0 \<le> now \<and>
      now < t0 + FRAGMENT_IDLE_TIMEOUT"
    and "mset (filter (of_group p) (map fst evs)) = image_mset (nth fs) (mset_set ({..<length fs} - S))"
  shows "group_results p asm evs =
      replicate (length fs - card S - 1) (Inr None) @ [Inr (Some p)] \<and>
    fmlookup (snd (push_all asm evs)) (packet_key p) = None"
  using assms(6-9)
proof (induction evs arbitrary: S asm)
  case Nil
  then have "{..<length fs} - S = {}" by (simp add: mset_set_empty_iff)
  with Nil show ?case by auto
next
  case (Cons ev evs)
  obtain q now where ev: "ev = (q, now)" by (cases ev)
  have now: "pk_frag_id q < pk_frag_total q" "t0 \<le> now" "now < t0 + FRAGMENT_IDLE_TIMEOUT"
    using Cons.prems(3) ev by auto
  show ?case
  proof (cases "of_group p q")
    case False
    then have "holds p fs t0 S (snd (push asm q now))"
      using push_other_holds Cons.prems(1) now by blast
    with False Cons.IH [of S] Cons.prems ev show ?thesis
      by (simp add: group_results_Cons push_all_Cons del: push_all.simps)
  next
    case True
    let ?R = "{..<length fs} - S"
    have "q \<in># image_mset (nth fs) (mset_set ?R)"
    proof -
      have "q \<in># mset (filter (of_group p) (map fst (ev # evs)))" using True ev by simp
      then show ?thesis unfolding Cons.prems(4) .
    qed
    then obtain i where i: "i < length fs" "i \<notin> S" "q = fs ! i" by auto
    have "mset_set ?R = add_mset i (mset_set ({..<length fs} - insert i S))"
    proof -
      have "{..<length fs} - insert i S = ?R - {i}" by blast
      then show ?thesis using i(1,2) mset_set.remove [of ?R i] by simp
    qed
    then have rest: "mset (filter (of_group p) (map fst evs)) =
        image_mset (nth fs) (mset_set ({..<length fs} - insert i S))"
      using Cons.prems(4) True ev i by simp
    have card: "card (insert i S) = Suc (card S)" "card S < length fs"
    proof -
      have "finite S" using Cons.prems(2) finite_subset by blast
      then show "card (insert i S) = Suc (card S)" using i(2) by simp
      show "card S < length fs" using psubset_card_mono [OF _ Cons.prems(2)] by simp
    qed
    have sub: "S \<subseteq> {..<length fs}" using Cons.prems(2) by blast
    note step = push_fragment [OF assms(1-5) Cons.prems(1) sub i(1,2) now(2,3), folded i(3)]
    show ?thesis
    proof (cases "insert i S = {..<length fs}")
      case all: True
      have "\<forall>(q', now') \<in> set evs. \<not> of_group p q'"
        using rest all by (auto simp: filter_empty_conv)
      then have "group_results p (snd (push asm q now)) evs = [] \<and>
          fmlookup (snd (push_all (snd (push asm q now)) evs)) (packet_key p) = None"
        using step all Cons.prems(3) by (intro no_group_events [of p fs t0]) auto
      moreover have "length fs - card S - 1 = 0" using card(1) all by simp
      moreover have "fst (push asm q now) = Inr (Some p)" using step all by simp
      ultimately show ?thesis
        using True ev by (simp add: group_results_Cons push_all_Cons del: push_all.simps)
    next
      case more: False
      have h: "fst (push asm q now) = Inr None" "holds p fs t0 (insert i S) (snd (push asm q now))"
        using step more by simp_all
      have "group_results p (snd (push asm q now)) evs =
          replicate (length fs - card (insert i S) - 1) (Inr None) @ [Inr (Some p)] \<and>
        fmlookup (snd (push_all (snd (push asm q now)) evs)) (packet_key p) = None"
        using Cons.prems(3) sub i(1) more by (intro Cons.IH h rest) auto
      moreover have "length fs - card S - 1 = Suc (length fs - card (insert i S) - 1)"
      proof -
        have "insert i S \<subset> {..<length fs}" using sub i(1) more by auto
        then have "card (insert i S) < length fs" using psubset_card_mono [of "{..<length fs}"] by auto
        with card(1) show ?thesis by linarith
      qed
      ultimately show ?thesis
        using True ev h(1) by (simp add: group_results_Cons push_all_Cons del: push_all.simps)
    qed
  qed
qed

lemma mset_all_fragments: "image_mset (nth fs) (mset_set {..<length fs}) = mset fs"
  by (metis map_nth mset_map mset_set_upto_eq_mset_upto)

lemma reassemble:
  assumes "fragments_of p fs" and "2 \<le> length fs" and "pk_frag_total p = 1" and "pk_frag_id p = 0"
    and "pk_target p = Some t" and "assembler_ok asm" and "fmlookup asm (packet_key p) = None"
    and "mset (filter (of_group p) (map fst evs)) = mset fs"
    and "\<forall>(q, now) \<in> set evs. pk_frag_id q < pk_frag_total q \<and> t0 \<le> now \<and>
      now < t0 + FRAGMENT_IDLE_TIMEOUT"
  shows "group_results p asm evs = replicate (length fs - 1) (Inr None) @ [Inr (Some p)] \<and>
    fmlookup (snd (push_all asm evs)) (packet_key p) = None"
proof -
  have h: "holds p fs t0 {} asm" using assms(6,7) by (simp add: holds_def)
  have "0 < length fs" using assms(2) by linarith
  then have s: "{} \<subset> {..<length fs}" by blast
  have m: "mset (filter (of_group p) (map fst evs)) = image_mset (nth fs) (mset_set ({..<length fs} - {}))"
    using assms(8) unfolding Diff_empty mset_all_fragments .
  show ?thesis
    using reassemble_from [OF assms(1-5) h s assms(9) m] by simp
qed

text \<open>C7: Reassembly. Let the fragments of a packet reach an assembler that has no group for it, in
  any order and interleaved with any other well-formed traffic, within the idle timeout. Then every
  fragment but the last one to arrive is answered with "not complete", the last one with exactly the
  original packet, and the group is gone.\<close>

theorem tuic_reassembly:
  assumes "fragments_of p fs" and "2 \<le> length fs" and "pk_frag_total p = 1" and "pk_frag_id p = 0"
    and "pk_target p = Some t" and "assembler_ok asm" and "fmlookup asm (packet_key p) = None"
    and "mset (filter (of_group p) (map fst evs)) = mset fs"
    and "\<forall>(q, now) \<in> set evs. pk_frag_id q < pk_frag_total q \<and> t0 \<le> now \<and>
      now < t0 + FRAGMENT_IDLE_TIMEOUT"
  shows "group_results p asm evs = replicate (length fs - 1) (Inr None) @ [Inr (Some p)] \<and>
    fmlookup (snd (push_all asm evs)) (packet_key p) = None"
  using assms by (rule reassemble)

theorem tuic_reassembly_witness:
  "group_results demo_packet fmempty
     [(demo_fragments ! 1, 5), ((demo_fragments ! 1)\<lparr>pk_pkt_id := 10\<rparr>, 6), (demo_fragments ! 0, 7)] =
     replicate 1 (Inr None) @ [Inr (Some demo_packet)]"
proof -
  let ?evs = "[(demo_fragments ! 1, 5 :: instant), ((demo_fragments ! 1)\<lparr>pk_pkt_id := 10\<rparr>, 6),
    (demo_fragments ! 0, 7)]"
  have "fragments_of demo_packet demo_fragments"
    by (simp add: fragments_of_def demo_fragments_def demo_packet_def less_Suc_eq)
  moreover have "mset (filter (of_group demo_packet) (map fst ?evs)) = mset demo_fragments"
    by (simp add: of_group_def demo_fragments_def demo_packet_def)
  moreover have "\<forall>(q, now) \<in> set ?evs. pk_frag_id q < pk_frag_total q \<and> 0 \<le> now \<and>
      now < 0 + FRAGMENT_IDLE_TIMEOUT"
    by (simp add: demo_fragments_def FRAGMENT_IDLE_TIMEOUT_def from_secs_def)
  ultimately show ?thesis
    using tuic_reassembly [of demo_packet demo_fragments "TIp (SockV4 0x7F000001 80)" fmempty ?evs 0]
    by (simp add: demo_packet_def demo_fragments_def assembler_ok_def)
qed

section \<open>From the sender to the receiver\<close>

text \<open>The datagrams that arrive, parsed; one that does not parse is dropped by the receiver.\<close>

definition receive :: "tuic_core \<Rightarrow> (bytes \<times> instant) list \<Rightarrow> (packet \<times> instant) list" where
  "receive core ds =
     concat (map (\<lambda>(d, now). case parse_packet core d of Inl _ \<Rightarrow> [] | Inr p \<Rightarrow> [(p, now)]) ds)"

lemma receive_encoded:
  assumes "map (encode_packet core) order = map (\<lambda>(d, _). Inr d) arrivals"
    and "\<And>f d. f \<in> set order \<Longrightarrow> encode_packet core f = Inr d \<Longrightarrow> parse_packet core d = Inr f"
  shows "receive core arrivals = zip order (map snd arrivals)"
  using assms
proof (induction arrivals arbitrary: order)
  case (Cons a arrivals)
  then obtain f fs d now where o: "order = f # fs" "a = (d, now)" "encode_packet core f = Inr d"
    by (cases order; cases a) auto
  then have parse: "parse_packet core d = Inr f" using Cons.prems(2) by simp
  have "receive core arrivals = zip fs (map snd arrivals)" using Cons.prems o by (intro Cons.IH) auto
  with o(1,2) parse show ?case by (simp add: receive_def)
qed (simp add: receive_def)

lemma length_push_all: "length (fst (push_all asm evs)) = length evs"
  by (induction asm evs rule: push_all.induct) (auto split: prod.splits)

lemma group_results_all:
  assumes "\<forall>(q, now) \<in> set evs. of_group p q"
  shows "group_results p asm evs = fst (push_all asm evs)"
proof -
  have "filter (\<lambda>((q, _), _). of_group p q) (zip evs rs) = zip evs rs" for rs :: "packet option res list"
    using assms by (auto simp: filter_id_conv dest: set_zip_leftD)
  then show ?thesis by (simp add: group_results_def length_push_all)
qed

lemma fragment_valid:
  assumes "fragments_of p fs" "packet_valid p" "f \<in> set fs"
  shows "packet_valid f" "pk_target p = Some t \<Longrightarrow> wire_form t = t \<Longrightarrow>
    f\<lparr>pk_target := map_option wire_form (pk_target f)\<rparr> = f" "of_group p f \<longleftrightarrow> pk_frag_total f \<noteq> 1"
    "pk_frag_id f < pk_frag_total f" "pk_frag_total f = of_nat (length fs)"
proof -
  from assms(3) obtain i where i: "i < length fs" "f = fs ! i" by (auto simp: in_set_conv_nth)
  note f = fragments_nth [OF assms(1) i(1), folded i(2)]
  show "packet_valid f" using f(5) assms(2) by (simp add: packet_valid_def)
  show "f\<lparr>pk_target := map_option wire_form (pk_target f)\<rparr> = f" if "pk_target p = Some t" "wire_form t = t"
    using f(5) that by (simp split: if_splits)
  show "of_group p f \<longleftrightarrow> pk_frag_total f \<noteq> 1" using f(1) by (simp add: of_group_def)
  show "pk_frag_id f < pk_frag_total f" "pk_frag_total f = of_nat (length fs)" by (fact f)+
qed

text \<open>C3: Sending a packet over datagrams works end to end. The packet is split for the datagram
  limit, its fragments are encoded, the datagrams arrive in any order within the idle timeout, are
  parsed and pushed: the assembler then delivers exactly the packet that was sent, once.\<close>

theorem tuic_udp_end_to_end:
  assumes "tuic_v5 core" and "packet_valid p" and "pk_frag_total p = 1" and "pk_frag_id p = 0"
    and "pk_target p = Some t" and "wire_form t = t"
    and "fragment_packet core p max_size = Inr fs" and "2 \<le> length fs"
    and "mset order = mset fs"
    and "map (encode_packet core) order = map (\<lambda>(d, _). Inr d) arrivals"
    and "\<forall>(_, now) \<in> set arrivals. t0 \<le> now \<and> now < t0 + FRAGMENT_IDLE_TIMEOUT"
  shows "fst (push_all fmempty (receive core arrivals)) =
    replicate (length fs - 1) (Inr None) @ [Inr (Some p)]"
proof -
  let ?evs = "zip order (map snd arrivals)"
  have frags: "fragments_of p fs" using fragment_packet_correct [OF assms(1-3,7)] by blast
  have order: "set order = set fs" using assms(9) by (rule mset_eq_setD)
  note valid = fragment_valid [OF frags assms(2)]
  have "parse_packet core d = Inr f" if "f \<in> set order" "encode_packet core f = Inr d" for f d
    using packet_decodes [OF assms(1) valid(1) that(2), of "[]"] valid(2) [OF _ assms(5,6)] that(1) order
    by simp
  then have recv: "receive core arrivals = ?evs" using receive_encoded assms(10) by blast
  have len: "length order = length arrivals" using assms(10) by (metis length_map)
  have multi: "of_group p f" if "f \<in> set fs" for f
  proof -
    have "unat (pk_frag_total f) = length fs"
      using valid(5) that frags by (simp add: fragments_of_def unat_of_nat_u8)
    then show ?thesis using valid(3) [OF that] assms(8) by auto
  qed
  have grp: "\<forall>(q, now) \<in> set ?evs. of_group p q" using multi order by (auto dest: set_zip_leftD)
  have "map fst ?evs = order" using len by simp
  then have "mset (filter (of_group p) (map fst ?evs)) = mset fs"
    using multi order assms(9) by (simp add: filter_id_conv)
  moreover have "\<forall>(q, now) \<in> set ?evs. pk_frag_id q < pk_frag_total q \<and> t0 \<le> now \<and>
      now < t0 + FRAGMENT_IDLE_TIMEOUT"
  proof (intro ballI, clarify)
    fix q now
    assume z: "(q, now) \<in> set ?evs"
    have "q \<in> set fs" using set_zip_leftD [OF z] order by simp
    moreover have "now \<in> snd ` set arrivals" using set_zip_rightD [OF z] by simp
    ultimately show "pk_frag_id q < pk_frag_total q \<and> t0 \<le> now \<and> now < t0 + FRAGMENT_IDLE_TIMEOUT"
      using valid(4) assms(11) by auto
  qed
  moreover have "assembler_ok fmempty" "fmlookup fmempty (packet_key p) = (None :: fragmented_packet option)"
    by (simp_all add: assembler_ok_def)
  ultimately have "group_results p fmempty ?evs = replicate (length fs - 1) (Inr None) @ [Inr (Some p)]"
    using reassemble [OF frags assms(8,3,4,5)] by blast
  with group_results_all [OF grp] recv show ?thesis by simp
qed

theorem tuic_udp_end_to_end_witness:
  "fragment_packet v5_core demo_packet 19 = Inr demo_fragments \<and>
   fst (push_all fmempty (receive v5_core
     [([5, 2, 0, 7, 0, 9, 2, 1, 0, 1, 0xff, 3], 5),
      ([5, 2, 0, 7, 0, 9, 2, 0, 0, 2, 1, 127, 0, 0, 1, 0, 80, 1, 2], 6)])) =
     replicate 1 (Inr None) @ [Inr (Some demo_packet)]"
proof -
  let ?arr = "[([5, 2, 0, 7, 0, 9, 2, 1, 0, 1, 0xff, 3], 5 :: instant),
      ([5, 2, 0, 7, 0, 9, 2, 0, 0, 2, 1, 127, 0, 0, 1, 0, 80, 1, 2], 6)]"
  have frag: "fragment_packet v5_core demo_packet 19 = Inr demo_fragments"
    by (rule fragment_demo_packet)
  have enc: "map (encode_packet v5_core) (rev demo_fragments) = map (\<lambda>(d, _). Inr d) ?arr"
    by (simp add: demo_fragments_def demo_packet_def encode_packet_def marshal_header_def v5_core_def
        eval_simps)
  have times: "\<forall>(_, now) \<in> set ?arr. 0 \<le> now \<and> now < 0 + FRAGMENT_IDLE_TIMEOUT"
    by (simp add: FRAGMENT_IDLE_TIMEOUT_def from_secs_def)
  have "pk_frag_total demo_packet = 1" "pk_frag_id demo_packet = 0"
      "pk_target demo_packet = Some (TIp (SockV4 0x7F000001 80))" "2 \<le> length demo_fragments"
      "length demo_fragments - 1 = 1"
    by (simp_all add: demo_packet_def demo_fragments_def)
  then show ?thesis
    using tuic_udp_end_to_end [OF tuic_v5_core demo_packet_valid _ _ _ _ frag _ _ enc times] frag by simp
qed

end
