(* ===== verification/Tuic_Inbound.thy ===== *)
theory Tuic_Inbound
  imports Tuic_Codec Config
begin

text \<open>
  The TUIC inbound, \<open>protocol/tuic/inbound.rs\<close>: the state \<open>tuic_app\<close> of one QUIC connection,
  its handlers for streams and datagrams, the queue of writes, and the tasks that relay a stream or
  an association. The QUIC library is outside: what its calls return is an argument of the
  definitions. All readings of the clock within one call of a handler agree.
\<close>

section \<open>State\<close>

definition UDP_SESSION_IDLE_TIMEOUT :: duration where
  "UDP_SESSION_IDLE_TIMEOUT = from_secs (5 * 60)"

definition UDP_SESSION_CLEANUP_INTERVAL :: duration where
  "UDP_SESSION_CLEANUP_INTERVAL = from_secs 30"

definition CHANNEL_CAPACITY :: usize where
  "CHANNEL_CAPACITY = 32"

definition UDP_CHANNEL_CAPACITY :: usize where
  "UDP_CHANNEL_CAPACITY = 128"

definition AUTHENTICATION_TIMEOUT :: duration where
  "AUTHENTICATION_TIMEOUT = from_secs 10"

definition MAX_PRE_AUTH_BYTES :: usize where
  "MAX_PRE_AUTH_BYTES = 256 * 1024"

definition MAX_PRE_AUTH_ITEMS :: usize where
  "MAX_PRE_AUTH_ITEMS = 256"

text \<open>A bounded channel, whose receiver may have been dropped.\<close>

record 'a channel =
  ch_queue :: "'a list"
  ch_capacity :: usize
  ch_closed :: bool

definition ch_new :: "usize \<Rightarrow> 'a channel" where
  "ch_new capacity = \<lparr>ch_queue = [], ch_capacity = capacity, ch_closed = False\<rparr>"

definition try_send :: "'a channel \<Rightarrow> 'a \<Rightarrow> 'a channel res" where
  "try_send ch x =
     (if ch_closed ch then Inl (Bail ''channel closed'')
      else if ch_capacity ch \<le> length (ch_queue ch) then Inl (Bail ''no available capacity'')
      else Inr (ch\<lparr>ch_queue := ch_queue ch @ [x]\<rparr>))"

record tuic_user =
  tu_name :: string
  tu_uuid :: uuid
  tu_password :: string

text \<open>\<open>parse_uuid\<close> stands for \<open>Uuid::parse_str\<close>.\<close>

fun parse_users :: "(string \<Rightarrow> uuid res) \<Rightarrow> user_config list \<Rightarrow> tuic_user list res" where
  "parse_users parse_uuid [] = Inr []"
| "parse_users parse_uuid (user # users) =
     and_then (ok_or (uc_uuid user) (Bail ''tuic user requires uuid'')) (\<lambda>uuid.
     and_then (parse_uuid uuid) (\<lambda>uuid.
     and_then (parse_users parse_uuid users) (\<lambda>rest.
     Inr (\<lparr>tu_name = uc_username user, tu_uuid = uuid, tu_password = uc_password user\<rparr> # rest))))"

record stream_state =
  client_tx :: "bytes channel"

datatype uni_stream_state = Receiving bytes | Authenticated

record pending_stream =
  ps_data :: bytes
  ps_fin :: bool

record udp_request =
  ur_target :: target_addr
  ur_payload :: bytes

datatype udp_mode = Native | Quic

record udp_session =
  ud_tx :: "udp_request channel"
  ud_mode :: udp_mode
  ud_last_used :: instant

datatype quic_write =
    Data u64 bytes bool
  | Datagram "u16 option" bytes
  | UniStream "u16 option" "u64 option" bytes
  | Close u64

text \<open>
  The last two fields record the tasks that the connection has started: a relay for a stream, with
  its session and initial data, and a relay for an association.
\<close>

record tuic_app =
  app_inbound :: string
  app_users :: "tuic_user list"
  authenticated :: bool
  authentication_deadline :: instant
  pre_auth_bytes :: usize
  pre_auth_items :: usize
  app_username :: "string option"
  uni_streams :: "(u64, uni_stream_state) fmap"
  pending_uni_commands :: "bytes list"
  pending_datagrams :: "bytes list"
  pending_streams :: "(u64, pending_stream) fmap"
  app_streams :: "(u64, stream_state) fmap"
  udp_sessions :: "(u16, udp_session) fmap"
  app_assembler :: packet_assembler
  next_udp_cleanup :: instant
  next_uni_stream_id :: u64
  outbound_rx :: "quic_write list"
  pending_writes :: "quic_write list"
  app_relays :: "(u64 \<times> session \<times> bytes) list"
  app_udp_relays :: "(u16 \<times> udp_mode) list"

definition tuic_app_new :: "string \<Rightarrow> tuic_user list \<Rightarrow> instant \<Rightarrow> tuic_app" where
  "tuic_app_new inbound users now =
     \<lparr>app_inbound = inbound, app_users = users, authenticated = False,
      authentication_deadline = now + AUTHENTICATION_TIMEOUT, pre_auth_bytes = 0, pre_auth_items = 0,
      app_username = None, uni_streams = fmempty, pending_uni_commands = [], pending_datagrams = [],
      pending_streams = fmempty, app_streams = fmempty, udp_sessions = fmempty, app_assembler = fmempty,
      next_udp_cleanup = now + UDP_SESSION_CLEANUP_INTERVAL, next_uni_stream_id = 3, outbound_rx = [],
      pending_writes = [], app_relays = [], app_udp_relays = []\<rparr>"

text \<open>
  What the handlers take from elsewhere: the command codec, the keying material of the connection, and
  the order in which \<open>HashMap::into_iter\<close> lists a map.
\<close>

record tuic_env =
  env_core :: tuic_core
  env_exporter :: "usize \<Rightarrow> bytes \<Rightarrow> bytes \<Rightarrow> bytes option"
  env_into_iter :: "(u64, pending_stream) fmap \<Rightarrow> (u64 \<times> pending_stream) list"

section \<open>Handlers\<close>

definition check_authentication_deadline :: "instant \<Rightarrow> (tuic_app, unit) sm" where
  "check_authentication_deadline now app =
     (if \<not> authenticated app \<and> authentication_deadline app \<le> now
      then (Inl (Bail ''tuic authentication timed out''), app) else (Inr (), app))"

definition reserve_pre_auth :: "instant \<Rightarrow> usize \<Rightarrow> usize \<Rightarrow> (tuic_app, unit) sm" where
  "reserve_pre_auth now n items =
     sm_bind (check_authentication_deadline now) (\<lambda>_ app.
     if authenticated app then (Inr (), app)
     else if n > MAX_PRE_AUTH_BYTES - pre_auth_bytes app \<or>
       items > MAX_PRE_AUTH_ITEMS - pre_auth_items app
     then (Inl (Bail ''tuic unauthenticated buffer limit exceeded''), app)
     else (Inr (), app\<lparr>pre_auth_bytes := pre_auth_bytes app + n,
                       pre_auth_items := pre_auth_items app + items\<rparr>))"

definition handle_stream_data ::
    "tuic_env \<Rightarrow> instant \<Rightarrow> u64 \<Rightarrow> bytes \<Rightarrow> bool \<Rightarrow> (tuic_app, unit) sm" where
  "handle_stream_data env now stream_id data fin app =
     (if \<not> authenticated app then
        sm_bind (reserve_pre_auth now (length data)
            (if fmlookup (pending_streams app) stream_id = None then 1 else 0))
          (\<lambda>_ app.
            let pending = (case fmlookup (pending_streams app) stream_id of
                Some pending \<Rightarrow> pending | None \<Rightarrow> \<lparr>ps_data = [], ps_fin = False\<rparr>) in
            (Inr (), app\<lparr>pending_streams := fmupd stream_id
               \<lparr>ps_data = ps_data pending @ data, ps_fin = ps_fin pending \<or> fin\<rparr>
               (pending_streams app)\<rparr>)) app
      else
        case fmlookup (app_streams app) stream_id of
          Some state \<Rightarrow>
            (case if data = [] then Inr (client_tx state) else try_send (client_tx state) data of
               Inl e \<Rightarrow> (Inl (Bail ''tuic inbound stream receive backpressure''), app)
             | Inr tx \<Rightarrow>
                 (Inr (), app\<lparr>app_streams :=
                    (if fin then fmdrop stream_id (app_streams app)
                     else fmupd stream_id (state\<lparr>client_tx := tx\<rparr>) (app_streams app))\<rparr>))
        | None \<Rightarrow>
            let old = (case fmlookup (pending_streams app) stream_id of
                  Some pending \<Rightarrow> pending | None \<Rightarrow> \<lparr>ps_data = [], ps_fin = False\<rparr>);
                pending = \<lparr>ps_data = ps_data old @ data, ps_fin = ps_fin old \<or> fin\<rparr>;
                app = app\<lparr>pending_streams := fmdrop stream_id (pending_streams app)\<rparr> in
            case try_parse_connect (env_core env) (ps_data pending) of
              Inl e \<Rightarrow> (Inl e, app)
            | Inr None \<Rightarrow>
                if ps_fin pending then (Inl (Bail ''truncated tuic connect header''), app)
                else (Inr (), app\<lparr>pending_streams := fmupd stream_id pending (pending_streams app)\<rparr>)
            | Inr (Some (target, consumed)) \<Rightarrow>
                (Inr (), app
                  \<lparr>app_streams := (if ps_fin pending then app_streams app
                     else fmupd stream_id \<lparr>client_tx = ch_new CHANNEL_CAPACITY\<rparr> (app_streams app)),
                   app_relays := app_relays app @
                     [(stream_id,
                       \<lparr>sess_inbound = app_inbound app, sess_command = Connect, sess_target = target\<rparr>,
                       drop consumed (ps_data pending))]\<rparr>))"

definition spawn_udp_session :: "udp_mode \<Rightarrow> instant \<Rightarrow> udp_session" where
  "spawn_udp_session mode now =
     \<lparr>ud_tx = ch_new UDP_CHANNEL_CAPACITY, ud_mode = mode, ud_last_used = now\<rparr>"

text \<open>A request that does not fit in the channel is dropped.\<close>

definition send_request :: "udp_request \<Rightarrow> udp_session \<Rightarrow> udp_session" where
  "send_request request session =
     (case try_send (ud_tx session) request of
        Inl _ \<Rightarrow> session
      | Inr tx \<Rightarrow> session\<lparr>ud_tx := tx\<rparr>)"

definition handle_packet :: "tuic_env \<Rightarrow> instant \<Rightarrow> bytes \<Rightarrow> udp_mode \<Rightarrow> (tuic_app, unit) sm" where
  "handle_packet env now data mode app =
     (case parse_packet (env_core env) data of
        Inl e \<Rightarrow> (Inl e, app)
      | Inr packet \<Rightarrow>
          (case push (app_assembler app) packet now of
             (Inl e, asm) \<Rightarrow> (Inl e, app\<lparr>app_assembler := asm\<rparr>)
           | (Inr None, asm) \<Rightarrow> (Inr (), app\<lparr>app_assembler := asm\<rparr>)
           | (Inr (Some packet), asm) \<Rightarrow>
               let app = app\<lparr>app_assembler := asm\<rparr> in
               case pk_target packet of
                 None \<Rightarrow> (Inl (Bail ''tuic packet is missing target''), app)
               | Some target \<Rightarrow>
                   let assoc_id = pk_assoc_id packet;
                       app = (if fmlookup (udp_sessions app) assoc_id = None
                         then app\<lparr>udp_sessions := fmupd assoc_id (spawn_udp_session mode now) (udp_sessions app),
                                  app_udp_relays := app_udp_relays app @ [(assoc_id, mode)]\<rparr>
                         else app);
                       session = the (fmlookup (udp_sessions app) assoc_id) in
                   if ud_mode session \<noteq> mode then (Inl (Bail ''tuic udp relay mode changed''), app)
                   else (Inr (), app\<lparr>udp_sessions := fmupd assoc_id
                     (send_request \<lparr>ur_target = target, ur_payload = pk_payload packet\<rparr>
                       (session\<lparr>ud_last_used := now\<rparr>)) (udp_sessions app)\<rparr>)))"

definition handle_datagram :: "tuic_env \<Rightarrow> instant \<Rightarrow> bytes \<Rightarrow> (tuic_app, unit) sm" where
  "handle_datagram env now data =
     sm_bind (check_authentication_deadline now) (\<lambda>_ app.
     if length data < 2 then (Inl (Bail ''short tuic datagram''), app)
     else if data ! 1 = TYPE_CODE_HEARTBEAT (env_core env) then (Inr (), app)
     else if data ! 1 = TYPE_CODE_PACKET (env_core env) then
       (if \<not> authenticated app then
          sm_bind (reserve_pre_auth now (length data) 1)
            (\<lambda>_ app. (Inr (), app\<lparr>pending_datagrams := pending_datagrams app @ [data]\<rparr>)) app
        else handle_packet env now data Native app)
     else (Inl (Bail ''unsupported tuic datagram command''), app))"

definition check_credentials :: "tuic_env \<Rightarrow> instant \<Rightarrow> bytes \<Rightarrow> (tuic_app, tuic_user) sm" where
  "check_credentials env now data =
     sm_bind (check_authentication_deadline now) (\<lambda>_.
     sm_bind (sm_lift (parse_authenticate (env_core env) data)) (\<lambda>(uuid, presented) app.
     case find (\<lambda>user. tu_uuid user = uuid) (app_users app) of
       None \<Rightarrow> (Inl (Bail ''tuic authentication: unknown uuid''), app)
     | Some user \<Rightarrow>
         (case token (env_exporter env) (tu_uuid user) (as_bytes (tu_password user)) of
            Inl e \<Rightarrow> (Inl e, app)
          | Inr expected \<Rightarrow>
              if expected \<noteq> presented then (Inl (Bail ''tuic authentication: token mismatch''), app)
              else (Inr user, app))))"

definition admit :: "tuic_user \<Rightarrow> tuic_app \<Rightarrow> tuic_app" where
  "admit user app = app\<lparr>authenticated := True, pre_auth_bytes := 0, pre_auth_items := 0,
     app_username := Some (tu_name user)\<rparr>"

definition replay_waiting :: "tuic_env \<Rightarrow> instant \<Rightarrow> (tuic_app, unit) sm" where
  "replay_waiting env now app =
     sm_bind (sm_for (pending_datagrams app) (handle_datagram env now)) (\<lambda>_ app.
     sm_for (filter (\<lambda>(_, pending). ps_data pending \<noteq> []) (env_into_iter env (pending_streams app)))
       (\<lambda>(stream_id, pending). handle_stream_data env now stream_id (ps_data pending) (ps_fin pending))
       (app\<lparr>pending_streams := fmempty\<rparr>)) (app\<lparr>pending_datagrams := []\<rparr>)"

text \<open>
  \<open>handle_auth_data\<close> and \<open>handle_unidirectional_command\<close> call each other. Each takes the other as an
  argument here; below the knot is tied, as the commands that are replayed are taken from a list that
  is empty from then on.
\<close>

definition handle_auth_data_with ::
    "(bytes \<Rightarrow> (tuic_app, unit) sm) \<Rightarrow> tuic_env \<Rightarrow> instant \<Rightarrow> bytes \<Rightarrow> (tuic_app, unit) sm" where
  "handle_auth_data_with replay env now data =
     sm_bind (check_credentials env now data) (\<lambda>user app.
     sm_bind (sm_for (pending_uni_commands app) replay) (\<lambda>_. replay_waiting env now)
       ((admit user app)\<lparr>pending_uni_commands := []\<rparr>))"

definition handle_unidirectional_command_with ::
    "(tuic_env \<Rightarrow> instant \<Rightarrow> bytes \<Rightarrow> (tuic_app, unit) sm) \<Rightarrow>
     tuic_env \<Rightarrow> instant \<Rightarrow> bytes \<Rightarrow> (tuic_app, unit) sm" where
  "handle_unidirectional_command_with auth env now data app =
     (let core = env_core env; push_pending =
        (Inr (), app\<lparr>pending_uni_commands := pending_uni_commands app @ [data]\<rparr>) in
      if length data < 2 then (Inl (Bail ''short tuic command''), app)
      else if data ! 1 = TYPE_CODE_AUTHENTICATE core then auth env now data app
      else if data ! 1 = TYPE_CODE_PACKET core then
        (if \<not> authenticated app then push_pending else handle_packet env now data Quic app)
      else if data ! 1 = TYPE_CODE_DISSOCIATE core then
        (if \<not> authenticated app then push_pending
         else
           case parse_dissociate core data of
             Inl e \<Rightarrow> (Inl e, app)
           | Inr assoc_id \<Rightarrow> (Inr (), app\<lparr>udp_sessions := fmdrop assoc_id (udp_sessions app)\<rparr>))
      else (Inl (Bail ''unsupported tuic unidirectional command''), app))"

definition handle_auth_again :: "tuic_env \<Rightarrow> instant \<Rightarrow> bytes \<Rightarrow> (tuic_app, unit) sm" where
  "handle_auth_again = handle_auth_data_with (\<lambda>_. sm_return ())"

definition handle_auth_data :: "tuic_env \<Rightarrow> instant \<Rightarrow> bytes \<Rightarrow> (tuic_app, unit) sm" where
  "handle_auth_data env now =
     handle_auth_data_with (handle_unidirectional_command_with handle_auth_again env now) env now"

definition handle_unidirectional_command :: "tuic_env \<Rightarrow> instant \<Rightarrow> bytes \<Rightarrow> (tuic_app, unit) sm" where
  "handle_unidirectional_command = handle_unidirectional_command_with handle_auth_data"

definition handle_unidirectional_stream ::
    "tuic_env \<Rightarrow> instant \<Rightarrow> u64 \<Rightarrow> bytes \<Rightarrow> bool \<Rightarrow> (tuic_app, unit) sm" where
  "handle_unidirectional_stream env now stream_id data fin app =
     sm_bind (reserve_pre_auth now (length data)
         (if fmlookup (uni_streams app) stream_id = None then 1 else 0))
       (\<lambda>_ app.
         case (case fmlookup (uni_streams app) stream_id of Some state \<Rightarrow> state | None \<Rightarrow> Receiving []) of
           Authenticated \<Rightarrow>
             if data \<noteq> [] then (Inl (Bail ''unexpected data after tuic authentication''), app)
             else (Inr (), if fin then app\<lparr>uni_streams := fmdrop stream_id (uni_streams app)\<rparr> else app)
         | Receiving command \<Rightarrow>
             let command = command @ data;
                 auth_complete = (AUTHENTICATE_LEN \<le> length command \<and>
                   command ! 1 = TYPE_CODE_AUTHENTICATE (env_core env));
                 kept = app\<lparr>uni_streams := fmupd stream_id (Receiving command) (uni_streams app)\<rparr> in
             if auth_complete \<and> length command \<noteq> AUTHENTICATE_LEN
             then (Inl (Bail ''unexpected data after tuic authentication''), kept)
             else if \<not> fin \<and> \<not> auth_complete then (Inr (), kept)
             else handle_unidirectional_command env now command
               (app\<lparr>uni_streams := (if fin then fmdrop stream_id (uni_streams app)
                  else fmupd stream_id Authenticated (uni_streams app))\<rparr>)) app"

section \<open>Cleanup\<close>

definition evict_udp :: "instant \<Rightarrow> duration \<Rightarrow> (u16, udp_session) fmap \<Rightarrow> (u16, udp_session) fmap" where
  "evict_udp now timeout = fm_retain (\<lambda>s. saturating_duration_since now (ud_last_used s) < timeout)"

interpretation tuic_udp: idle_table ud_last_used evict_udp
  by unfold_locales (simp add: evict_udp_def)

definition evict_idle_udp_sessions :: "instant \<Rightarrow> tuic_app \<Rightarrow> tuic_app" where
  "evict_idle_udp_sessions now app =
     app\<lparr>udp_sessions := evict_udp now UDP_SESSION_IDLE_TIMEOUT (udp_sessions app)\<rparr>"

definition maybe_cleanup_udp_state :: "instant \<Rightarrow> tuic_app \<Rightarrow> tuic_app" where
  "maybe_cleanup_udp_state now app =
     (if now < next_udp_cleanup app then app
      else (evict_idle_udp_sessions now app)
        \<lparr>app_assembler := evict_idle now FRAGMENT_IDLE_TIMEOUT (app_assembler app),
         next_udp_cleanup := now + UDP_SESSION_CLEANUP_INTERVAL\<rparr>)"

definition touch_udp_session :: "instant \<Rightarrow> u16 option \<Rightarrow> tuic_app \<Rightarrow> tuic_app" where
  "touch_udp_session now assoc_id app =
     (case assoc_id of
        None \<Rightarrow> app
      | Some assoc_id \<Rightarrow>
          (case fmlookup (udp_sessions app) assoc_id of
             None \<Rightarrow> app
           | Some session \<Rightarrow>
               app\<lparr>udp_sessions := fmupd assoc_id (session\<lparr>ud_last_used := now\<rparr>) (udp_sessions app)\<rparr>))"

section \<open>The application over QUIC\<close>

definition on_conn_established :: "instant \<Rightarrow> tuic_app \<Rightarrow> tuic_app" where
  "on_conn_established now app = app\<lparr>authentication_deadline := now + AUTHENTICATION_TIMEOUT\<rparr>"

text \<open>
  \<open>wait_for_data\<close> with the time before and after the wait, at whose end a write may have arrived; the
  time until which it sleeps is \<open>wake_at\<close>.
\<close>

definition wake_at :: "tuic_app \<Rightarrow> instant" where
  "wake_at app = (if authenticated app then next_udp_cleanup app
     else min (next_udp_cleanup app) (authentication_deadline app))"

definition wait_for_data :: "instant \<Rightarrow> quic_write option \<Rightarrow> instant \<Rightarrow> (tuic_app, unit) sm" where
  "wait_for_data now arrived later =
     sm_bind (check_authentication_deadline now) (\<lambda>_ app.
     let app = maybe_cleanup_udp_state now app;
         app = (if pending_writes app = []
           then (case arrived of
                   None \<Rightarrow> app
                 | Some write \<Rightarrow> app\<lparr>pending_writes := pending_writes app @ [write]\<rparr>)
           else app) in
     check_authentication_deadline later app)"

definition is_unidirectional :: "u64 \<Rightarrow> bool" where
  "is_unidirectional stream_id \<longleftrightarrow> and stream_id 2 \<noteq> 0"

text \<open>
  What a call of \<open>stream_recv\<close> returned: data and whether the stream ended, that there is no more, or
  an error. \<open>process_reads\<close> takes the calls it makes, in order, each with its stream, and then the
  datagrams; it returns the heartbeats that it answered.
\<close>

datatype stream_recv = Received bytes bool | RecvDone | RecvError error

fun read_stream :: "tuic_env \<Rightarrow> instant \<Rightarrow> u64 \<times> stream_recv \<Rightarrow> (tuic_app, unit) sm" where
  "read_stream env now (stream_id, Received data fin) =
     (if is_unidirectional stream_id then handle_unidirectional_stream env now stream_id data fin
      else handle_stream_data env now stream_id data fin)"
| "read_stream env now (stream_id, RecvDone) = sm_return ()"
| "read_stream env now (stream_id, RecvError e) = sm_fail e"

definition is_heartbeat :: "tuic_core \<Rightarrow> bytes \<Rightarrow> bool" where
  "is_heartbeat core data \<longleftrightarrow>
     2 \<le> length data \<and> data ! 0 = core_VERSION core \<and> data ! 1 = TYPE_CODE_HEARTBEAT core"

definition process_reads ::
    "tuic_env \<Rightarrow> instant \<Rightarrow> (u64 \<times> stream_recv) list \<Rightarrow> bytes list \<Rightarrow> (tuic_app, bytes list) sm" where
  "process_reads env now reads dgrams =
     sm_bind (check_authentication_deadline now) (\<lambda>_ app.
     sm_bind (sm_for reads (read_stream env now)) (\<lambda>_.
     sm_bind (sm_for (filter (\<lambda>d. \<not> is_heartbeat (env_core env) d) dgrams) (handle_datagram env now)) (\<lambda>_.
     sm_return (map (take 2) (filter (is_heartbeat (env_core env)) dgrams))))
       (maybe_cleanup_udp_state now app))"

text \<open>
  What QUIC answers to an attempt to send: how much of the data it took, that it takes nothing now, that
  the datagram is longer than the given limit, or another error. \<open>process_writes\<close> takes the answers
  to its attempts in order; without an answer for the next attempt it has not returned.
\<close>

datatype quic_reply = Accepted usize | Done | BufferTooShort usize | QuicError error

text \<open>
  The answer to a write that was taken from the queue: whether the loop goes on. A partial or refused
  write returns to the front of the queue; a datagram that is too long is replaced by its fragments.
\<close>

definition push_front :: "quic_write list \<Rightarrow> tuic_app \<Rightarrow> tuic_app" where
  "push_front writes app = app\<lparr>pending_writes := writes @ pending_writes app\<rparr>"

fun encode_all :: "tuic_core \<Rightarrow> packet list \<Rightarrow> bytes list res" where
  "encode_all core [] = Inr []"
| "encode_all core (p # ps) =
     and_then (encode_all core ps) (\<lambda>rest. and_then (encode_packet core p) (\<lambda>d. Inr (d # rest)))"

fun quic_write_step :: "tuic_core \<Rightarrow> instant \<Rightarrow> quic_write \<Rightarrow> quic_reply \<Rightarrow> (tuic_app, bool) sm" where
  "quic_write_step core now (Data stream_id data fin) reply app =
     (case reply of
        Accepted sent \<Rightarrow>
          if sent = length data then (Inr True, app)
          else (Inr False, push_front [Data stream_id (drop sent data) fin] app)
      | Done \<Rightarrow>
          if fin \<and> data = [] then (Inr True, app)
          else (Inr False, push_front [Data stream_id data fin] app)
      | BufferTooShort _ \<Rightarrow> (Inl IoError, app)
      | QuicError e \<Rightarrow> (Inl e, app))"
| "quic_write_step core now (Datagram assoc_id data) reply app =
     (let app = touch_udp_session now assoc_id app in
      case reply of
        Accepted _ \<Rightarrow> (Inr True, app)
      | Done \<Rightarrow> (Inr False, push_front [Datagram assoc_id data] app)
      | BufferTooShort limit \<Rightarrow>
          (case and_then (parse_packet core data) (\<lambda>packet. fragment_packet core packet limit) of
             Inl _ \<Rightarrow> (Inr True, app)
           | Inr fragments \<Rightarrow>
               (case encode_all core fragments of
                  Inl e \<Rightarrow> (Inl e, app)
                | Inr datas \<Rightarrow> (Inr True, push_front (map (Datagram assoc_id) datas) app)))
      | QuicError e \<Rightarrow> (Inl e, app))"
| "quic_write_step core now (UniStream assoc_id stream_id data) reply app =
     (let app = touch_udp_session now assoc_id app;
          ident = (case stream_id of Some i \<Rightarrow> i | None \<Rightarrow> next_uni_stream_id app);
          app = (if stream_id = None then app\<lparr>next_uni_stream_id := next_uni_stream_id app + 4\<rparr> else app) in
      case reply of
        Accepted sent \<Rightarrow>
          if sent = length data then (Inr True, app)
          else (Inr False, push_front [UniStream assoc_id (Some ident) (drop sent data)] app)
      | Done \<Rightarrow> (Inr False, push_front [UniStream assoc_id (Some ident) data] app)
      | BufferTooShort _ \<Rightarrow> (Inl IoError, app)
      | QuicError e \<Rightarrow> (Inl e, app))"
| "quic_write_step core now (Close stream_id) reply app =
     (Inr True, app\<lparr>app_streams := fmdrop stream_id (app_streams app)\<rparr>)"

fun write_loop ::
    "tuic_core \<Rightarrow> instant \<Rightarrow> quic_reply list \<Rightarrow> tuic_app \<Rightarrow> unit res option \<times> tuic_app" where
  "write_loop core now [] app = (if pending_writes app = [] then Some (Inr ()) else None, app)"
| "write_loop core now (reply # replies) app =
     (case pending_writes app of
        [] \<Rightarrow> (Some (Inr ()), app)
      | write # rest \<Rightarrow>
          (case quic_write_step core now write reply (app\<lparr>pending_writes := rest\<rparr>) of
             (Inl e, app) \<Rightarrow> (Some (Inl e), app)
           | (Inr False, app) \<Rightarrow> (Some (Inr ()), app)
           | (Inr True, app) \<Rightarrow> write_loop core now replies app))"

definition process_writes ::
    "tuic_env \<Rightarrow> instant \<Rightarrow> quic_reply list \<Rightarrow> tuic_app \<Rightarrow> unit res option \<times> tuic_app" where
  "process_writes env now replies app =
     (case check_authentication_deadline now app of
        (Inl e, app) \<Rightarrow> (Some (Inl e), app)
      | (Inr _, app) \<Rightarrow>
          let app = maybe_cleanup_udp_state now app in
          write_loop (env_core env) now replies
            (app\<lparr>pending_writes := pending_writes app @ outbound_rx app, outbound_rx := []\<rparr>))"

section \<open>Relays\<close>

text \<open>
  The task of a stream. Its state tells which sides have closed; an event is data of the client or the
  end of its channel, with the result of the write or the shutdown that follows, or what was read from
  the outbound.
\<close>

datatype tuic_relay_event = FromClient "bytes option" "unit res" | FromRemote "bytes res" "unit res"

datatype tuic_relay_action = WriteOutbound bytes | ShutdownOutbound | SendQuic quic_write

fun relay_event_step ::
    "u64 \<Rightarrow> bool \<times> bool \<Rightarrow> tuic_relay_event \<Rightarrow> tuic_relay_action list \<times> (bool \<times> bool) res" where
  "relay_event_step stream_id (client_closed, remote_closed) (FromClient (Some data) written) =
     ([WriteOutbound data], and_then written (\<lambda>_. Inr (client_closed, remote_closed)))"
| "relay_event_step stream_id (client_closed, remote_closed) (FromClient None written) =
     ([ShutdownOutbound], and_then written (\<lambda>_. Inr (True, remote_closed)))"
| "relay_event_step stream_id (client_closed, remote_closed) (FromRemote (Inl e) sent) = ([], Inl e)"
| "relay_event_step stream_id (client_closed, remote_closed) (FromRemote (Inr data) sent) =
     ([SendQuic (Data stream_id data (remote_closed \<or> data = []))],
      and_then sent (\<lambda>_. Inr (client_closed, remote_closed \<or> data = [])))"

fun relay_enabled :: "bool \<times> bool \<Rightarrow> tuic_relay_event \<Rightarrow> bool" where
  "relay_enabled (client_closed, remote_closed) (FromClient _ _) = (\<not> client_closed)"
| "relay_enabled (client_closed, remote_closed) (FromRemote _ _) = (\<not> remote_closed)"

fun relay_loop ::
    "u64 \<Rightarrow> bool \<times> bool \<Rightarrow> tuic_relay_event list \<Rightarrow> tuic_relay_action list \<times> (bool \<times> bool) res" where
  "relay_loop stream_id st [] = ([], Inr st)"
| "relay_loop stream_id st (ev # evs) =
     (if st = (True, True) then ([], Inr st)
      else if \<not> relay_enabled st ev then relay_loop stream_id st evs
      else
        case relay_event_step stream_id st ev of
          (acts, Inl e) \<Rightarrow> (acts, Inl e)
        | (acts, Inr st) \<Rightarrow> (case relay_loop stream_id st evs of (later, r) \<Rightarrow> (acts @ later, r)))"

definition spawn_relay ::
    "(session \<Rightarrow> 'c res) \<Rightarrow> session \<Rightarrow> u64 \<Rightarrow> bytes \<Rightarrow> unit res \<Rightarrow> tuic_relay_event list \<Rightarrow>
     tuic_relay_action list \<times> (bool \<times> bool) res" where
  "spawn_relay dial session stream_id initial initial_written evs =
     (case
        (case dial session of
           Inl e \<Rightarrow> ([], Inl e)
         | Inr _ \<Rightarrow>
             if initial = [] then relay_loop stream_id (False, False) evs
             else
               case initial_written of
                 Inl e \<Rightarrow> ([WriteOutbound initial], Inl e)
               | Inr _ \<Rightarrow>
                   (case relay_loop stream_id (False, False) evs of
                      (acts, r) \<Rightarrow> (WriteOutbound initial # acts, r))) of
        (acts, Inl e) \<Rightarrow> (acts @ [SendQuic (Close stream_id)], Inl e)
      | (acts, Inr st) \<Rightarrow> (acts, Inr st))"

text \<open>The task of an association, whose outbound is dialed for the target of the first request.\<close>

datatype udp_relay_event = UdpRequest "udp_request option" "unit res" | UdpReceived "(target_addr \<times> bytes) res" bool

datatype udp_relay_action = UdpSendTo target_addr bytes | UdpQuic quic_write

fun udp_relay_step ::
    "tuic_core \<Rightarrow> u16 \<Rightarrow> udp_mode \<Rightarrow> u16 \<Rightarrow> udp_relay_event \<Rightarrow> udp_relay_action list \<times> u16 flow" where
  "udp_relay_step core assoc_id mode pkt_id (UdpRequest None sent) = ([], Break)"
| "udp_relay_step core assoc_id mode pkt_id (UdpRequest (Some request) sent) =
     ([UdpSendTo (ur_target request) (ur_payload request)],
      case sent of Inl e \<Rightarrow> Failed e | Inr _ \<Rightarrow> Continue pkt_id)"
| "udp_relay_step core assoc_id mode pkt_id (UdpReceived received accepted) =
     (case and_then received (\<lambda>(source, payload). encode_packet core
         \<lparr>pk_assoc_id = assoc_id, pk_pkt_id = pkt_id, pk_frag_total = 1, pk_frag_id = 0,
          pk_target = Some source, pk_payload = payload\<rparr>) of
        Inl e \<Rightarrow> ([], Failed e)
      | Inr encoded \<Rightarrow>
          if accepted
          then ([UdpQuic (case mode of Native \<Rightarrow> Datagram (Some assoc_id) encoded
                  | Quic \<Rightarrow> UniStream (Some assoc_id) None encoded)], Continue (pkt_id + 1))
          else ([], Break))"

fun udp_relay_loop ::
    "tuic_core \<Rightarrow> u16 \<Rightarrow> udp_mode \<Rightarrow> u16 \<Rightarrow> udp_relay_event list \<Rightarrow> udp_relay_action list \<times> u16 flow" where
  "udp_relay_loop core assoc_id mode pkt_id [] = ([], Continue pkt_id)"
| "udp_relay_loop core assoc_id mode pkt_id (ev # evs) =
     (case udp_relay_step core assoc_id mode pkt_id ev of
        (acts, Continue pkt_id) \<Rightarrow>
          (case udp_relay_loop core assoc_id mode pkt_id evs of (later, fl) \<Rightarrow> (acts @ later, fl))
      | (acts, fl) \<Rightarrow> (acts, fl))"

definition run_udp_session ::
    "tuic_core \<Rightarrow> (session \<Rightarrow> 'd res) \<Rightarrow> string \<Rightarrow> u16 \<Rightarrow> udp_mode \<Rightarrow> udp_request option \<Rightarrow> unit res \<Rightarrow>
     udp_relay_event list \<Rightarrow> udp_relay_action list \<times> u16 flow" where
  "run_udp_session core dial_udp inbound assoc_id mode first sent evs =
     (case first of
        None \<Rightarrow> ([], Break)
      | Some first \<Rightarrow>
          (case dial_udp \<lparr>sess_inbound = inbound, sess_command = UdpAssociate, sess_target = ur_target first\<rparr> of
             Inl e \<Rightarrow> ([], Failed e)
           | Inr _ \<Rightarrow>
               (case sent of
                  Inl e \<Rightarrow> ([UdpSendTo (ur_target first) (ur_payload first)], Failed e)
                | Inr _ \<Rightarrow>
                    (case udp_relay_loop core assoc_id mode 0 evs of
                       (acts, fl) \<Rightarrow> (UdpSendTo (ur_target first) (ur_payload first) # acts, fl)))))"

end
