(* ===== verification/Tuic_Auth.thy ===== *)
theory Tuic_Auth
  imports Tuic_Inbound "HOL-Library.Sublist"
begin

text \<open>
  Authentication of a TUIC connection. The lemmas show that the two handlers that call each other are
  the fixed point the code defines, that a connection which is not authenticated keeps at most the
  given number of bytes and items and serves nothing, and that a connection is authenticated only by
  a token that the client presented on a unidirectional stream in time.
\<close>

section \<open>What the handlers change\<close>

text \<open>The fields that the handlers for packets, datagrams and streams never change.\<close>

definition same_auth :: "tuic_app \<Rightarrow> tuic_app \<Rightarrow> bool" where
  "same_auth s s' \<longleftrightarrow> app_inbound s' = app_inbound s \<and> app_users s' = app_users s \<and>
     authenticated s' = authenticated s \<and> authentication_deadline s' = authentication_deadline s \<and>
     app_username s' = app_username s \<and> uni_streams s' = uni_streams s \<and>
     pending_uni_commands s' = pending_uni_commands s"

lemma same_auth_refl [simp]: "same_auth s s"
  by (simp add: same_auth_def)

lemma same_auth_trans: "same_auth a b \<Longrightarrow> same_auth b c \<Longrightarrow> same_auth a c"
  by (simp add: same_auth_def)

lemma same_auth_bind:
  "sm_rel same_auth m \<Longrightarrow> (\<And>x. sm_rel same_auth (k x)) \<Longrightarrow> sm_rel same_auth (sm_bind m k)"
  by (rule sm_rel_bind [OF same_auth_trans])

lemma same_auth_for: "(\<And>x. x \<in> set xs \<Longrightarrow> sm_rel same_auth (f x)) \<Longrightarrow> sm_rel same_auth (sm_for xs f)"
  by (rule sm_rel_for [OF same_auth_refl same_auth_trans])

lemma check_deadline_state: "snd (check_authentication_deadline now s) = s"
  by (simp add: check_authentication_deadline_def)

lemma check_deadline_Inr:
  "check_authentication_deadline now s = (Inr u, s') \<longleftrightarrow>
     s' = s \<and> (authenticated s \<or> now < authentication_deadline s)"
  by (auto simp: check_authentication_deadline_def)

lemma same_auth_deadline: "sm_rel same_auth (check_authentication_deadline now)"
  by (simp add: sm_rel_def check_deadline_state)

lemma same_auth_reserve: "sm_rel same_auth (reserve_pre_auth now n items)"
  unfolding reserve_pre_auth_def
  by (rule same_auth_bind [OF same_auth_deadline]) (simp add: sm_rel_def same_auth_def)

lemma same_auth_packet: "sm_rel same_auth (handle_packet env now data mode)"
  by (auto simp: sm_rel_def handle_packet_def Let_def same_auth_def split: sum.split option.split prod.split)

lemma same_auth_datagram: "sm_rel same_auth (handle_datagram env now data)"
  unfolding handle_datagram_def
proof (rule same_auth_bind [OF same_auth_deadline])
  fix u :: unit
  have keep: "sm_rel same_auth (sm_bind (reserve_pre_auth now (length data) 1)
      (\<lambda>_ app. (Inr (), app\<lparr>pending_datagrams := pending_datagrams app @ [data]\<rparr>)))"
    by (rule same_auth_bind [OF same_auth_reserve]) (simp add: sm_rel_def same_auth_def)
  show "sm_rel same_auth (\<lambda>app.
     if length data < 2 then (Inl (Bail ''short tuic datagram''), app)
     else if data ! 1 = TYPE_CODE_HEARTBEAT (env_core env) then (Inr (), app)
     else if data ! 1 = TYPE_CODE_PACKET (env_core env) then
       (if \<not> authenticated app then
          sm_bind (reserve_pre_auth now (length data) 1)
            (\<lambda>_ app. (Inr (), app\<lparr>pending_datagrams := pending_datagrams app @ [data]\<rparr>)) app
        else handle_packet env now data Native app)
     else (Inl (Bail ''unsupported tuic datagram command''), app))"
    using keep same_auth_packet [of env now data Native] by (simp add: sm_rel_def)
qed

lemma same_auth_stream: "sm_rel same_auth (handle_stream_data env now sid data fin)"
  unfolding sm_rel_def
proof
  fix s
  have keep: "sm_rel same_auth (sm_bind (reserve_pre_auth now n i) (\<lambda>_ app.
      let pending = (case fmlookup (pending_streams app) sid of
          Some pending \<Rightarrow> pending | None \<Rightarrow> \<lparr>ps_data = [], ps_fin = False\<rparr>) in
      (Inr (), app\<lparr>pending_streams := fmupd sid
         \<lparr>ps_data = ps_data pending @ data, ps_fin = ps_fin pending \<or> fin\<rparr> (pending_streams app)\<rparr>)))" for n i
    by (rule same_auth_bind [OF same_auth_reserve]) (simp add: sm_rel_def same_auth_def Let_def)
  show "same_auth s (snd (handle_stream_data env now sid data fin s))"
  proof (cases "authenticated s")
    case True
    show ?thesis
    proof (cases "fmlookup (app_streams s) sid")
      case None
      let ?old = "case fmlookup (pending_streams s) sid of
          Some pending \<Rightarrow> pending | None \<Rightarrow> \<lparr>ps_data = [], ps_fin = False\<rparr>"
      show ?thesis
        by (cases "try_parse_connect (env_core env) (ps_data ?old @ data)")
          (simp_all add: handle_stream_data_def True None Let_def same_auth_def split: option.split prod.split)
    next
      case (Some state)
      then show ?thesis using True by (simp add: handle_stream_data_def same_auth_def split: sum.split)
    qed
  next
    case False
    then show ?thesis using keep by (simp add: handle_stream_data_def sm_rel_def)
  qed
qed

lemma same_auth_waiting: "sm_rel same_auth (replay_waiting env now)"
  unfolding sm_rel_def
proof
  fix s :: tuic_app
  have "sm_rel same_auth (sm_for ps (\<lambda>(sid, p). handle_stream_data env now sid (ps_data p) (ps_fin p)))" for ps
    by (auto intro!: same_auth_for same_auth_stream)
  then have "same_auth (app\<lparr>pending_streams := fmempty\<rparr>) (snd (sm_for ps
      (\<lambda>(sid, p). handle_stream_data env now sid (ps_data p) (ps_fin p)) (app\<lparr>pending_streams := fmempty\<rparr>)))"
    for app ps unfolding sm_rel_def by blast
  then have streams: "same_auth app (snd (sm_for ps (\<lambda>(sid, p). handle_stream_data env now sid (ps_data p) (ps_fin p))
      (app\<lparr>pending_streams := fmempty\<rparr>)))" for app ps
    by (simp add: same_auth_def)
  have "sm_rel same_auth (sm_for ds (handle_datagram env now))" for ds
    by (intro same_auth_for same_auth_datagram)
  then have "sm_rel same_auth (sm_bind (sm_for (pending_datagrams s) (handle_datagram env now)) (\<lambda>_ app.
      sm_for (filter (\<lambda>(_, pending). ps_data pending \<noteq> []) (env_into_iter env (pending_streams app)))
       (\<lambda>(stream_id, pending). handle_stream_data env now stream_id (ps_data pending) (ps_fin pending))
       (app\<lparr>pending_streams := fmempty\<rparr>)))"
    by (rule same_auth_bind) (simp add: sm_rel_def streams)
  then have "same_auth (s\<lparr>pending_datagrams := []\<rparr>) (snd (replay_waiting env now s))"
    unfolding replay_waiting_def sm_rel_def by blast
  then show "same_auth s (snd (replay_waiting env now s))" by (simp add: same_auth_def)
qed

section \<open>The handlers that call each other\<close>

text \<open>\<open>valid_token\<close>: the command presents the token of the user for this connection.\<close>

definition valid_token :: "tuic_env \<Rightarrow> tuic_user \<Rightarrow> bytes \<Rightarrow> bool" where
  "valid_token env user data \<longleftrightarrow> (\<exists>tok. parse_authenticate (env_core env) data = Inr (tu_uuid user, tok) \<and>
     token (env_exporter env) (tu_uuid user) (as_bytes (tu_password user)) = Inr tok)"

lemma check_credentials_state: "snd (check_credentials env now data s) = s"
  by (auto simp: check_credentials_def sm_bind_def sm_lift_def check_authentication_deadline_def
      split: sum.split prod.split option.split)

lemma check_credentials_Inr:
  assumes "check_credentials env now data s = (Inr user, s')"
  shows "s' = s" "user \<in> set (app_users s)" "valid_token env user data"
    "authenticated s \<or> now < authentication_deadline s"
  using assms
  by (auto simp: check_credentials_def sm_bind_def sm_lift_def check_authentication_deadline_def valid_token_def
      find_Some_iff split: sum.splits prod.splits option.splits if_splits)

lemma auth_with_Inl:
  "check_credentials env now data s = (Inl e, s') \<Longrightarrow> handle_auth_data_with f env now data s = (Inl e, s)"
  using check_credentials_state [of env now data s] by (simp add: handle_auth_data_with_def)

lemma auth_with_Inr:
  "check_credentials env now data s = (Inr user, s') \<Longrightarrow> handle_auth_data_with f env now data s =
     sm_bind (sm_for (pending_uni_commands s) f) (\<lambda>_. replay_waiting env now)
       ((admit user s)\<lparr>pending_uni_commands := []\<rparr>)"
  using check_credentials_Inr(1) [of env now data s user s'] by (simp add: handle_auth_data_with_def)

definition idle_auth :: "tuic_app \<Rightarrow> bool" where
  "idle_auth s \<longleftrightarrow> authenticated s \<and> pending_uni_commands s = []"

lemma idle_auth_same: "same_auth s s' \<Longrightarrow> idle_auth s \<Longrightarrow> idle_auth s'"
  by (simp add: same_auth_def idle_auth_def)

lemma auth_with_no_commands:
  "pending_uni_commands s = [] \<Longrightarrow> handle_auth_data_with f env now data s = handle_auth_data_with g env now data s"
  by (cases "check_credentials env now data s"; cases "fst (check_credentials env now data s)")
    (auto simp: auth_with_Inl auth_with_Inr)

lemma auth_with_idle:
  assumes "idle_auth s"
  shows "idle_auth (snd (handle_auth_data_with f env now data s))"
proof (cases "check_credentials env now data s")
  case (Pair r s')
  show ?thesis
  proof (cases r)
    case (Inr user)
    let ?s = "(admit user s)\<lparr>pending_uni_commands := []\<rparr>"
    have "idle_auth ?s" by (simp add: idle_auth_def admit_def)
    moreover have "same_auth ?s (snd (replay_waiting env now ?s))"
      using same_auth_waiting unfolding sm_rel_def by blast
    ultimately have "idle_auth (snd (replay_waiting env now ?s))" by (blast intro: idle_auth_same)
    then show ?thesis using Pair Inr assms by (simp add: auth_with_Inr idle_auth_def sm_return_def)
  qed (use Pair assms in \<open>simp add: auth_with_Inl\<close>)
qed

lemma command_with_idle:
  assumes "idle_auth s" "\<And>s. idle_auth s \<Longrightarrow> idle_auth (snd (auth env now data s))"
  shows "idle_auth (snd (handle_unidirectional_command_with auth env now data s))"
proof -
  have "idle_auth (snd (handle_packet env now data Quic s))"
    using same_auth_packet [of env now data Quic] assms(1) unfolding sm_rel_def by (blast intro: idle_auth_same)
  moreover have "authenticated s" using assms(1) by (simp add: idle_auth_def)
  ultimately show ?thesis
    using assms(1) assms(2) [OF assms(1)]
    by (auto simp: handle_unidirectional_command_with_def Let_def idle_auth_def split: sum.split)
qed

text \<open>The definitions satisfy the equations of the code.\<close>

lemma handle_unidirectional_command_unfold:
  "handle_unidirectional_command = handle_unidirectional_command_with handle_auth_data"
  by (fact handle_unidirectional_command_def)

lemma handle_auth_data_unfold:
  "handle_auth_data env now data = handle_auth_data_with (handle_unidirectional_command env now) env now data"
proof
  fix s
  show "handle_auth_data env now data s = handle_auth_data_with (handle_unidirectional_command env now) env now data s"
  proof (cases "check_credentials env now data s")
    case (Pair r s')
    show ?thesis
    proof (cases r)
      case (Inr user)
      let ?s = "(admit user s)\<lparr>pending_uni_commands := []\<rparr>"
      have "sm_for cs (handle_unidirectional_command_with handle_auth_again env now) ?s =
          sm_for cs (handle_unidirectional_command env now) ?s" for cs
      proof (rule sm_for_cong_on [where I = idle_auth])
        fix c s assume s: "idle_auth s"
        then have "handle_auth_again env now c s = handle_auth_data env now c s"
          unfolding handle_auth_again_def handle_auth_data_def
          by (intro auth_with_no_commands) (simp add: idle_auth_def)
        then show "handle_unidirectional_command_with handle_auth_again env now c s =
            handle_unidirectional_command env now c s"
          by (simp add: handle_unidirectional_command_def handle_unidirectional_command_with_def Let_def)
        show "idle_auth (snd (handle_unidirectional_command env now c s))"
          unfolding handle_unidirectional_command_def
          by (intro command_with_idle s) (simp add: handle_auth_data_def auth_with_idle)
      qed (simp add: idle_auth_def admit_def)
      then show ?thesis using Pair Inr by (simp add: handle_auth_data_def auth_with_Inr sm_bind_def)
    qed (use Pair in \<open>simp add: handle_auth_data_def auth_with_Inl\<close>)
  qed
qed

section \<open>Before authentication\<close>

fun uni_len :: "uni_stream_state \<Rightarrow> nat" where
  "uni_len (Receiving command) = length command"
| "uni_len Authenticated = 0"

text \<open>What the connection keeps of the data it received.\<close>

definition retained_bytes :: "tuic_app \<Rightarrow> nat" where
  "retained_bytes app = fm_sum uni_len (uni_streams app) + sum_list (map length (pending_uni_commands app)) +
     sum_list (map length (pending_datagrams app)) + fm_sum (length \<circ> ps_data) (pending_streams app)"

definition retained_items :: "tuic_app \<Rightarrow> nat" where
  "retained_items app = fm_len (uni_streams app) + length (pending_uni_commands app) +
     length (pending_datagrams app) + fm_len (pending_streams app)"

definition served_nothing :: "tuic_app \<Rightarrow> bool" where
  "served_nothing app \<longleftrightarrow> app_streams app = fmempty \<and> udp_sessions app = fmempty \<and>
     app_assembler app = fmempty \<and> app_relays app = [] \<and> app_udp_relays app = []"

text \<open>The budget covers what is kept and, where data is about to be stored, \<open>n\<close> bytes and \<open>i\<close> items more.\<close>

definition within_budget :: "nat \<Rightarrow> nat \<Rightarrow> tuic_app \<Rightarrow> bool" where
  "within_budget n i app \<longleftrightarrow> retained_bytes app + n \<le> pre_auth_bytes app \<and>
     pre_auth_bytes app \<le> MAX_PRE_AUTH_BYTES \<and> retained_items app + i \<le> pre_auth_items app \<and>
     pre_auth_items app \<le> MAX_PRE_AUTH_ITEMS \<and> served_nothing app"

definition unserved :: "tuic_app \<Rightarrow> bool" where
  "unserved app \<longleftrightarrow> (\<not> authenticated app \<longrightarrow> within_budget 0 0 app)"

abbreviation keeps_unserved :: "tuic_app \<Rightarrow> tuic_app \<Rightarrow> bool" where
  "keeps_unserved s s' \<equiv> unserved s \<longrightarrow> unserved s'"

lemmas budget_defs = within_budget_def retained_bytes_def retained_items_def served_nothing_def

lemma keeps_unserved_bind:
  "sm_rel keeps_unserved m \<Longrightarrow> (\<And>x. sm_rel keeps_unserved (k x)) \<Longrightarrow> sm_rel keeps_unserved (sm_bind m k)"
  by (rule sm_rel_bind) auto

lemma keeps_unserved_for:
  "(\<And>x. x \<in> set xs \<Longrightarrow> sm_rel keeps_unserved (f x)) \<Longrightarrow> sm_rel keeps_unserved (sm_for xs f)"
  by (rule sm_rel_for) auto

lemma unserved_authenticated: "authenticated s \<Longrightarrow> unserved s"
  by (simp add: unserved_def)

lemma reserve_pre_auth_cases:
  assumes "\<not> authenticated s" "unserved s"
  obtains e where "reserve_pre_auth now n i s = (Inl e, s)"
    | s' where "reserve_pre_auth now n i s = (Inr (), s')" "within_budget n i s'"
      "s' = s\<lparr>pre_auth_bytes := pre_auth_bytes s + n, pre_auth_items := pre_auth_items s + i\<rparr>"
proof (cases "now < authentication_deadline s \<and> n \<le> MAX_PRE_AUTH_BYTES - pre_auth_bytes s \<and>
    i \<le> MAX_PRE_AUTH_ITEMS - pre_auth_items s")
  case True
  let ?s = "s\<lparr>pre_auth_bytes := pre_auth_bytes s + n, pre_auth_items := pre_auth_items s + i\<rparr>"
  have "reserve_pre_auth now n i s = (Inr (), ?s)" using True assms(1)
    by (auto simp: reserve_pre_auth_def sm_bind_def check_authentication_deadline_def)
  moreover have "within_budget n i ?s" using True assms by (auto simp: unserved_def budget_defs)
  ultimately show ?thesis using that(2) by blast
next
  case False
  then have "\<exists>e. reserve_pre_auth now n i s = (Inl e, s)" using assms(1)
    by (auto simp: reserve_pre_auth_def sm_bind_def check_authentication_deadline_def)
  then show ?thesis using that(1) by blast
qed

lemma unserved_stream: "sm_rel keeps_unserved (handle_stream_data env now sid data fin)"
  unfolding sm_rel_def
proof (intro allI impI)
  fix s assume s: "unserved s"
  show "unserved (snd (handle_stream_data env now sid data fin s))"
  proof (cases "authenticated s")
    case True
    then show ?thesis using same_auth_stream [of env now sid data fin]
      by (intro unserved_authenticated) (simp add: sm_rel_def same_auth_def)
  next
    case False
    let ?i = "if fmlookup (pending_streams s) sid = None then 1 else (0::nat)"
    from False s show ?thesis
    proof (cases rule: reserve_pre_auth_cases [of s now "length data" ?i])
      case (2 s')
      then show ?thesis using False fm_sum_remove [of "length \<circ> ps_data" "pending_streams s" sid]
        by (auto simp: handle_stream_data_def Let_def unserved_def budget_defs fm_sum_upd fm_len_upd
            split: option.splits)
    qed (use False s in \<open>simp add: handle_stream_data_def\<close>)
  qed
qed

lemma unserved_datagram: "sm_rel keeps_unserved (handle_datagram env now data)"
  unfolding sm_rel_def
proof (intro allI impI)
  fix s assume s: "unserved s"
  show "unserved (snd (handle_datagram env now data s))"
  proof (cases "authenticated s")
    case True
    then show ?thesis using same_auth_datagram [of env now data]
      by (intro unserved_authenticated) (simp add: sm_rel_def same_auth_def)
  next
    case False
    from False s show ?thesis
    proof (cases rule: reserve_pre_auth_cases [of s now "length data" 1])
      case (2 s')
      then show ?thesis using False s
        by (auto simp: handle_datagram_def sm_bind_def check_authentication_deadline_def unserved_def budget_defs)
    qed (use False s in \<open>auto simp: handle_datagram_def sm_bind_def check_authentication_deadline_def\<close>)
  qed
qed

lemma auth_data_cases:
  assumes "unserved s"
  shows "snd (handle_auth_data env now data s) = s \<or> authenticated (snd (handle_auth_data env now data s))"
proof (cases "check_credentials env now data s")
  case (Pair r s')
  show ?thesis
  proof (cases r)
    case (Inr user)
    let ?s = "(admit user s)\<lparr>pending_uni_commands := []\<rparr>"
    have "idle_auth (snd (sm_for cs (handle_unidirectional_command env now) t))" if "idle_auth t" for cs t
    proof -
      have "sm_rel (\<lambda>a b. idle_auth a \<longrightarrow> idle_auth b) (sm_for cs (handle_unidirectional_command env now))"
        unfolding handle_unidirectional_command_def
        by (rule sm_rel_for)
          (auto simp: sm_rel_def handle_auth_data_def intro!: command_with_idle auth_with_idle)
      with that show ?thesis by (simp add: sm_rel_def)
    qed
    then have "idle_auth (snd (sm_for (pending_uni_commands s) (handle_unidirectional_command env now) ?s))"
      by (simp add: idle_auth_def admit_def)
    moreover have "idle_auth (snd (replay_waiting env now t))" if "idle_auth t" for t
      using same_auth_waiting [of env now] that unfolding sm_rel_def by (blast intro: idle_auth_same)
    ultimately have "idle_auth (snd (handle_auth_data env now data s))"
      using Pair Inr by (auto simp: handle_auth_data_unfold auth_with_Inr sm_bind_def split: prod.split sum.split)
    then show ?thesis by (simp add: idle_auth_def)
  qed (use Pair in \<open>simp add: handle_auth_data_def auth_with_Inl\<close>)
qed

lemma authenticated_command:
  assumes "authenticated s"
  shows "authenticated (snd (handle_unidirectional_command env now data s))"
proof -
  have "authenticated (snd (handle_packet env now data Quic s))"
    using same_auth_packet [of env now data Quic] assms by (simp add: sm_rel_def same_auth_def)
  moreover have "authenticated (snd (handle_auth_data env now data s))"
    using auth_data_cases [OF unserved_authenticated [OF assms], of env now data] assms by auto
  ultimately show ?thesis using assms
    by (auto simp: handle_unidirectional_command_def handle_unidirectional_command_with_def Let_def split: sum.split)
qed

lemma authenticated_uni_stream:
  assumes "authenticated s"
  shows "authenticated (snd (handle_unidirectional_stream env now sid data fin s))"
proof -
  have "reserve_pre_auth now n i s = (Inr (), s)" for n i
    using assms by (simp add: reserve_pre_auth_def sm_bind_def check_authentication_deadline_def)
  then show ?thesis using assms
    by (cases "case fmlookup (uni_streams s) sid of Some state \<Rightarrow> state | None \<Rightarrow> Receiving []")
      (simp_all add: handle_unidirectional_stream_def Let_def authenticated_command)
qed

lemma unserved_command:
  assumes "\<not> authenticated s" "within_budget (length data) i s" "data ! 1 = TYPE_CODE_AUTHENTICATE (env_core env) \<or> 0 < i"
  shows "unserved (snd (handle_unidirectional_command env now data s))"
proof -
  have s: "unserved s" using assms(2) by (simp add: unserved_def within_budget_def)
  have "unserved (snd (handle_auth_data env now data s))"
    using auth_data_cases [OF s, of env now data] s unserved_authenticated by metis
  moreover have "unserved (s\<lparr>pending_uni_commands := pending_uni_commands s @ [data]\<rparr>)" if "0 < i"
    using assms(1,2) that by (simp add: unserved_def budget_defs)
  ultimately show ?thesis using assms(1,3) s
    by (auto simp: handle_unidirectional_command_def handle_unidirectional_command_with_def Let_def)
qed

lemma unserved_uni_stream: "sm_rel keeps_unserved (handle_unidirectional_stream env now sid data fin)"
  unfolding sm_rel_def
proof (intro allI impI)
  fix s assume s: "unserved s"
  let ?i = "if fmlookup (uni_streams s) sid = None then 1 else (0::nat)"
  show "unserved (snd (handle_unidirectional_stream env now sid data fin s))"
  proof (cases "authenticated s")
    case True
    then show ?thesis using authenticated_uni_stream [OF True] by (intro unserved_authenticated)
  next
    case False
    from False s show ?thesis
    proof (cases rule: reserve_pre_auth_cases [of s now "length data" ?i])
      case (2 s')
      show ?thesis
      proof (cases "case fmlookup (uni_streams s') sid of Some state \<Rightarrow> state | None \<Rightarrow> Receiving []")
        case (Receiving command)
        let ?c = "command @ data"
        let ?kept = "s'\<lparr>uni_streams := fmupd sid (Receiving ?c) (uni_streams s')\<rparr>"
        let ?drop = "s'\<lparr>uni_streams := fmdrop sid (uni_streams s')\<rparr>"
        let ?done = "s'\<lparr>uni_streams := fmupd sid Authenticated (uni_streams s')\<rparr>"
        have sum: "fm_sum uni_len (uni_streams s) = fm_sum uni_len (fmdrop sid (uni_streams s)) + length command"
            "fmlookup (uni_streams s) sid = None \<longrightarrow> command = []"
          using fm_sum_remove [of uni_len "uni_streams s" sid] Receiving 2(3) by (auto split: option.splits)
        have "unserved ?kept" using False 2(2,3) sum
          by (auto simp: unserved_def budget_defs fm_sum_upd fm_len_upd split: if_splits)
        moreover have "within_budget (length ?c) 1 ?drop"
          using False 2(2,3) sum fm_len_pos [of "uni_streams s" sid]
          by (auto simp: budget_defs fm_len_drop split: if_splits)
        moreover have "within_budget (length ?c) 0 ?done"
          using False 2(2,3) sum by (auto simp: budget_defs fm_sum_upd fm_len_upd split: if_splits)
        ultimately show ?thesis
          using False 2(1,3) Receiving unserved_command [of ?drop ?c 1 env now] unserved_command [of ?done ?c 0 env now]
          by (auto simp: handle_unidirectional_stream_def Let_def)
      next
        case Authenticated
        have "unserved s'" using False 2 by (simp add: unserved_def within_budget_def)
        moreover have "unserved (s'\<lparr>uni_streams := fmdrop sid (uni_streams s')\<rparr>)"
          using False 2 fm_sum_remove [of uni_len "uni_streams s" sid]
          by (auto simp: unserved_def budget_defs fm_len_drop)
        ultimately show ?thesis using 2(1) Authenticated by (simp add: handle_unidirectional_stream_def)
      qed
    qed (use False s in \<open>simp add: handle_unidirectional_stream_def\<close>)
  qed
qed

lemma fm_retain_empty [simp]: "fm_retain P fmempty = fmempty"
  by (intro fmap_ext) (simp add: opt_filter_def)

lemma unserved_cleanup: "unserved s \<Longrightarrow> unserved (maybe_cleanup_udp_state now s)"
  by (auto simp: maybe_cleanup_udp_state_def evict_idle_udp_sessions_def unserved_def budget_defs evict_udp_def
      evict_idle_def)

lemma unserved_deadline: "sm_rel keeps_unserved (check_authentication_deadline now)"
  by (simp add: sm_rel_def check_deadline_state)

lemma unserved_read: "sm_rel keeps_unserved (read_stream env now ev)"
proof (induction env now ev rule: read_stream.induct)
  case (1 env now sid data fin)
  then show ?case using unserved_uni_stream [of env now sid data fin] unserved_stream [of env now sid data fin]
    by (simp add: sm_rel_def)
qed (simp_all add: sm_rel_pure)

lemma unserved_reads: "sm_rel keeps_unserved (process_reads env now reads dgrams)"
proof -
  have m: "sm_rel keeps_unserved (sm_bind (sm_for reads (read_stream env now)) (\<lambda>_.
     sm_bind (sm_for (filter (\<lambda>d. \<not> is_heartbeat (env_core env) d) dgrams) (handle_datagram env now)) (\<lambda>_.
     sm_return (map (take 2) (filter (is_heartbeat (env_core env)) dgrams)))))"
    by (intro keeps_unserved_bind keeps_unserved_for unserved_read unserved_datagram sm_rel_pure(1)) simp
  show ?thesis unfolding process_reads_def
    by (rule keeps_unserved_bind [OF unserved_deadline]) (use m in \<open>auto simp: sm_rel_def intro: unserved_cleanup\<close>)
qed

lemma unserved_wait: "sm_rel keeps_unserved (wait_for_data now arrived later)"
  unfolding wait_for_data_def
proof (rule keeps_unserved_bind [OF unserved_deadline])
  fix u :: unit
  have "unserved (s\<lparr>pending_writes := w\<rparr>)" if "unserved s" for s w
    using that by (simp add: unserved_def budget_defs)
  then show "sm_rel keeps_unserved (\<lambda>app.
     let app = maybe_cleanup_udp_state now app;
         app = (if pending_writes app = []
           then (case arrived of
                   None \<Rightarrow> app
                 | Some write \<Rightarrow> app\<lparr>pending_writes := pending_writes app @ [write]\<rparr>)
           else app) in
     check_authentication_deadline later app)"
    by (auto simp: sm_rel_def Let_def check_deadline_state unserved_cleanup split: option.split)
qed

text \<open>Writing touches associations and closes streams, so it finds nothing to serve either.\<close>

lemma unserved_write_step: "sm_rel keeps_unserved (quic_write_step core now w reply)"
proof -
  have touch: "unserved (touch_udp_session now assoc s)" if "unserved s" for assoc s
    using that by (auto simp: touch_udp_session_def unserved_def budget_defs split: option.split)
  have other: "unserved (s\<lparr>next_uni_stream_id := i\<rparr>)" "unserved (s\<lparr>app_streams := fmdrop k (app_streams s)\<rparr>)"
      "unserved (push_front ws s)" if "unserved s" for s ws i k
    using that by (auto simp: push_front_def unserved_def budget_defs)
  show ?thesis
    unfolding sm_rel_def
    by (cases w; cases reply) (auto simp: Let_def touch other split: option.split sum.split)
qed

lemma unserved_write_loop: "unserved s \<Longrightarrow> unserved (snd (write_loop core now replies s))"
proof (induction replies arbitrary: s)
  case (Cons reply replies)
  show ?case
  proof (cases "pending_writes s")
    case (Cons w rest)
    have "unserved (s\<lparr>pending_writes := rest\<rparr>)" using Cons.prems by (simp add: unserved_def budget_defs)
    then have "unserved (snd (quic_write_step core now w reply (s\<lparr>pending_writes := rest\<rparr>)))"
      using unserved_write_step unfolding sm_rel_def by blast
    then show ?thesis using Cons Cons.IH by (auto split: prod.split sum.split bool.split)
  qed (use Cons.prems in simp)
qed simp

lemma unserved_writes: "unserved s \<Longrightarrow> unserved (snd (process_writes env now replies s))"
proof -
  assume s: "unserved s"
  have "unserved (t\<lparr>pending_writes := ws, outbound_rx := []\<rparr>)" if "unserved t" for t ws
    using that by (simp add: unserved_def budget_defs)
  with s show ?thesis
    by (auto simp: process_writes_def check_authentication_deadline_def Let_def
        intro!: unserved_write_loop unserved_cleanup)
qed

section \<open>Who is authenticated\<close>

text \<open>
  The bytes that arrived on a stream, and what was presented: a part of a unidirectional stream.
\<close>

definition content :: "(u64 \<times> bytes) list \<Rightarrow> u64 \<Rightarrow> bytes" where
  "content hist sid = concat (map snd (filter (\<lambda>(i, _). i = sid) hist))"

definition presented :: "(u64 \<times> bytes) list \<Rightarrow> bytes \<Rightarrow> bool" where
  "presented hist data \<longleftrightarrow> (\<exists>sid. is_unidirectional sid \<and> sublist data (content hist sid))"

lemma content_append [simp]: "content (hist @ hist') sid = content hist sid @ content hist' sid"
  by (simp add: content_def)

lemma content_single [simp]: "content [(i, data)] sid = (if i = sid then data else [])"
  by (simp add: content_def)

lemma presented_append: "presented hist data \<Longrightarrow> presented (hist @ hist') data"
  by (fastforce simp: presented_def sublist_def)

text \<open>
  The invariant: what is buffered of a unidirectional stream is the end of what arrived on it, the
  commands that wait were presented, and an authenticated connection has the name of a user whose
  token was presented.
\<close>

definition cred_inv :: "tuic_env \<Rightarrow> tuic_user list \<Rightarrow> (u64 \<times> bytes) list \<Rightarrow> tuic_app \<Rightarrow> bool" where
  "cred_inv env users hist app \<longleftrightarrow> app_users app = users \<and>
     (\<forall>sid buf. fmlookup (uni_streams app) sid = Some (Receiving buf) \<longrightarrow>
        is_unidirectional sid \<and> suffix buf (content hist sid)) \<and>
     (\<forall>c \<in> set (pending_uni_commands app). presented hist c) \<and>
     (authenticated app \<longrightarrow> (\<exists>user data. user \<in> set users \<and> app_username app = Some (tu_name user) \<and>
        presented hist data \<and> valid_token env user data))"

lemma cred_inv_same: "same_auth s s' \<Longrightarrow> cred_inv env users hist s \<Longrightarrow> cred_inv env users hist s'"
  by (simp add: same_auth_def cred_inv_def)

lemma cred_inv_append:
  assumes "cred_inv env users hist s" "\<And>sid buf. fmlookup (uni_streams s) sid = Some (Receiving buf) \<Longrightarrow>
      suffix buf (content (hist @ hist') sid)"
  shows "cred_inv env users (hist @ hist') s"
  using assms presented_append unfolding cred_inv_def by meson

lemma auth_with_cred:
  assumes "presented hist data" "cred_inv env users hist s"
    and "\<And>c s. presented hist c \<Longrightarrow> cred_inv env users hist s \<Longrightarrow> cred_inv env users hist (snd (replay c s))"
  shows "cred_inv env users hist (snd (handle_auth_data_with replay env now data s))"
proof (cases "check_credentials env now data s")
  case (Pair r s')
  show ?thesis
  proof (cases r)
    case (Inr user)
    let ?s = "(admit user s)\<lparr>pending_uni_commands := []\<rparr>"
    have "app_users s = users" using assms(2) by (simp add: cred_inv_def)
    then have "user \<in> set users" "valid_token env user data"
      using check_credentials_Inr [of env now data s user s'] Pair Inr by simp_all
    then have "cred_inv env users hist ?s"
      using assms(1,2) unfolding cred_inv_def by (auto simp: admit_def)
    moreover have "sm_rel (\<lambda>a b. cred_inv env users hist a \<longrightarrow> cred_inv env users hist b)
        (sm_for (pending_uni_commands s) replay)"
    proof (rule sm_rel_for)
      fix c assume "c \<in> set (pending_uni_commands s)"
      then have "presented hist c" using assms(2) by (simp add: cred_inv_def)
      then show "sm_rel (\<lambda>a b. cred_inv env users hist a \<longrightarrow> cred_inv env users hist b) (replay c)"
        using assms(3) by (simp add: sm_rel_def)
    qed simp_all
    ultimately have cmds: "cred_inv env users hist (snd (sm_for (pending_uni_commands s) replay ?s))"
      unfolding sm_rel_def by blast
    have "cred_inv env users hist (snd (replay_waiting env now t))" if "cred_inv env users hist t" for t
      using same_auth_waiting [of env now] that unfolding sm_rel_def by (blast intro: cred_inv_same)
    with cmds show ?thesis using Pair Inr
      by (auto simp: auth_with_Inr sm_bind_def split: prod.split sum.split)
  qed (use Pair assms(2) in \<open>simp add: auth_with_Inl\<close>)
qed

lemma command_with_cred:
  assumes "presented hist data" "cred_inv env users hist s"
    and "cred_inv env users hist (snd (auth env now data s))"
  shows "cred_inv env users hist (snd (handle_unidirectional_command_with auth env now data s))"
proof -
  have "cred_inv env users hist (snd (handle_packet env now data Quic s))"
    using same_auth_packet [of env now data Quic] assms(2) unfolding sm_rel_def by (blast intro: cred_inv_same)
  moreover have "cred_inv env users hist (s\<lparr>pending_uni_commands := pending_uni_commands s @ [data]\<rparr>)"
      "cred_inv env users hist (s\<lparr>udp_sessions := m\<rparr>)" for m
    using assms(1,2) by (auto simp: cred_inv_def)
  ultimately show ?thesis
    using assms by (auto simp: handle_unidirectional_command_with_def Let_def split: sum.split)
qed

lemma command_cred:
  assumes "presented hist data" "cred_inv env users hist s"
  shows "cred_inv env users hist (snd (handle_unidirectional_command env now data s))"
  unfolding handle_unidirectional_command_def handle_auth_data_def handle_auth_again_def
  using assms by (intro command_with_cred auth_with_cred) (simp_all add: sm_return_def)

lemma uni_stream_cred:
  assumes "cred_inv env users hist s" "is_unidirectional sid"
    and "handle_unidirectional_stream env now sid data fin s = (Inr (), s')"
  shows "cred_inv env users (hist @ [(sid, data)]) s'"
proof -
  let ?i = "if fmlookup (uni_streams s) sid = None then 1 else (0::nat)"
  let ?h = "hist @ [(sid, data)]"
  obtain t where t: "reserve_pre_auth now (length data) ?i s = (Inr (), t)"
    using assms(3) by (auto simp: handle_unidirectional_stream_def sm_bind_def split: prod.splits sum.splits)
  have inv: "cred_inv env users hist t"
    using sm_relD [OF same_auth_reserve t] assms(1) by (rule cred_inv_same)
  have upd: "cred_inv env users ?h (t\<lparr>uni_streams := m\<rparr>)"
    if m: "\<And>i b. fmlookup m i = Some (Receiving b) \<Longrightarrow> i \<noteq> sid \<and> fmlookup (uni_streams t) i = Some (Receiving b) \<or>
        i = sid \<and> suffix b (content ?h sid)" for m
  proof -
    have "is_unidirectional i \<and> suffix b (content ?h i)" if "fmlookup m i = Some (Receiving b)" for i b
      using m [OF that] inv assms(2) by (auto simp: cred_inv_def)
    moreover have "\<forall>c \<in> set (pending_uni_commands t). presented ?h c"
      using inv presented_append by (auto simp: cred_inv_def)
    moreover have "authenticated t \<longrightarrow> (\<exists>user data'. user \<in> set users \<and> app_username t = Some (tu_name user) \<and>
        presented ?h data' \<and> valid_token env user data')"
      using inv presented_append unfolding cred_inv_def by blast
    ultimately show ?thesis using inv by (simp add: cred_inv_def)
  qed
  show ?thesis
  proof (cases "case fmlookup (uni_streams t) sid of Some state \<Rightarrow> state | None \<Rightarrow> Receiving []")
    case (Receiving buf)
    have suf: "suffix (buf @ data) (content ?h sid)"
      using inv Receiving by (auto simp: cred_inv_def split: option.splits)
    then have "presented ?h (buf @ data)"
      unfolding presented_def using assms(2) suffix_imp_sublist by blast
    note cmd = command_cred [OF this, of env users _ now]
    have "s' = snd (handle_unidirectional_command env now (buf @ data)
          (t\<lparr>uni_streams := (if fin then fmdrop sid (uni_streams t) else fmupd sid Authenticated (uni_streams t))\<rparr>)) \<or>
        s' = t\<lparr>uni_streams := fmupd sid (Receiving (buf @ data)) (uni_streams t)\<rparr>"
      using assms(3) t Receiving by (auto simp: handle_unidirectional_stream_def Let_def split: if_splits)
    then show ?thesis
    proof
      assume *: "s' = snd (handle_unidirectional_command env now (buf @ data)
          (t\<lparr>uni_streams := (if fin then fmdrop sid (uni_streams t) else fmupd sid Authenticated (uni_streams t))\<rparr>))"
      show ?thesis unfolding * by (intro cmd upd) (auto split: if_splits)
    qed (use suf in \<open>auto intro!: upd split: if_splits\<close>)
  next
    case Authenticated
    then have s': "s' = t\<lparr>uni_streams := (if fin then fmdrop sid (uni_streams t) else uni_streams t)\<rparr>"
      using assms(3) t by (auto simp: handle_unidirectional_stream_def split: if_splits)
    show ?thesis unfolding s' by (rule upd) (use Authenticated in \<open>auto split: if_splits option.splits\<close>)
  qed
qed

section \<open>Runs of a connection\<close>

text \<open>
  What may happen to a connection, with the data that it read: its handlers are called and succeed, as an
  error closes it, and in between its tasks change the channels they share with it.
\<close>

fun read_data :: "(u64 \<times> stream_recv) list \<Rightarrow> (u64 \<times> bytes) list" where
  "read_data [] = []"
| "read_data ((sid, Received data fin) # reads) = (sid, data) # read_data reads"
| "read_data ((sid, RecvDone) # reads) = read_data reads"
| "read_data ((sid, RecvError e) # reads) = read_data reads"

inductive tuic_reach :: "tuic_env \<Rightarrow> string \<Rightarrow> tuic_user list \<Rightarrow> (u64 \<times> bytes) list \<Rightarrow> tuic_app \<Rightarrow> bool"
  for env inbound users where
  reach_new: "tuic_reach env inbound users [] (tuic_app_new inbound users now)"
| reach_established: "tuic_reach env inbound users hist app \<Longrightarrow>
    tuic_reach env inbound users hist (on_conn_established now app)"
| reach_wait: "tuic_reach env inbound users hist app \<Longrightarrow> wait_for_data now arrived later app = (Inr (), app') \<Longrightarrow>
    tuic_reach env inbound users hist app'"
| reach_reads: "tuic_reach env inbound users hist app \<Longrightarrow>
    process_reads env now reads dgrams app = (Inr beats, app') \<Longrightarrow>
    tuic_reach env inbound users (hist @ read_data reads) app'"
| reach_writes: "tuic_reach env inbound users hist app \<Longrightarrow>
    process_writes env now replies app = (Some (Inr ()), app') \<Longrightarrow>
    tuic_reach env inbound users hist app'"
| reach_tasks: "tuic_reach env inbound users hist app \<Longrightarrow>
    tuic_reach env inbound users hist (app\<lparr>outbound_rx := rx, app_streams := fmmap f (app_streams app),
      udp_sessions := fmmap g (udp_sessions app)\<rparr>)"

lemma reach_unserved: "tuic_reach env inbound users hist app \<Longrightarrow> unserved app"
proof (induction rule: tuic_reach.induct)
  case (reach_new now)
  show ?case by (simp add: tuic_app_new_def unserved_def budget_defs)
next
  case (reach_established hist app now)
  then show ?case by (simp add: on_conn_established_def unserved_def budget_defs)
next
  case (reach_wait hist app now arrived later app')
  then show ?case using sm_relD [OF unserved_wait] by blast
next
  case (reach_reads hist app now reads dgrams beats app')
  then show ?case using sm_relD [OF unserved_reads] by blast
next
  case (reach_writes hist app now replies app')
  then show ?case using unserved_writes [of app env now replies] by simp
next
  case (reach_tasks hist app rx f g)
  then show ?case by (auto simp: unserved_def budget_defs)
qed

lemma read_cred:
  assumes "sm_for reads (read_stream env now) s = (Inr (), s')" "cred_inv env users hist s"
  shows "cred_inv env users (hist @ read_data reads) s'"
  using assms
proof (induction reads arbitrary: s hist)
  case (Cons ev reads)
  obtain sid r where ev: "ev = (sid, r)" by (cases ev)
  obtain t where t: "read_stream env now ev s = (Inr (), t)" "sm_for reads (read_stream env now) t = (Inr (), s')"
    using Cons.prems(1) by (auto simp: sm_bind_Inr_iff)
  show ?case
  proof (cases r)
    case (Received data fin)
    have "cred_inv env users (hist @ [(sid, data)]) t"
    proof (cases "is_unidirectional sid")
      case True
      with t(1) ev Received show ?thesis using uni_stream_cred [OF Cons.prems(2) True] by simp
    next
      case False
      then have "same_auth s t" using t(1) ev Received sm_relD [OF same_auth_stream] by simp
      then have "cred_inv env users hist t" using Cons.prems(2) by (rule cred_inv_same)
      moreover have "suffix buf (content (hist @ [(sid, data)]) i)"
        if "fmlookup (uni_streams t) i = Some (Receiving buf)" for i buf
        using that False calculation by (auto simp: cred_inv_def)
      ultimately show ?thesis by (rule cred_inv_append)
    qed
    with Cons.IH [OF t(2), of "hist @ [(sid, data)]"] ev Received show ?thesis by simp
  qed (use Cons.IH [OF t(2)] t(1) Cons.prems(2) ev in \<open>auto simp: sm_return_def sm_fail_def\<close>)
qed (simp add: sm_return_def)

lemma cred_inv_cleanup: "cred_inv env users hist s \<Longrightarrow> cred_inv env users hist (maybe_cleanup_udp_state now s)"
  using cred_inv_same [of s "maybe_cleanup_udp_state now s"]
  by (simp add: same_auth_def maybe_cleanup_udp_state_def evict_idle_udp_sessions_def)

lemma reads_cred:
  assumes "process_reads env now reads dgrams s = (Inr beats, s')" "cred_inv env users hist s"
  shows "cred_inv env users (hist @ read_data reads) s'"
proof -
  obtain t u where t: "sm_for reads (read_stream env now) (maybe_cleanup_udp_state now s) = (Inr (), t)"
      "sm_for (filter (\<lambda>d. \<not> is_heartbeat (env_core env) d) dgrams) (handle_datagram env now) t = (Inr (), u)" "s' = u"
    using assms(1) check_deadline_Inr [of now s]
    by (auto simp: process_reads_def sm_bind_Inr_iff sm_return_def)
  have "same_auth t u" using sm_relD [OF same_auth_for [OF same_auth_datagram] t(2)] .
  then show ?thesis using read_cred [OF t(1) cred_inv_cleanup [OF assms(2)]] t(3) cred_inv_same by blast
qed

lemma same_auth_write_step: "sm_rel same_auth (quic_write_step core now w reply)"
proof -
  have touch: "same_auth s (touch_udp_session now assoc s)" for assoc s
    by (auto simp: touch_udp_session_def same_auth_def split: option.split)
  then have "same_auth s ((touch_udp_session now assoc s)\<lparr>next_uni_stream_id := i\<rparr>)"
      "same_auth s (push_front ws (touch_udp_session now assoc s))"
      "same_auth s (push_front ws ((touch_udp_session now assoc s)\<lparr>next_uni_stream_id := i\<rparr>))" for s ws i assoc
    by (auto simp: push_front_def same_auth_def)
  moreover have "same_auth s (push_front ws s)" "same_auth s (s\<lparr>app_streams := m\<rparr>)" for s ws m
    by (simp_all add: push_front_def same_auth_def)
  ultimately show ?thesis
    unfolding sm_rel_def by (cases w; cases reply) (auto simp: Let_def touch split: option.split sum.split)
qed

lemma same_auth_write_loop: "same_auth s (snd (write_loop core now replies s))"
proof (induction replies arbitrary: s)
  case (Cons reply replies)
  show ?case
  proof (cases "pending_writes s")
    case (Cons w rest)
    obtain r t where t: "quic_write_step core now w reply (s\<lparr>pending_writes := rest\<rparr>) = (r, t)"
      by (cases "quic_write_step core now w reply (s\<lparr>pending_writes := rest\<rparr>)")
    have "same_auth s t" using sm_relD [OF same_auth_write_step t] by (simp add: same_auth_def)
    moreover have "same_auth s (snd (write_loop core now replies t))"
      using same_auth_trans [OF calculation Cons.IH] .
    ultimately show ?thesis using Cons t by (cases r) (auto split: bool.split)
  qed simp
qed simp

lemma reach_cred: "tuic_reach env inbound users hist app \<Longrightarrow> cred_inv env users hist app"
proof (induction rule: tuic_reach.induct)
  case (reach_new now)
  show ?case by (simp add: tuic_app_new_def cred_inv_def)
next
  case (reach_established hist app now)
  then show ?case by (simp add: on_conn_established_def cred_inv_def)
next
  case (reach_wait hist app now arrived later app')
  then obtain ws where "app' = (maybe_cleanup_udp_state now app)\<lparr>pending_writes := ws\<rparr> \<or>
      app' = maybe_cleanup_udp_state now app"
    by (auto simp: wait_for_data_def sm_bind_Inr_iff check_deadline_Inr Let_def split: option.splits if_splits)
  then have "same_auth (maybe_cleanup_udp_state now app) app'" by (auto simp: same_auth_def)
  then show ?case using cred_inv_cleanup [OF reach_wait.IH] by (rule cred_inv_same)
next
  case (reach_reads hist app now reads dgrams beats app')
  then show ?case by (blast intro: reads_cred)
next
  case (reach_writes hist app now replies app')
  let ?clean = "maybe_cleanup_udp_state now app"
  let ?s = "?clean\<lparr>pending_writes := pending_writes ?clean @ outbound_rx ?clean, outbound_rx := []\<rparr>"
  have "app' = snd (write_loop (env_core env) now replies ?s)"
    using reach_writes.hyps(2)
    by (auto simp: process_writes_def check_authentication_deadline_def Let_def split: if_splits)
  then have "same_auth ?s app'" using same_auth_write_loop by simp
  then have "same_auth ?clean app'" by (simp add: same_auth_def)
  then show ?case using cred_inv_cleanup [OF reach_writes.IH] by (rule cred_inv_same)
next
  case (reach_tasks hist app rx f g)
  then show ?case by (simp add: cred_inv_def)
qed

section \<open>Properties\<close>

text \<open>What a client with the credentials of a user sends is accepted.\<close>

lemma check_credentials_accepts:
  assumes "tuic_v5 (env_core env)" "find (\<lambda>u. tu_uuid u = uuid) (app_users s) = Some user"
    and "token (env_exporter env) uuid (as_bytes (tu_password user)) = Inr tok" "length tok = TOKEN_LEN"
    and "encode_authenticate (env_core env) uuid tok = Inr data"
    and "authenticated s \<or> now < authentication_deadline s"
  shows "check_credentials env now data s = (Inr user, s)"
    and "length data = AUTHENTICATE_LEN" "data ! 1 = TYPE_CODE_AUTHENTICATE (env_core env)"
proof -
  have ok: "header_ok (HAuthenticate uuid tok)" using assms(4) by (simp add: TOKEN_LEN_def)
  then have data: "data = format_header (HAuthenticate uuid tok)"
    using assms(1,5) by (simp add: encode_authenticate_def v5_marshal)
  have "parse_authenticate (env_core env) data = Inr (uuid, tok)"
    using v5_parse [OF assms(1) ok, of "[]"] data by (simp add: parse_authenticate_def and_then_def)
  moreover have "tu_uuid user = uuid" using assms(2) by (auto simp: find_Some_iff)
  ultimately show "check_credentials env now data s = (Inr user, s)"
    using assms(2,3,6) by (auto simp: check_credentials_def sm_bind_def sm_lift_def check_authentication_deadline_def)
  show "length data = AUTHENTICATE_LEN" "data ! 1 = TYPE_CODE_AUTHENTICATE (env_core env)"
    using data assms(1,4) by (simp_all add: AUTHENTICATE_LEN_def TOKEN_LEN_def tuic_v5_def)
qed

definition demo_user :: tuic_user where
  "demo_user = \<lparr>tu_name = ''alice'', tu_uuid = 1, tu_password = ''secret''\<rparr>"

definition demo_token :: bytes where
  "demo_token = replicate 32 7"

definition demo_env :: tuic_env where
  "demo_env = \<lparr>env_core = v5_core, env_exporter = (\<lambda>len label context. Some (replicate len 7)),
     env_into_iter = (\<lambda>m. map (\<lambda>k. (k, the (fmlookup m k))) (sorted_list_of_fset (fmdom m)))\<rparr>"

definition demo_auth :: bytes where
  "demo_auth = format_header (HAuthenticate 1 demo_token)"

lemma demo_credentials:
  assumes "app_users s = [demo_user]" "authenticated s \<or> now < authentication_deadline s"
  shows "check_credentials demo_env now demo_auth s = (Inr demo_user, s)"
    and "length demo_auth = AUTHENTICATE_LEN" "demo_auth ! 1 = TYPE_CODE_AUTHENTICATE v5_core"
proof -
  have "encode_authenticate v5_core 1 demo_token = Inr demo_auth"
    by (simp add: encode_authenticate_def marshal_header_def v5_core_def demo_auth_def)
  then show "check_credentials demo_env now demo_auth s = (Inr demo_user, s)"
      "length demo_auth = AUTHENTICATE_LEN" "demo_auth ! 1 = TYPE_CODE_AUTHENTICATE v5_core"
    using check_credentials_accepts [of demo_env 1 s demo_user demo_token demo_auth now] assms tuic_v5_core
    by (simp_all add: demo_env_def demo_user_def demo_token_def token_def TOKEN_LEN_def)
qed

lemma demo_iter_empty: "env_into_iter demo_env fmempty = []"
  by (simp add: demo_env_def sorted_list_of_fset.rep_eq)

lemma demo_authenticates:
  "\<exists>app. process_reads demo_env 1 [(2, Received demo_auth True)] [] (tuic_app_new ''in'' [demo_user] 0) =
     (Inr [], app) \<and> authenticated app"
proof -
  let ?s = "tuic_app_new ''in'' [demo_user] 0"
  let ?t = "?s\<lparr>pre_auth_bytes := AUTHENTICATE_LEN, pre_auth_items := 1, uni_streams := fmempty\<rparr>"
  have s: "?s = \<lparr>app_inbound = ''in'', app_users = [demo_user], authenticated = False,
      authentication_deadline = 10000000000, pre_auth_bytes = 0, pre_auth_items = 0,
      app_username = None, uni_streams = fmempty, pending_uni_commands = [], pending_datagrams = [],
      pending_streams = fmempty, app_streams = fmempty, udp_sessions = fmempty, app_assembler = fmempty,
      next_udp_cleanup = 30000000000, next_uni_stream_id = 3, outbound_rx = [],
      pending_writes = [], app_relays = [], app_udp_relays = []\<rparr>"
    by (simp add: tuic_app_new_def AUTHENTICATION_TIMEOUT_def UDP_SESSION_CLEANUP_INTERVAL_def from_secs_def)
  have "check_credentials demo_env 1 demo_auth ?t = (Inr demo_user, ?t)"
    by (rule demo_credentials(1)) (simp_all add: s)
  then have auth: "handle_auth_data demo_env 1 demo_auth ?t = (Inr (), admit demo_user ?t)"
    by (simp add: handle_auth_data_def auth_with_Inr s admit_def sm_return_def replay_waiting_def demo_iter_empty)
  have len: "length demo_auth = AUTHENTICATE_LEN" "demo_auth ! 1 = TYPE_CODE_AUTHENTICATE (env_core demo_env)"
      "AUTHENTICATE_LEN = 50"
    using demo_credentials(2,3) [of ?t 1]
    by (simp_all add: s demo_env_def AUTHENTICATE_LEN_def TOKEN_LEN_def)
  then have "handle_unidirectional_stream demo_env 1 2 demo_auth True ?s = handle_auth_data demo_env 1 demo_auth ?t"
    by (simp add: handle_unidirectional_stream_def reserve_pre_auth_def sm_bind_def check_authentication_deadline_def s
        MAX_PRE_AUTH_BYTES_def MAX_PRE_AUTH_ITEMS_def handle_unidirectional_command_def
        handle_unidirectional_command_with_def Let_def)
  with auth show ?thesis
    by (simp add: process_reads_def sm_bind_def check_authentication_deadline_def maybe_cleanup_udp_state_def s
        is_unidirectional_def sm_return_def admit_def)
qed

text \<open>C2: A connection that is not authenticated is bounded and served nothing. In every state that a
  run of the handlers reaches, if the client has not authenticated, then the connection keeps at most
  256 KiB and 256 items of what it received over all streams and datagrams, and no stream was dialed, no
  association opened and no fragment stored.\<close>

theorem tuic_pre_auth_bounded:
  assumes "tuic_reach env inbound users hist app" "\<not> authenticated app"
  shows "retained_bytes app \<le> 256 * 1024 \<and> retained_items app \<le> 256 \<and> served_nothing app"
  using reach_unserved [OF assms(1)] assms(2)
  by (auto simp: unserved_def within_budget_def MAX_PRE_AUTH_BYTES_def MAX_PRE_AUTH_ITEMS_def)

theorem tuic_pre_auth_bounded_witness:
  "case process_reads demo_env 1 [(0, Received [5, 1] False)] [] (tuic_app_new ''in'' [demo_user] 0) of
     (r, app) \<Rightarrow> retained_bytes app = 2 \<and> retained_bytes app \<le> 256 * 1024 \<and> served_nothing app"
proof -
  let ?s = "tuic_app_new ''in'' [demo_user] 0"
  let ?app = "?s\<lparr>pre_auth_bytes := 2, pre_auth_items := 1,
    pending_streams := fmupd 0 \<lparr>ps_data = [5, 1], ps_fin = False\<rparr> fmempty\<rparr>"
  have run: "process_reads demo_env 1 [(0, Received [5, 1] False)] [] ?s = (Inr [], ?app)"
    by (simp add: process_reads_def sm_bind_def check_authentication_deadline_def maybe_cleanup_udp_state_def
        is_unidirectional_def sm_return_def tuic_app_new_def AUTHENTICATION_TIMEOUT_def
        UDP_SESSION_CLEANUP_INTERVAL_def from_secs_def handle_stream_data_def reserve_pre_auth_def
        MAX_PRE_AUTH_BYTES_def MAX_PRE_AUTH_ITEMS_def)
  have "retained_bytes ?app = 2" "\<not> authenticated ?app"
    by (simp_all add: retained_bytes_def tuic_app_new_def fm_sum_upd)
  with run tuic_pre_auth_bounded [OF reach_reads [OF reach_new run]] show ?thesis by simp
qed

text \<open>C1: Only a user who presents a valid token is authenticated. In every state that a run reaches, an
  authenticated connection carries the name of a configured user, and the client has sent on a
  unidirectional stream an authentication command with this user's identifier and with the token that
  the keying material of this very connection gives for the user's password.\<close>

theorem tuic_authentication_sound:
  assumes "tuic_reach env inbound users hist app" "authenticated app"
  shows "\<exists>user data tok. user \<in> set users \<and> app_username app = Some (tu_name user) \<and>
    (\<exists>sid. is_unidirectional sid \<and> sublist data (content hist sid)) \<and>
    parse_authenticate (env_core env) data = Inr (tu_uuid user, tok) \<and>
    token (env_exporter env) (tu_uuid user) (as_bytes (tu_password user)) = Inr tok"
  using reach_cred [OF assms(1)] assms(2) unfolding cred_inv_def presented_def valid_token_def by blast

theorem tuic_authentication_sound_witness:
  "\<exists>app data. tuic_reach demo_env ''in'' [demo_user] [(2, demo_auth)] app \<and> authenticated app \<and>
     app_username app = Some ''alice'' \<and>
     parse_authenticate v5_core data = Inr (1, demo_token)"
proof -
  obtain app where app: "process_reads demo_env 1 [(2, Received demo_auth True)] [] (tuic_app_new ''in'' [demo_user] 0) =
      (Inr [], app)" "authenticated app"
    using demo_authenticates by blast
  from reach_reads [OF reach_new app(1)]
  have r: "tuic_reach demo_env ''in'' [demo_user] [(2, demo_auth)] app" by simp
  from tuic_authentication_sound [OF r app(2)] obtain data tok where
      "app_username app = Some (tu_name demo_user)" "parse_authenticate v5_core data = Inr (tu_uuid demo_user, tok)"
      "token (env_exporter demo_env) (tu_uuid demo_user) (as_bytes (tu_password demo_user)) = Inr tok"
    by (auto simp: demo_env_def)
  with r app(2) show ?thesis
    by (intro exI [of _ app] exI [of _ data])
      (simp add: demo_user_def token_def demo_env_def demo_token_def TOKEN_LEN_def)
qed

text \<open>C29: The deadline holds. A connection whose client is not authenticated at the deadline fails at every
  entry, without changing state: waiting, reading and writing all return the time-out. Waiting does not
  sleep past the deadline.\<close>

theorem tuic_authentication_deadline:
  assumes "\<not> authenticated app" "authentication_deadline app \<le> now"
  shows "process_reads env now reads dgrams app = (Inl (Bail ''tuic authentication timed out''), app) \<and>
    process_writes env now replies app = (Some (Inl (Bail ''tuic authentication timed out'')), app) \<and>
    wait_for_data now arrived later app = (Inl (Bail ''tuic authentication timed out''), app) \<and>
    fst (wait_for_data earlier arrived now app) = Inl (Bail ''tuic authentication timed out'') \<and>
    wake_at app \<le> authentication_deadline app"
proof -
  have "\<not> authenticated (maybe_cleanup_udp_state earlier app)"
      "authentication_deadline (maybe_cleanup_udp_state earlier app) \<le> now"
    using assms by (simp_all add: maybe_cleanup_udp_state_def evict_idle_udp_sessions_def)
  with assms show ?thesis
    by (auto simp: process_reads_def process_writes_def wait_for_data_def sm_bind_def
        check_authentication_deadline_def wake_at_def Let_def split: option.split)
qed

theorem tuic_authentication_deadline_witness:
  "process_reads demo_env (from_secs 10) [(2, Received demo_auth True)] [] (tuic_app_new ''in'' [demo_user] 0) =
     (Inl (Bail ''tuic authentication timed out''), tuic_app_new ''in'' [demo_user] 0)"
  using tuic_authentication_deadline [of "tuic_app_new ''in'' [demo_user] 0" "from_secs 10"]
  by (simp add: tuic_app_new_def AUTHENTICATION_TIMEOUT_def)

end
