(* ===== verification/Tuic_Writes.thy ===== *)
theory Tuic_Writes
  imports Tuic_Auth
begin

text \<open>
  The write queue of a TUIC connection: nothing is lost or reordered when QUIC takes only a part of a
  write, and the loop returns although it replaces datagrams that are too long by their fragments.
\<close>

section \<open>Order\<close>

text \<open>The contents of a write as a sequence of single items, and what an answer has taken of it.\<close>

datatype wire_item =
    StreamByte u64 u8
  | StreamFin u64
  | UniByte "u16 option" u8
  | UniFin "u16 option"
  | DatagramItem "u16 option" bytes

fun is_datagram :: "wire_item \<Rightarrow> bool" where
  "is_datagram (DatagramItem _ _) = True"
| "is_datagram _ = False"

fun items :: "quic_write \<Rightarrow> wire_item list" where
  "items (Data sid data fin) = map (StreamByte sid) data @ (if fin then [StreamFin sid] else [])"
| "items (Datagram assoc_id data) = [DatagramItem assoc_id data]"
| "items (UniStream assoc_id sid data) = map (UniByte assoc_id) data @ [UniFin assoc_id]"
| "items (Close sid) = [StreamFin sid]"

fun taken :: "quic_write \<Rightarrow> quic_reply \<Rightarrow> wire_item list" where
  "taken (Data sid data fin) (Accepted n) =
     (if n = length data then items (Data sid data fin) else map (StreamByte sid) (take n data))"
| "taken (Data sid data fin) Done = (if fin \<and> data = [] then [StreamFin sid] else [])"
| "taken (Datagram assoc_id data) (Accepted n) = [DatagramItem assoc_id data]"
| "taken (UniStream assoc_id sid data) (Accepted n) =
     (if n = length data then items (UniStream assoc_id sid data) else map (UniByte assoc_id) (take n data))"
| "taken (Close sid) reply = [StreamFin sid]"
| "taken _ _ = []"

fun write_log :: "tuic_core \<Rightarrow> instant \<Rightarrow> quic_reply list \<Rightarrow> tuic_app \<Rightarrow> wire_item list" where
  "write_log core now [] app = []"
| "write_log core now (reply # replies) app =
     (case pending_writes app of
        [] \<Rightarrow> []
      | w # rest \<Rightarrow>
          taken w reply @
          (case quic_write_step core now w reply (app\<lparr>pending_writes := rest\<rparr>) of
             (Inr True, app) \<Rightarrow> write_log core now replies app
           | _ \<Rightarrow> []))"

abbreviation queued :: "tuic_app \<Rightarrow> wire_item list" where
  "queued app \<equiv> concat (map items (pending_writes app))"

fun too_short :: "quic_reply \<Rightarrow> bool" where
  "too_short (BufferTooShort _) = True"
| "too_short _ = False"

lemma touch_pending [simp]: "pending_writes (touch_udp_session now assoc_id app) = pending_writes app"
  by (simp add: touch_udp_session_def split: option.split)

lemma write_step_items:
  assumes "quic_write_step core now w reply app = (Inr go, app')"
  shows "filter (\<lambda>i. \<not> is_datagram i) (items w @ queued app) =
      filter (\<lambda>i. \<not> is_datagram i) (taken w reply @ queued app')"
    and "\<not> too_short reply \<Longrightarrow> items w @ queued app = taken w reply @ queued app'"
proof -
  have split: "map f data = map f (take n data) @ map f (drop n data)" for f :: "u8 \<Rightarrow> wire_item" and n data
    by (metis append_take_drop_id map_append)
  have dg: "filter (\<lambda>i. \<not> is_datagram i) (concat (map (items \<circ> Datagram a) ds)) = []" for a ds
    by (induction ds) simp_all
  show "\<not> too_short reply \<Longrightarrow> items w @ queued app = taken w reply @ queued app'"
    using assms split
    by (cases w; cases reply) (auto simp: push_front_def Let_def split: if_splits)
  then show "filter (\<lambda>i. \<not> is_datagram i) (items w @ queued app) =
      filter (\<lambda>i. \<not> is_datagram i) (taken w reply @ queued app')"
    using assms dg
    by (cases "too_short reply"; cases w; cases reply) (auto simp: push_front_def Let_def split: sum.splits)
qed

lemma write_loop_items:
  assumes "write_loop core now replies app = (Some (Inr ()), app')"
  shows "filter (\<lambda>i. \<not> is_datagram i) (queued app) =
      filter (\<lambda>i. \<not> is_datagram i) (write_log core now replies app @ queued app')"
    and "list_all (\<lambda>r. \<not> too_short r) replies \<Longrightarrow> queued app = write_log core now replies app @ queued app'"
  using assms
proof (induction replies arbitrary: app)
  case Nil
  { case 1 then show ?case by (simp split: if_splits) }
  { case 2 then show ?case by (simp split: if_splits) }
next
  case (Cons reply replies)
  { case 1
    show ?case
    proof (cases "pending_writes app")
      case (Cons w rest)
      let ?s = "app\<lparr>pending_writes := rest\<rparr>"
      obtain go t where t: "quic_write_step core now w reply ?s = (Inr go, t)"
        using 1 Cons by (auto split: prod.splits sum.splits)
      then show ?thesis
        using 1 Cons write_step_items(1) [OF t] Cons.IH(1) [of t] by (cases go) auto
    qed (use 1 in simp) }
  { case 2
    show ?case
    proof (cases "pending_writes app")
      case (Cons w rest)
      let ?s = "app\<lparr>pending_writes := rest\<rparr>"
      obtain go t where t: "quic_write_step core now w reply ?s = (Inr go, t)"
        using 2 Cons by (auto split: prod.splits sum.splits)
      then show ?thesis
        using 2 Cons write_step_items(2) [OF t] Cons.IH(2) [of t] by (cases go) auto
    qed (use 2 in simp) }
qed

text \<open>The state in which \<open>process_writes\<close> starts to write.\<close>

definition drained :: "instant \<Rightarrow> tuic_app \<Rightarrow> tuic_app" where
  "drained now app = (let app = maybe_cleanup_udp_state now app in
     app\<lparr>pending_writes := pending_writes app @ outbound_rx app, outbound_rx := []\<rparr>)"

lemma process_writes_Some:
  "process_writes env now replies app = (Some (Inr ()), app') \<longleftrightarrow>
     (authenticated app \<or> now < authentication_deadline app) \<and>
     write_loop (env_core env) now replies (drained now app) = (Some (Inr ()), app')"
  by (auto simp: process_writes_def drained_def check_authentication_deadline_def Let_def)

lemma drained_queue: "pending_writes (drained now app) = pending_writes app @ outbound_rx app"
  by (simp add: drained_def Let_def maybe_cleanup_udp_state_def evict_idle_udp_sessions_def)


definition demo_serving :: tuic_app where
  "demo_serving = (tuic_app_new ''in'' [demo_user] 0)
     \<lparr>authenticated := True, pending_writes := [Data 0 [1, 2, 3] False], outbound_rx := [Data 4 [4] True]\<rparr>"


section \<open>Termination\<close>

text \<open>
  The datagrams in the queue are encoded packets. What QUIC promises is that it calls a datagram too long
  only if it is longer than the limit it reports, and that it does not answer so to a stream.
\<close>

definition canonical :: "tuic_core \<Rightarrow> bytes \<Rightarrow> bool" where
  "canonical core d \<longleftrightarrow> (\<exists>p. packet_valid p \<and> parse_packet core d = Inr p \<and> encode_packet core p = Inr d)"

fun canonical_write :: "tuic_core \<Rightarrow> quic_write \<Rightarrow> bool" where
  "canonical_write core (Datagram _ d) = canonical core d"
| "canonical_write core _ = True"

fun reply_lawful :: "quic_write \<Rightarrow> quic_reply \<Rightarrow> bool" where
  "reply_lawful (Datagram _ d) (BufferTooShort limit) = (limit < length d)"
| "reply_lawful _ (BufferTooShort limit) = False"
| "reply_lawful _ _ = True"

fun lawful :: "tuic_core \<Rightarrow> instant \<Rightarrow> quic_reply list \<Rightarrow> tuic_app \<Rightarrow> bool" where
  "lawful core now [] app = True"
| "lawful core now (reply # replies) app =
     (case pending_writes app of
        [] \<Rightarrow> True
      | w # rest \<Rightarrow> reply_lawful w reply \<and>
          (case quic_write_step core now w reply (app\<lparr>pending_writes := rest\<rparr>) of
             (Inr True, app) \<Rightarrow> lawful core now replies app
           | _ \<Rightarrow> True))"

text \<open>How many attempts a write may take: a packet is split at most once, into at most 255 fragments.\<close>

definition packet_weight :: "packet \<Rightarrow> nat" where
  "packet_weight p = (if pk_frag_total p = 1 then 256 else 1)"

fun weight :: "tuic_core \<Rightarrow> quic_write \<Rightarrow> nat" where
  "weight core (Datagram _ d) = (case parse_packet core d of Inl _ \<Rightarrow> 1 | Inr p \<Rightarrow> packet_weight p)"
| "weight core _ = 1"

lemma weight_pos: "1 \<le> weight core w"
  by (cases w) (simp_all add: packet_weight_def split: sum.split)

text \<open>Fragments of a packet are canonical and cannot be split again.\<close>

lemma split_packet:
  assumes "tuic_v5 core" "packet_valid p" "encode_packet core p = Inr d" "limit < length d"
    and "fragment_packet core p limit = Inr fs"
  shows "pk_frag_total p = 1" "2 \<le> length fs" "fragments_of p fs"
    "list_all (\<lambda>f. packet_valid f \<and> packet_weight f = 1 \<and> (\<exists>bs. encode_packet core f = Inr bs)) fs"
proof -
  show whole: "pk_frag_total p = 1"
    using assms(3-5) by (auto simp: fragment_packet_def and_then_Inr_iff ensure_def Let_def split: if_splits)
  have correct: "fragments_of p fs" "list_all (\<lambda>f. \<exists>bs. encode_packet core f = Inr bs \<and> length bs \<le> limit) fs"
    using fragment_packet_correct [OF assms(1,2) whole assms(5)] by simp_all
  from assms(5) have n: "2 \<le> length fs"
  proof (cases rule: fragment_packet_Inr)
    case (split encoded capacity n)
    have "encoded = d" using split(1) assms(3) by simp
    moreover have "length (pk_payload p) \<le> length d"
      using assms(1-3) by (auto simp: encode_packet_iff)
    ultimately have "capacity < length (pk_payload p)" using split(2,4) by linarith
    then have "2 \<le> div_ceil (length (pk_payload p)) capacity"
      using split(3) div_ceil_step [of capacity "length (pk_payload p)"]
        div_ceil_step [of capacity "length (pk_payload p) - capacity"] by linarith
    moreover have "length fs = div_ceil (length (pk_payload p)) capacity"
      using split(3,5,7) by (simp add: length_chunks)
    ultimately show ?thesis by simp
  qed (use assms(3,4) in simp)
  then show "2 \<le> length fs" .
  have "packet_valid f \<and> packet_weight f = 1" if f: "f \<in> set fs" for f
  proof -
    obtain i where i: "i < length fs" "f = fs ! i" using f by (auto simp: in_set_conv_nth)
    then have eq: "f = p\<lparr>pk_frag_total := of_nat (length fs), pk_frag_id := of_nat i,
        pk_target := (if i = 0 then pk_target p else None), pk_payload := pk_payload (fs ! i)\<rparr>"
      using correct(1) by (simp add: fragments_of_def)
    have "length fs \<le> 255" using correct(1) by (simp add: fragments_of_def)
    then have "unat (of_nat (length fs) :: u8) = length fs" by (simp add: unat_of_nat_u8)
    then have "(of_nat (length fs) :: u8) \<noteq> 1" using n by auto
    then show ?thesis using eq assms(2) by (simp add: packet_weight_def packet_valid_def)
  qed
  with correct(2) show "list_all (\<lambda>f. packet_valid f \<and> packet_weight f = 1 \<and> (\<exists>bs. encode_packet core f = Inr bs)) fs"
    by (auto simp: list_all_iff)
  show "fragments_of p fs" by (fact correct(1))
qed

lemma canonical_fragment:
  assumes "tuic_v5 core" "packet_valid f" "encode_packet core f = Inr d" "map_option wire_form (pk_target f) = pk_target f"
  shows "canonical core d" "parse_packet core d = Inr f"
proof -
  have "f\<lparr>pk_target := pk_target f\<rparr> = f" by simp
  then show "parse_packet core d = Inr f"
    using packet_decodes [OF assms(1-3), of "[]"] assms(4) by simp
  with assms(2,3) show "canonical core d" by (auto simp: canonical_def)
qed

lemma encode_fragments:
  assumes "tuic_v5 core" "list_all (\<lambda>f. packet_valid f \<and> packet_weight f = 1 \<and> (\<exists>bs. encode_packet core f = Inr bs)) fs"
    and "list_all (\<lambda>f. map_option wire_form (pk_target f) = pk_target f) fs"
  shows "\<exists>ds. encode_all core fs = Inr ds \<and> list_all (canonical core) ds \<and>
    sum_list (map (weight core \<circ> Datagram a) ds) = length fs"
  using assms(2,3)
proof (induction fs)
  case (Cons f fs)
  obtain d where d: "encode_packet core f = Inr d" using Cons.prems by auto
  have "\<exists>ds. encode_all core fs = Inr ds \<and> list_all (canonical core) ds \<and>
      sum_list (map (weight core \<circ> Datagram a) ds) = length fs"
    by (rule Cons.IH) (use Cons.prems in simp_all)
  then obtain ds where "encode_all core fs = Inr ds" "list_all (canonical core) ds"
      "sum_list (map (weight core \<circ> Datagram a) ds) = length fs" by blast
  with d canonical_fragment [OF assms(1) _ d] Cons.prems show ?case by (simp add: comp_def)
qed simp

lemma write_step_weight:
  assumes "tuic_v5 core" "canonical_write core w" "reply_lawful w reply" "list_all (canonical_write core) (pending_writes app)"
    and "quic_write_step core now w reply app = (Inr True, app')"
  shows "list_all (canonical_write core) (pending_writes app') \<and>
    sum_list (map (weight core) (pending_writes app')) < weight core w + sum_list (map (weight core) (pending_writes app))"
proof (cases "too_short reply")
  case False
  then have "pending_writes app' = pending_writes app"
    using assms(5) by (cases w; cases reply) (auto simp: Let_def push_front_def split: if_splits)
  with assms(4) weight_pos [of core w] show ?thesis by simp
next
  case True
  then obtain a d limit where w: "w = Datagram a d" "reply = BufferTooShort limit" "limit < length d"
    using assms(3) by (cases w; cases reply) auto
  then obtain p where p: "packet_valid p" "parse_packet core d = Inr p" "encode_packet core p = Inr d"
    using assms(2) by (auto simp: canonical_def)
  show ?thesis
  proof (cases "fragment_packet core p limit")
    case (Inl e)
    with assms(4,5) w p weight_pos [of core w] show ?thesis by (auto simp: Let_def)
  next
    case (Inr fs)
    note s = split_packet [OF assms(1) p(1,3) w(3) Inr]
    have "p\<lparr>pk_target := map_option wire_form (pk_target p)\<rparr> = p"
      using packet_decodes [OF assms(1) p(1,3), of "[]"] p(2) by simp
    from arg_cong [OF this, of pk_target] have wire: "map_option wire_form (pk_target p) = pk_target p" by simp
    have "pk_target (fs ! i) = (if i = 0 then pk_target p else None)" if i: "i < length fs" for i
    proof -
      have "fs ! i = p\<lparr>pk_frag_total := of_nat (length fs), pk_frag_id := of_nat i,
          pk_target := (if i = 0 then pk_target p else None), pk_payload := pk_payload (fs ! i)\<rparr>"
        using s(3) i by (simp add: fragments_of_def)
      from arg_cong [OF this, of pk_target] show ?thesis by simp
    qed
    with wire have "list_all (\<lambda>f. map_option wire_form (pk_target f) = pk_target f) fs"
      by (simp add: list_all_length)
    from encode_fragments [OF assms(1) s(4) this] obtain ds where ds: "encode_all core fs = Inr ds"
        "list_all (canonical core) ds" "sum_list (map (weight core \<circ> Datagram a) ds) = length fs" by blast
    have "length fs \<le> 255" using s(3) by (simp add: fragments_of_def)
    moreover have "pending_writes app' = map (Datagram a) ds @ pending_writes app"
      using assms(5) w p Inr ds(1) by (auto simp: Let_def push_front_def)
    moreover have "weight core w = 256" using w p s(1) by (simp add: packet_weight_def)
    ultimately show ?thesis using ds assms(4) by (auto simp: list_all_iff)
  qed
qed

lemma write_loop_returns:
  assumes "tuic_v5 core" "list_all (canonical_write core) (pending_writes app)" "lawful core now replies app"
    and "sum_list (map (weight core) (pending_writes app)) \<le> length replies"
  shows "\<exists>r. fst (write_loop core now replies app) = Some r"
  using assms(2-4)
proof (induction replies arbitrary: app)
  case Nil
  then have "pending_writes app = []" using weight_pos [of core "hd (pending_writes app)"]
    by (cases "pending_writes app") auto
  then show ?case by simp
next
  case (Cons reply replies)
  show ?case
  proof (cases "pending_writes app")
    case w: (Cons w rest)
    let ?s = "app\<lparr>pending_writes := rest\<rparr>"
    obtain r t where t: "quic_write_step core now w reply ?s = (r, t)"
      by (cases "quic_write_step core now w reply ?s")
    show ?thesis
    proof (cases "r = Inr True")
      case True
      have "list_all (canonical_write core) (pending_writes t) \<and>
          sum_list (map (weight core) (pending_writes t)) < weight core w + sum_list (map (weight core) rest)"
        using write_step_weight [OF assms(1), of w reply ?s now t] Cons.prems(1,2) w t True by simp
      then show ?thesis using Cons.IH [of t] Cons.prems w t True by simp
    next
      case False
      then show ?thesis using w t by (cases r) auto
    qed
  qed simp
qed

text \<open>C31: A round of writing returns. Let the queued datagrams be encoded packets, and let QUIC keep its
  promise about datagrams that are too long. Then after at most one attempt per write, 256 for a
  whole packet, the round has returned: a packet is split at most once, and its fragments
  are sent or dropped.\<close>

theorem tuic_writes_return:
  assumes "tuic_v5 (env_core env)" "lawful (env_core env) now replies (drained now app)"
    and "list_all (canonical_write (env_core env)) (pending_writes app @ outbound_rx app)"
    and "sum_list (map (weight (env_core env)) (pending_writes app @ outbound_rx app)) \<le> length replies"
  shows "\<exists>r app'. process_writes env now replies app = (Some r, app')"
proof -
  have "\<exists>r. fst (write_loop (env_core env) now replies (drained now app)) = Some r"
    using assms by (intro write_loop_returns) (simp_all add: drained_queue)
  then obtain r app' where "write_loop (env_core env) now replies (drained now app) = (Some r, app')"
    by (metis prod.collapse)
  then show ?thesis
    by (auto simp: process_writes_def drained_def check_authentication_deadline_def Let_def)
qed

lemma demo_packet_canonical:
  assumes "encode_packet v5_core demo_packet = Inr d"
  shows "canonical v5_core d" "parse_packet v5_core d = Inr demo_packet"
  using canonical_fragment [OF tuic_v5_core demo_packet_valid assms] by (simp_all add: demo_packet_def)

theorem tuic_writes_return_witness:
  "\<exists>r app'. process_writes demo_env 1 (BufferTooShort 19 # replicate 255 (Accepted 20))
     (demo_serving\<lparr>pending_writes := [Datagram None [5, 2, 0, 7, 0, 9, 1, 0, 0, 3, 1, 127, 0, 0, 1, 0, 80, 1, 2, 3]],
        outbound_rx := []\<rparr>) = (Some r, app')"
proof (rule tuic_writes_return)
  let ?d = "[5, 2, 0, 7, 0, 9, 1, 0, 0, 3, 1, 127, 0, 0, 1, 0, 80, 1, 2, 3] :: bytes"
  let ?app = "demo_serving\<lparr>pending_writes := [Datagram None ?d], outbound_rx := []\<rparr>"
  note d = demo_packet_canonical [OF encode_demo_packet]
  have env: "env_core demo_env = v5_core" by (simp add: demo_env_def)
  show "tuic_v5 (env_core demo_env)" by (simp add: env tuic_v5_core)
  show "list_all (canonical_write (env_core demo_env)) (pending_writes ?app @ outbound_rx ?app)"
    using d(1) by (simp add: env)
  show "sum_list (map (weight (env_core demo_env)) (pending_writes ?app @ outbound_rx ?app)) \<le>
      length (BufferTooShort 19 # replicate 255 (Accepted 20))"
    using d(2) by (simp add: env packet_weight_def)
  have "lawful core now (replicate n (Accepted k)) s" for core now n k s
    by (induction n arbitrary: s)
      (auto split: list.split prod.split sum.split bool.split intro: reply_lawful.simps)
  then show "lawful (env_core demo_env) 1 (BufferTooShort 19 # replicate 255 (Accepted 20)) (drained 1 ?app)"
    by (auto simp del: quic_write_step.simps simp: drained_queue split: prod.split sum.split bool.split)
qed

end
