(* ===== verification/Tuic_Relays.thy ===== *)
theory Tuic_Relays
  imports Tuic_Writes
begin

text \<open>
  The relay tasks of the TUIC inbound and what they share with the connection. The lemmas show how
  a stream is relayed in both directions, and two cases in which the connection and a task that has
  ended do not fit together.
\<close>

section \<open>Relaying a stream\<close>

text \<open>The data of the client, and the data of the remote end up to its end.\<close>

fun client_data :: "tuic_relay_event list \<Rightarrow> bytes list" where
  "client_data [] = []"
| "client_data (FromClient (Some d) _ # evs) = d # client_data evs"
| "client_data (FromClient None _ # evs) = []"
| "client_data (FromRemote _ _ # evs) = client_data evs"

fun remote_data :: "tuic_relay_event list \<Rightarrow> bytes list" where
  "remote_data [] = []"
| "remote_data (FromClient _ _ # evs) = remote_data evs"
| "remote_data (FromRemote (Inr []) _ # evs) = []"
| "remote_data (FromRemote (Inr d) _ # evs) = d # remote_data evs"
| "remote_data (FromRemote (Inl _) _ # evs) = []"

fun ok_event :: "tuic_relay_event \<Rightarrow> bool" where
  "ok_event (FromClient _ written) = is_ok written"
| "ok_event (FromRemote read sent) = (is_ok read \<and> is_ok sent)"

fun outbound_writes :: "tuic_relay_action list \<Rightarrow> bytes list" where
  "outbound_writes [] = []"
| "outbound_writes (WriteOutbound d # acts) = d # outbound_writes acts"
| "outbound_writes (_ # acts) = outbound_writes acts"

fun quic_writes :: "tuic_relay_action list \<Rightarrow> quic_write list" where
  "quic_writes [] = []"
| "quic_writes (SendQuic w # acts) = w # quic_writes acts"
| "quic_writes (_ # acts) = quic_writes acts"

fun client_ended :: "tuic_relay_event list \<Rightarrow> bool" where
  "client_ended [] = False"
| "client_ended (FromClient None _ # evs) = True"
| "client_ended (_ # evs) = client_ended evs"

fun remote_ended :: "tuic_relay_event list \<Rightarrow> bool" where
  "remote_ended [] = False"
| "remote_ended (FromRemote (Inr []) _ # evs) = True"
| "remote_ended (_ # evs) = remote_ended evs"

lemma relay_actions_append:
  "outbound_writes (as @ bs) = outbound_writes as @ outbound_writes bs"
  "quic_writes (as @ bs) = quic_writes as @ quic_writes bs"
  by (induction as rule: outbound_writes.induct) simp_all

definition fin_write :: "u64 \<Rightarrow> bool \<Rightarrow> quic_write list" where
  "fin_write sid ended = (if ended then [Data sid [] True] else [])"

lemma relay_loop_ok:
  assumes "list_all ok_event evs"
  shows "\<exists>acts. relay_loop sid (c, r) evs = (acts, Inr (c \<or> client_ended evs, r \<or> remote_ended evs)) \<and>
    outbound_writes acts = (if c then [] else client_data evs) \<and>
    quic_writes acts = (if r then [] else map (\<lambda>d. Data sid d False) (remote_data evs) @ fin_write sid (remote_ended evs)) \<and>
    count_list acts ShutdownOutbound = (if \<not> c \<and> client_ended evs then 1 else 0)"
  using assms
proof (induction evs arbitrary: c r)
  case (Cons ev evs)
  then have ok: "list_all ok_event evs" by simp
  note IH = Cons.IH [OF ok]
  consider (both) "c" "r" | (skip) "\<not> (c \<and> r)" "\<not> relay_enabled (c, r) ev"
    | (data) d w where "\<not> c" "ev = FromClient (Some d) w" | (ended) w where "\<not> c" "ev = FromClient None w"
    | (remote) d w where "\<not> r" "ev = FromRemote (Inr d) w"
    using Cons.prems by (cases ev rule: ok_event.cases) (auto simp: is_ok_iff)
  then show ?case
  proof cases
    case skip
    then show ?thesis using IH [of c r] by (cases ev) auto
  next
    case (data d w)
    with Cons.prems IH [of c r] show ?thesis by (auto simp: is_ok_iff)
  next
    case (ended w)
    with Cons.prems IH [of True r] show ?thesis by (auto simp: is_ok_iff)
  next
    case (remote d w)
    with Cons.prems IH [of c "d = []"] show ?thesis by (cases d) (auto simp: is_ok_iff fin_write_def)
  qed simp
qed (simp add: fin_write_def)

text \<open>A relay carries a stream both ways and closes the sides one by one. Let the outbound be dialed and
  its operations succeed, and let the events of both sides interleave in any way. Then the outbound gets
  the data that came with the connect command, followed by the data of the client, and is shut down
  exactly once, when the client ends; the client gets the data of the remote, and the end of its stream
  exactly when the remote ends, also while the other direction goes on.\<close>

theorem tuic_relay_duplex:
  assumes "dial session = Inr ch" "is_ok written" "list_all ok_event evs"
  shows "\<exists>acts. spawn_relay dial session sid initial written evs = (acts, Inr (client_ended evs, remote_ended evs)) \<and>
    concat (outbound_writes acts) = initial @ concat (client_data evs) \<and>
    quic_writes acts = map (\<lambda>d. Data sid d False) (remote_data evs) @ (if remote_ended evs then [Data sid [] True] else []) \<and>
    count_list acts ShutdownOutbound = (if client_ended evs then 1 else 0)"
proof -
  obtain acts where "relay_loop sid (False, False) evs = (acts, Inr (client_ended evs, remote_ended evs))"
      "outbound_writes acts = client_data evs"
      "quic_writes acts = map (\<lambda>d. Data sid d False) (remote_data evs) @ fin_write sid (remote_ended evs)"
      "count_list acts ShutdownOutbound = (if client_ended evs then 1 else 0)"
    using relay_loop_ok [OF assms(3), of sid False False] by auto
  with assms(1,2) show ?thesis by (auto simp: spawn_relay_def fin_write_def is_ok_iff)
qed

section \<open>A relay that failed\<close>

lemma v5_not_version:
  assumes "tuic_v5 core" "data \<noteq> []" "hd data \<noteq> 5"
  shows "\<exists>e. try_parse_connect core data = Inl e"
proof -
  have p: "p_header data = Inl (Bail ''invalid version'')"
    using assms(2,3) by (cases data) (simp_all add: p_header_def p_fail_def)
  obtain e where e: "core_unmarshal core data = Inl e"
    using assms(1) p by (cases "core_unmarshal core data") (auto simp: tuic_v5_def)
  moreover have "e \<noteq> UnexpectedEof" using assms(1) p e by (auto simp: tuic_v5_def)
  ultimately show ?thesis by (simp add: try_parse_connect_def parse_connect_def parse_header_def and_then_def)
qed

text \<open>C32: Data that arrives after a failed dial closes the connection. When a stream cannot be dialed, its
  relay sends a close, which forgets the stream. The client may have sent more data before it hears of
  it; this data is then taken for a new connect command, and unless it begins with the version byte the
  error ends the whole connection, with all its other streams and associations.\<close>

theorem tuic_data_after_close:
  assumes "tuic_v5 (env_core env)" "authenticated app" "dial session = Inl e"
    and "fmlookup (pending_streams app) sid = None" "data \<noteq> []" "hd data \<noteq> 5"
  shows "fst (spawn_relay dial session sid initial written evs) = [SendQuic (Close sid)] \<and>
    (\<exists>app' err. quic_write_step (env_core env) now (Close sid) reply app = (Inr True, app') \<and>
      handle_stream_data env later sid data fin app' = (Inl err, app'))"
proof -
  let ?app = "app\<lparr>app_streams := fmdrop sid (app_streams app)\<rparr>"
  have "fmdrop sid (pending_streams app) = pending_streams app"
    using assms(4) by (intro fmap_ext) auto
  then have "?app\<lparr>pending_streams := fmdrop sid (pending_streams app)\<rparr> = ?app" by simp
  moreover obtain err where "try_parse_connect (env_core env) data = Inl err"
    using v5_not_version [OF assms(1,5,6)] by blast
  ultimately have "handle_stream_data env later sid data fin ?app = (Inl err, ?app)"
    using assms(2,4) by (simp add: handle_stream_data_def Let_def)
  with assms(3) show ?thesis by (simp add: spawn_relay_def)
qed

theorem tuic_data_after_close_witness:
  "\<exists>app' err. quic_write_step v5_core 1 (Close 0) (Accepted 0)
      (demo_serving\<lparr>app_streams := fmupd 0 \<lparr>client_tx = ch_new CHANNEL_CAPACITY\<rparr> fmempty\<rparr>) = (Inr True, app') \<and>
    handle_stream_data demo_env 2 0 [71, 69, 84] False app' = (Inl err, app')"
proof -
  let ?app = "demo_serving\<lparr>app_streams := fmupd 0 \<lparr>client_tx = ch_new CHANNEL_CAPACITY\<rparr> fmempty\<rparr>"
  have "env_core demo_env = v5_core" by (simp add: demo_env_def)
  moreover have "authenticated ?app" "fmlookup (pending_streams ?app) 0 = None"
    by (simp_all add: demo_serving_def tuic_app_new_def)
  ultimately show ?thesis
    using tuic_data_after_close [of demo_env ?app "\<lambda>_. Inl IoError"
        "\<lparr>sess_inbound = ''in'', sess_command = Connect, sess_target = TDomain ''a'' 80\<rparr>" IoError 0 "[71, 69, 84]"
        "[]" "Inr ()" "[]" 1 "Accepted 0" 2 False]
      tuic_v5_core by auto
qed

section \<open>An association whose task has ended\<close>

text \<open>A datagram with a whole packet for the association, and the round of reading it.\<close>

definition datagram_for :: "tuic_core \<Rightarrow> u16 \<Rightarrow> bytes \<Rightarrow> bool" where
  "datagram_for core assoc_id data \<longleftrightarrow> (\<exists>p. packet_valid p \<and> encode_packet core p = Inr data \<and>
     pk_frag_total p = 1 \<and> pk_assoc_id p = assoc_id \<and> pk_target p \<noteq> None)"

definition read_datagram :: "tuic_env \<Rightarrow> instant \<times> bytes \<Rightarrow> (tuic_app, unit) sm" where
  "read_datagram env = (\<lambda>(now, data). sm_bind (process_reads env now [] [data]) (\<lambda>_. sm_return ()))"

fun frequent :: "instant \<Rightarrow> (instant \<times> bytes) list \<Rightarrow> bool" where
  "frequent prev [] = True"
| "frequent prev ((now, _) # evs) = (prev \<le> now \<and> now < prev + UDP_SESSION_IDLE_TIMEOUT \<and> frequent now evs)"

lemma datagram_code:
  assumes "tuic_v5 core" "datagram_for core assoc_id data"
  shows "2 \<le> length data" "data ! 1 = TYPE_CODE_PACKET core" "\<not> is_heartbeat core data" 
    "data ! 1 \<noteq> TYPE_CODE_HEARTBEAT core"
proof -
  obtain p where "packet_valid p" "encode_packet core p = Inr data"
    using assms(2) by (auto simp: datagram_for_def)
  then have "data = format_header (packet_header p) @ pk_payload p" using assms(1) by (simp add: encode_packet_iff)
  then show "2 \<le> length data" "data ! 1 = TYPE_CODE_PACKET core" "\<not> is_heartbeat core data"
      "data ! 1 \<noteq> TYPE_CODE_HEARTBEAT core"
    using assms(1) by (auto simp: packet_header_def tuic_v5_def is_heartbeat_def)
qed

text \<open>The session of an association whose receiver was dropped, with what it had queued.\<close>

definition dead :: "tuic_app \<Rightarrow> u16 \<Rightarrow> udp_request list \<Rightarrow> instant \<Rightarrow> bool" where
  "dead app assoc_id queue t \<longleftrightarrow> authenticated app \<and> (\<exists>s. fmlookup (udp_sessions app) assoc_id = Some s \<and>
     ch_closed (ud_tx s) \<and> ch_queue (ud_tx s) = queue \<and> ud_mode s = Native \<and> ud_last_used s = t)"

lemma dead_cleanup:
  assumes "dead app assoc_id queue t" "now < t + UDP_SESSION_IDLE_TIMEOUT"
  shows "dead (maybe_cleanup_udp_state now app) assoc_id queue t"
  using assms
  by (auto simp: dead_def maybe_cleanup_udp_state_def evict_idle_udp_sessions_def tuic_udp.evict_Some_iff
      UDP_SESSION_IDLE_TIMEOUT_def from_secs_def)

lemma dead_packet:
  assumes "tuic_v5 (env_core env)" "datagram_for (env_core env) assoc_id data" "dead app assoc_id queue t"
  shows "\<exists>app'. handle_packet env now data Native app = (Inr (), app') \<and> dead app' assoc_id queue now \<and>
    app_udp_relays app' = app_udp_relays app"
proof -
  obtain p where p: "packet_valid p" "encode_packet (env_core env) p = Inr data" "pk_frag_total p = 1"
      "pk_assoc_id p = assoc_id" "pk_target p \<noteq> None"
    using assms(2) by (auto simp: datagram_for_def)
  obtain s where s: "fmlookup (udp_sessions app) assoc_id = Some s" "ch_closed (ud_tx s)"
      "ch_queue (ud_tx s) = queue" "ud_mode s = Native" "authenticated app"
    using assms(3) by (auto simp: dead_def)
  let ?p = "p\<lparr>pk_target := map_option wire_form (pk_target p)\<rparr>"
  have "parse_packet (env_core env) data = Inr ?p" using packet_decodes [OF assms(1) p(1,2), of "[]"] by simp
  moreover have "push (app_assembler app) ?p now =
      (Inr (Some ?p), evict_idle now FRAGMENT_IDLE_TIMEOUT (app_assembler app))"
    using p(3,5) by (simp add: push_def push_at_def)
  moreover have "send_request r (s\<lparr>ud_last_used := now\<rparr>) = s\<lparr>ud_last_used := now\<rparr>" for r
    using s(2) by (simp add: send_request_def try_send_def)
  ultimately show ?thesis using p(3-5) s by (auto simp: handle_packet_def dead_def)
qed

lemma dead_read:
  assumes "tuic_v5 (env_core env)" "datagram_for (env_core env) assoc_id data" "dead app assoc_id queue t"
    and "now < t + UDP_SESSION_IDLE_TIMEOUT"
  shows "\<exists>app'. read_datagram env (now, data) app = (Inr (), app') \<and> dead app' assoc_id queue now \<and>
    app_udp_relays app' = app_udp_relays app"
proof -
  let ?clean = "maybe_cleanup_udp_state now app"
  have clean: "dead ?clean assoc_id queue t" using dead_cleanup [OF assms(3,4)] .
  then obtain app' where app': "handle_packet env now data Native ?clean = (Inr (), app')" "dead app' assoc_id queue now"
      "app_udp_relays app' = app_udp_relays ?clean"
    using dead_packet [OF assms(1,2) clean, of now] by blast
  have auth: "authenticated app" "authenticated ?clean" using assms(3) clean by (simp_all add: dead_def)
  have "handle_datagram env now data ?clean = (Inr (), app')"
    using app'(1) auth datagram_code [OF assms(1,2)]
    by (simp add: handle_datagram_def sm_bind_def check_authentication_deadline_def)
  then have "read_datagram env (now, data) app = (Inr (), app')"
    using auth datagram_code(3) [OF assms(1,2)]
    by (simp add: read_datagram_def process_reads_def sm_bind_def check_authentication_deadline_def sm_return_def)
  moreover have "app_udp_relays ?clean = app_udp_relays app"
    by (simp add: maybe_cleanup_udp_state_def evict_idle_udp_sessions_def)
  ultimately show ?thesis using app'(2,3) by simp
qed

text \<open>C33: An association whose task has ended is never served again while its client keeps using it. When the
  outbound of an association cannot be dialed, its task ends and drops its queue. Every later datagram of
  the association is accepted without error, but it is dropped, and it marks the association as used; as
  long as less than the idle timeout passes between datagrams, no new task is started.\<close>

theorem tuic_dead_association:
  assumes "tuic_v5 (env_core env)" "dead app assoc_id queue t" "frequent t evs"
    and "list_all (\<lambda>(now, data). datagram_for (env_core env) assoc_id data) evs"
  shows "\<exists>app' t'. sm_for evs (read_datagram env) app = (Inr (), app') \<and> dead app' assoc_id queue t' \<and>
    app_udp_relays app' = app_udp_relays app"
  using assms(2-4)
proof (induction evs arbitrary: app t)
  case (Cons ev evs)
  obtain now data where ev: "ev = (now, data)" by (cases ev)
  obtain app' where app': "read_datagram env ev app = (Inr (), app')" "dead app' assoc_id queue now"
      "app_udp_relays app' = app_udp_relays app"
    using dead_read [OF assms(1) _ Cons.prems(1)] Cons.prems(2,3) ev by fastforce
  with Cons.IH [of app' now] Cons.prems(2,3) ev show ?case by auto
qed (auto simp: sm_return_def)

theorem tuic_dead_association_witness:
  "\<exists>app' t'. sm_for [(5, [5, 2, 0, 7, 0, 9, 1, 0, 0, 3, 1, 127, 0, 0, 1, 0, 80, 1, 2, 3])] (read_datagram demo_env)
      (demo_serving\<lparr>udp_sessions := fmupd 7 \<lparr>ud_tx = \<lparr>ch_queue = [], ch_capacity = 128, ch_closed = True\<rparr>,
        ud_mode = Native, ud_last_used = 1\<rparr> fmempty\<rparr>) = (Inr (), app') \<and>
    dead app' 7 [] t' \<and> app_udp_relays app' = []"
proof -
  let ?app = "demo_serving\<lparr>udp_sessions := fmupd 7 \<lparr>ud_tx = \<lparr>ch_queue = [], ch_capacity = 128, ch_closed = True\<rparr>,
        ud_mode = Native, ud_last_used = 1\<rparr> fmempty\<rparr>"
  let ?d = "[5, 2, 0, 7, 0, 9, 1, 0, 0, 3, 1, 127, 0, 0, 1, 0, 80, 1, 2, 3] :: bytes"
  have "dead ?app 7 [] 1" "app_udp_relays ?app = []"
    by (simp_all add: dead_def demo_serving_def tuic_app_new_def)
  moreover have "datagram_for v5_core 7 ?d"
    unfolding datagram_for_def using demo_packet_valid encode_demo_packet
    by (intro exI [of _ demo_packet]) (simp add: demo_packet_def)
  moreover have "env_core demo_env = v5_core" by (simp add: demo_env_def)
  ultimately show ?thesis
    using tuic_dead_association [of demo_env ?app 7 "[]" 1 "[(5, ?d)]"] tuic_v5_core
    by (simp add: UDP_SESSION_IDLE_TIMEOUT_def from_secs_def del: sm_for.simps)
qed

end
