(* ===== verification/Net_Text.thy ===== *)
theory Net_Text
  imports Session
begin

text \<open>
  The text of addresses as the Rust standard library writes and reads it, which server addresses in the
  configuration use: \<open>Display\<close> and \<open>FromStr\<close> of \<open>IpAddr\<close> and \<open>SocketAddr\<close>. The
  lemmas show that what is written is read back, with the compression of zeros in IPv6 addresses.
\<close>

section \<open>Numbers\<close>

definition digit_char :: "nat \<Rightarrow> char" where
  "digit_char d = char_of (if d < 10 then 48 + d else 87 + d)"

definition to_digit :: "nat \<Rightarrow> char \<Rightarrow> nat option" where
  "to_digit radix c =
     (let n = of_char c :: nat;
          d = (if 48 \<le> n \<and> n \<le> 57 then n - 48
               else if 97 \<le> n \<and> n \<le> 122 then n - 87
               else if 65 \<le> n \<and> n \<le> 90 then n - 55 else radix) in
      if d < radix then Some d else None)"

function radix_digits :: "nat \<Rightarrow> nat \<Rightarrow> nat list" where
  "radix_digits radix n =
     (if radix < 2 \<or> n < radix then [n] else radix_digits radix (n div radix) @ [n mod radix])"
  by pat_completeness auto

termination radix_digits
  by (relation "measure snd") auto

declare radix_digits.simps [simp del]

definition fmt_radix :: "nat \<Rightarrow> nat \<Rightarrow> string" where
  "fmt_radix radix n = map digit_char (radix_digits radix n)"

fun digits_of :: "nat \<Rightarrow> string \<Rightarrow> nat list \<times> string" where
  "digits_of radix [] = ([], [])"
| "digits_of radix (c # cs) =
     (case to_digit radix c of
        None \<Rightarrow> ([], c # cs)
      | Some d \<Rightarrow> (case digits_of radix cs of (ds, rest) \<Rightarrow> (d # ds, rest)))"

definition from_digits :: "nat \<Rightarrow> nat list \<Rightarrow> nat" where
  "from_digits radix = foldl (\<lambda>n d. n * radix + d) 0"

section \<open>Reading addresses\<close>

text \<open>A reader that fails leaves the text as it was, which is \<open>read_atomically\<close>.\<close>

type_synonym 'a reader = "string \<Rightarrow> ('a \<times> string) option"

fun read_given_char :: "char \<Rightarrow> unit reader" where
  "read_given_char c [] = None"
| "read_given_char c (d # s) = (if d = c then Some ((), s) else None)"

definition read_separator :: "char \<Rightarrow> bool \<Rightarrow> 'a reader \<Rightarrow> 'a reader" where
  "read_separator sep first inner s =
     (if first then inner s
      else case read_given_char sep s of None \<Rightarrow> None | Some (_, s) \<Rightarrow> inner s)"

definition read_number :: "nat \<Rightarrow> nat option \<Rightarrow> bool \<Rightarrow> nat \<Rightarrow> nat reader" where
  "read_number radix max_digits allow_zero_prefix greatest s =
     (case digits_of radix s of (ds, rest) \<Rightarrow>
        if ds = [] then None
        else if (case max_digits of None \<Rightarrow> False | Some m \<Rightarrow> m < length ds) then None
        else if \<not> allow_zero_prefix \<and> hd ds = 0 \<and> 1 < length ds then None
        else if greatest < from_digits radix ds then None
        else Some (from_digits radix ds, rest))"

fun read_octets :: "nat \<Rightarrow> bool \<Rightarrow> nat list reader" where
  "read_octets 0 first s = Some ([], s)"
| "read_octets (Suc n) first s =
     (case read_separator CHR ''.'' first (read_number 10 (Some 3) False 255) s of
        None \<Rightarrow> None
      | Some (octet, s) \<Rightarrow>
          (case read_octets n False s of
             None \<Rightarrow> None
           | Some (octets, s) \<Rightarrow> Some (octet # octets, s)))"

definition read_ipv4_addr :: "ipv4 reader" where
  "read_ipv4_addr s = map_option (\<lambda>(octets, s). (v4_from (map of_nat octets), s)) (read_octets 4 True s)"

text \<open>Up to \<open>n\<close> groups, with whether they ended in an IPv4 address, which takes the place of two.\<close>

definition v4_groups :: "ipv4 \<Rightarrow> nat list" where
  "v4_groups ip = [unat ip div 65536, unat ip mod 65536]"

fun read_groups :: "nat \<Rightarrow> bool \<Rightarrow> string \<Rightarrow> nat list \<times> bool \<times> string" where
  "read_groups 0 first s = ([], False, s)"
| "read_groups (Suc n) first s =
     (case (if 0 < n then read_separator CHR '':'' first read_ipv4_addr s else None) of
        Some (ip, s) \<Rightarrow> (v4_groups ip, True, s)
      | None \<Rightarrow>
          (case read_separator CHR '':'' first (read_number 16 (Some 4) True 65535) s of
             None \<Rightarrow> ([], False, s)
           | Some (g, s) \<Rightarrow> (case read_groups n False s of (gs, v4, s) \<Rightarrow> (g # gs, v4, s))))"

definition v6_segments :: "ipv6 \<Rightarrow> nat list" where
  "v6_segments ip = map (\<lambda>i. unat ip div 65536 ^ (7 - i) mod 65536) [0..<8]"

definition v6_of_segments :: "nat list \<Rightarrow> ipv6" where
  "v6_of_segments gs = of_nat (from_digits 65536 gs)"

definition read_ipv6_addr :: "ipv6 reader" where
  "read_ipv6_addr s =
     (case read_groups 8 True s of (head, head_ipv4, s) \<Rightarrow>
        if length head = 8 then Some (v6_of_segments head, s)
        else if head_ipv4 then None
        else
          case s of
            a # b # s \<Rightarrow>
              if a = CHR '':'' \<and> b = CHR '':'' then
                (case read_groups (7 - length head) True s of (tail, _, s) \<Rightarrow>
                   Some (v6_of_segments (head @ replicate (8 - length head - length tail) 0 @ tail), s))
              else None
          | _ \<Rightarrow> None)"

definition read_port :: "u16 reader" where
  "read_port s =
     (case read_given_char CHR '':'' s of
        None \<Rightarrow> None
      | Some (_, s) \<Rightarrow> map_option (\<lambda>(n, s). (of_nat n, s)) (read_number 10 None True 65535 s))"

definition read_scope_id :: "u32 reader" where
  "read_scope_id s =
     (case read_given_char CHR ''%'' s of
        None \<Rightarrow> None
      | Some (_, s) \<Rightarrow> map_option (\<lambda>(n, s). (of_nat n, s)) (read_number 10 None True (2 ^ 32 - 1) s))"

definition read_socket_addr_v4 :: "socket_addr reader" where
  "read_socket_addr_v4 s =
     (case read_ipv4_addr s of
        None \<Rightarrow> None
      | Some (ip, s) \<Rightarrow> map_option (\<lambda>(port, s). (SockV4 ip port, s)) (read_port s))"

definition read_socket_addr_v6 :: "socket_addr reader" where
  "read_socket_addr_v6 s =
     (case read_given_char CHR ''['' s of
        None \<Rightarrow> None
      | Some (_, s) \<Rightarrow>
          (case read_ipv6_addr s of
             None \<Rightarrow> None
           | Some (ip, s) \<Rightarrow>
               (case (case read_scope_id s of None \<Rightarrow> (0, s) | Some (scope, s) \<Rightarrow> (scope, s)) of
                  (scope, s) \<Rightarrow>
                    (case read_given_char CHR '']'' s of
                       None \<Rightarrow> None
                     | Some (_, s) \<Rightarrow>
                         map_option (\<lambda>(port, s). (SockV6 ip port 0 scope, s)) (read_port s)))))"

definition parse_socket_addr :: "string \<Rightarrow> socket_addr res" where
  "parse_socket_addr s =
     (case (case read_socket_addr_v4 s of Some r \<Rightarrow> Some r | None \<Rightarrow> read_socket_addr_v6 s) of
        Some (addr, []) \<Rightarrow> Inr addr
      | _ \<Rightarrow> Inl (Bail ''invalid socket address syntax''))"

section \<open>Writing addresses\<close>

definition v4_text :: "ipv4 \<Rightarrow> string" where
  "v4_text ip = join ''.'' (map (\<lambda>b. fmt_radix 10 (unat b)) (v4_octets ip))"

text \<open>The first longest run of zeros, as start and length; \<open>i\<close> is the index of the next segment.\<close>

fun zero_span :: "nat \<Rightarrow> nat \<times> nat \<Rightarrow> nat \<times> nat \<Rightarrow> nat list \<Rightarrow> nat \<times> nat" where
  "zero_span i current longest [] = longest"
| "zero_span i current longest (g # gs) =
     (if g = 0 then
        let current = (if snd current = 0 then i else fst current, snd current + 1) in
        zero_span (Suc i) current (if snd longest < snd current then current else longest) gs
      else zero_span (Suc i) (0, 0) longest gs)"

definition groups_text :: "nat list \<Rightarrow> string" where
  "groups_text gs = join '':'' (map (fmt_radix 16) gs)"

definition v6_text :: "ipv6 \<Rightarrow> string" where
  "v6_text ip =
     (if drop_bit 32 ip = 0xFFFF then ''::ffff:'' @ v4_text (ucast ip)
      else
        let gs = v6_segments ip in
        case zero_span 0 (0, 0) (0, 0) gs of (start, len) \<Rightarrow>
          if 1 < len
          then groups_text (take start gs) @ ''::'' @ groups_text (drop (start + len) gs)
          else groups_text gs)"

fun ip_text :: "ip_addr \<Rightarrow> string" where
  "ip_text (V4 ip) = v4_text ip"
| "ip_text (V6 ip) = v6_text ip"

fun sock_text :: "socket_addr \<Rightarrow> string" where
  "sock_text (SockV4 ip port) = v4_text ip @ '':'' @ fmt_radix 10 (unat port)"
| "sock_text (SockV6 ip port flow scope) =
     ''['' @ v6_text ip @ (if scope = 0 then [] else ''%'' @ fmt_radix 10 (unat scope)) @ '']:'' @
     fmt_radix 10 (unat port)"

section \<open>Numbers are read back\<close>

lemma to_digit_char: "d < radix \<Longrightarrow> radix \<le> 16 \<Longrightarrow> to_digit radix (digit_char d) = Some d"
  by (auto simp: to_digit_def digit_char_def Let_def)

text \<open>The text does not go on with a digit.\<close>

definition stops :: "nat \<Rightarrow> string \<Rightarrow> bool" where
  "stops radix s \<longleftrightarrow> (case s of [] \<Rightarrow> True | c # _ \<Rightarrow> to_digit radix c = None)"

lemma digits_of_stops: "stops radix s \<Longrightarrow> digits_of radix s = ([], s)"
  by (cases s) (simp_all add: stops_def)

lemma digits_of_digits:
  assumes "\<forall>d \<in> set ds. d < radix" "radix \<le> 16" "stops radix rest"
  shows "digits_of radix (map digit_char ds @ rest) = (ds, rest)"
  using assms by (induction ds) (simp_all add: digits_of_stops to_digit_char)

lemma radix_digits_less: "2 \<le> radix \<Longrightarrow> d \<in> set (radix_digits radix n) \<Longrightarrow> d < radix"
  by (induction radix n rule: radix_digits.induct) (subst (asm) (2) radix_digits.simps, auto split: if_splits)

lemma from_digits_snoc: "from_digits radix (ds @ [d]) = from_digits radix ds * radix + d"
  by (simp add: from_digits_def)

lemma from_radix_digits: "2 \<le> radix \<Longrightarrow> from_digits radix (radix_digits radix n) = n"
proof (induction radix n rule: radix_digits.induct)
  case (1 radix n)
  show ?case
  proof (cases "n < radix")
    case True
    then show ?thesis by (subst radix_digits.simps) (simp add: from_digits_def)
  next
    case False
    then show ?thesis using 1 by (subst radix_digits.simps) (simp add: from_digits_snoc)
  qed
qed

lemma radix_digits_not_Nil [simp]: "radix_digits radix n \<noteq> []"
  by (subst radix_digits.simps) simp

lemma radix_digits_length: "2 \<le> radix \<Longrightarrow> n < radix ^ Suc k \<Longrightarrow> length (radix_digits radix n) \<le> Suc k"
proof (induction k arbitrary: n)
  case 0
  then show ?case by (subst radix_digits.simps) simp
next
  case (Suc k)
  then have "n div radix < radix ^ Suc k" by (simp add: less_mult_imp_div_less mult.commute)
  with Suc show ?case by (subst radix_digits.simps) simp
qed

lemma radix_digits_hd: "2 \<le> radix \<Longrightarrow> hd (radix_digits radix n) = 0 \<Longrightarrow> n = 0"
proof (induction radix n rule: radix_digits.induct)
  case (1 radix n)
  show ?case
  proof (cases "n < radix")
    case True
    then show ?thesis using 1(3) by (subst (asm) radix_digits.simps) simp
  next
    case False
    then have "hd (radix_digits radix (n div radix)) = 0"
      using 1(2,3) by (subst (asm) radix_digits.simps) (simp add: hd_append)
    moreover have "0 < n div radix" using False 1(2) by (simp add: div_greater_zero_iff)
    ultimately show ?thesis using 1(1,2) False by simp
  qed
qed

lemma read_number_fmt:
  assumes "2 \<le> radix" "radix \<le> 16" "n \<le> greatest" "n < radix ^ Suc k" "m = None \<or> m = Some (Suc k)" "stops radix rest"
  shows "read_number radix m zero greatest (fmt_radix radix n @ rest) = Some (n, rest)"
proof -
  have d: "digits_of radix (fmt_radix radix n @ rest) = (radix_digits radix n, rest)"
    unfolding fmt_radix_def using radix_digits_less [OF assms(1)] assms(2,6) by (intro digits_of_digits) auto
  have "length (radix_digits radix n) = 1" if "hd (radix_digits radix n) = 0"
    using radix_digits_hd [OF assms(1) that] assms(1) by (subst radix_digits.simps) simp
  with d radix_digits_length [OF assms(1,4)] from_radix_digits [OF assms(1)] assms(3,5) show ?thesis
    by (auto simp: read_number_def)
qed

lemma read_number_stops: "stops radix s \<Longrightarrow> read_number radix m zero greatest s = None"
  by (simp add: read_number_def digits_of_stops)

section \<open>IPv4 addresses are read back\<close>

lemma stops_simps [simp]:
  "stops radix []" "radix \<le> 16 \<Longrightarrow> stops radix (CHR ''.'' # s)" "radix \<le> 16 \<Longrightarrow> stops radix (CHR '':'' # s)"
  "radix \<le> 16 \<Longrightarrow> stops radix (CHR '']'' # s)" "radix \<le> 16 \<Longrightarrow> stops radix (CHR ''%'' # s)"
  by (simp_all add: stops_def to_digit_def)

lemma read_octet:
  "stops 10 rest \<Longrightarrow> read_number 10 (Some 3) False 255 (fmt_radix 10 (unat (b :: u8)) @ rest) = Some (unat b, rest)"
  using unat_u8_less [of b] by (intro read_number_fmt [where k = 2]) (simp_all del: unat_u8_less)

lemma join_Cons: "join sep (x # xs) = x @ concat (map (\<lambda>y. sep @ y) xs)"
  by (induction xs arbitrary: x) simp_all

lemma read_octets_rest:
  assumes "stops 10 rest"
  shows "read_octets (length bs) False (concat (map (\<lambda>b. ''.'' @ fmt_radix 10 (unat (b :: u8))) bs) @ rest) =
    Some (map unat bs, rest)"
proof (induction bs)
  case (Cons b bs)
  have "stops 10 (concat (map (\<lambda>b. ''.'' @ fmt_radix 10 (unat (b :: u8))) bs) @ rest)"
    using assms by (cases bs) simp_all
  from read_octet [OF this] Cons show ?case by (simp add: read_separator_def)
qed simp

lemma read_ipv4_text:
  assumes "stops 10 rest"
  shows "read_ipv4_addr (v4_text ip @ rest) = Some (ip, rest)"
proof -
  have "length (v4_octets ip) = 4" by simp
  then obtain b bs where o: "v4_octets ip = b # bs" "length bs = 3"
    by (cases "v4_octets ip") (simp_all del: length_octets)
  let ?tail = "concat (map (\<lambda>b. ''.'' @ fmt_radix 10 (unat b)) bs) @ rest"
  have "stops 10 ?tail" using assms by (cases bs) simp_all
  from read_octet [OF this] read_octets_rest [OF assms, of bs]
  have "read_octets (Suc (length bs)) True (fmt_radix 10 (unat b) @ ?tail) = Some (unat b # map unat bs, rest)"
    by (simp add: read_separator_def)
  then have "read_octets 4 True (v4_text ip @ rest) = Some (map unat (v4_octets ip), rest)"
    using o by (simp add: v4_text_def join_Cons comp_def)
  then show ?thesis by (simp add: read_ipv4_addr_def comp_def)
qed

section \<open>IPv6 addresses are read back\<close>

text \<open>What may follow an address: the end, a closing bracket or a scope.\<close>

definition ends_address :: "string \<Rightarrow> bool" where
  "ends_address s \<longleftrightarrow> s = [] \<or> hd s = CHR '']'' \<or> hd s = CHR ''%''"

lemma ends_address_simps:
  assumes "ends_address s"
  shows "radix \<le> 16 \<Longrightarrow> stops radix s" "s = [] \<or> hd s \<noteq> CHR ''.''" "read_given_char CHR '':'' s = None"
  using assms by (cases s; auto simp: ends_address_def)+

lemma digits_no_dot:
  assumes "list_all (\<lambda>d. d < 16) ds" "stops 16 rest" "rest = [] \<or> hd rest \<noteq> CHR ''.''"
    and "digits_of 10 (map digit_char ds @ rest) = (ds', s')"
  shows "s' = [] \<or> hd s' \<noteq> CHR ''.''"
  using assms
proof (induction ds arbitrary: ds')
  case Nil
  then have "digits_of 10 rest = ([], rest)"
    by (cases rest) (auto simp: stops_def to_digit_def Let_def split: if_splits)
  with Nil show ?case by simp
next
  case (Cons d ds)
  show ?case
  proof (cases "to_digit 10 (digit_char d)")
    case None
    have "digit_char d \<noteq> CHR ''.''" using Cons(2) to_digit_char [of d 16] by (auto simp: to_digit_def)
    with None Cons show ?thesis by auto
  next
    case (Some e)
    with Cons show ?thesis by (auto split: prod.splits)
  qed
qed

lemma ipv4_refuses:
  assumes "digits_of 10 s = (ds, s')" "s' = [] \<or> hd s' \<noteq> CHR ''.''"
  shows "read_ipv4_addr s = None"
proof -
  have "read_given_char CHR ''.'' s' = None" using assms(2) by (cases s') auto
  then have "read_octets (Suc n) False s' = None" for n by (simp add: read_separator_def)
  then have "read_octets (Suc (Suc n)) True s = None" for n
    using assms(1) by (auto simp: read_separator_def read_number_def split: option.split)
  from this [of 2] show ?thesis by (simp add: read_ipv4_addr_def del: read_octets.simps)
qed

lemma ipv4_refuses_group:
  assumes "stops 16 rest" "rest = [] \<or> hd rest \<noteq> CHR ''.''"
  shows "read_ipv4_addr (fmt_radix 16 g @ rest) = None"
proof -
  obtain ds s where d: "digits_of 10 (map digit_char (radix_digits 16 g) @ rest) = (ds, s)" by fastforce
  have "list_all (\<lambda>d. d < 16) (radix_digits 16 g)" using radix_digits_less [of 16] by (auto simp: list_all_iff)
  from ipv4_refuses [OF d digits_no_dot [OF this assms d]] show ?thesis by (simp add: fmt_radix_def)
qed

lemma read_group:
  "g < 65536 \<Longrightarrow> stops 16 rest \<Longrightarrow> read_number 16 (Some 4) True 65535 (fmt_radix 16 g @ rest) = Some (g, rest)"
  by (intro read_number_fmt [where k = 3]) simp_all

lemma read_groups_rest:
  assumes "list_all (\<lambda>g. g < 65536) gs" "stops 16 rest" "rest = [] \<or> hd rest \<noteq> CHR ''.''"
    and "read_groups n False rest = ([], False, rest)"
  shows "read_groups (length gs + n) False (concat (map (\<lambda>g. '':'' @ fmt_radix 16 g) gs) @ rest) = (gs, False, rest)"
  using assms(1)
proof (induction gs)
  case Nil
  then show ?case using assms by simp
next
  case (Cons g gs)
  let ?tail = "concat (map (\<lambda>g. '':'' @ fmt_radix 16 g) gs) @ rest"
  have "stops 16 ?tail" "?tail = [] \<or> hd ?tail \<noteq> CHR ''.''" using assms by (cases gs; simp)+
  with read_group [of g ?tail] ipv4_refuses_group [of ?tail g] Cons show ?case
    by (auto simp: read_separator_def)
qed

lemma read_groups_text:
  assumes "list_all (\<lambda>g. g < 65536) gs" "stops 16 rest" "rest = [] \<or> hd rest \<noteq> CHR ''.''"
    and "read_groups n False rest = ([], False, rest)" "gs \<noteq> []"
  shows "read_groups (length gs + n) True (groups_text gs @ rest) = (gs, False, rest)"
proof (cases gs)
  case (Cons g gs')
  let ?tail = "concat (map (\<lambda>g. '':'' @ fmt_radix 16 g) gs') @ rest"
  have "stops 16 ?tail" "?tail = [] \<or> hd ?tail \<noteq> CHR ''.''" using assms by (cases gs'; simp)+
  with read_group [of g ?tail] ipv4_refuses_group [of ?tail g] read_groups_rest [of gs' rest n] Cons assms
  show ?thesis by (auto simp: read_separator_def groups_text_def join_Cons comp_def)
qed (use assms in simp)

lemma read_groups_none:
  assumes "stops 10 s" "stops 16 s"
  shows "read_groups n True s = ([], False, s)" "read_groups n False (CHR '':'' # s) = ([], False, CHR '':'' # s)"
proof -
  have "read_octets (Suc n) True s = None" for n using assms by (simp add: read_separator_def read_number_stops)
  from this [of 3] have "read_ipv4_addr s = None" by (simp add: read_ipv4_addr_def del: read_octets.simps)
  with assms show "read_groups n True s = ([], False, s)" "read_groups n False (CHR '':'' # s) = ([], False, CHR '':'' # s)"
    by (cases n; simp add: read_separator_def read_number_stops)+
qed

lemma from_digits_of:
  fixes n b :: nat
  shows "from_digits b (map (\<lambda>i. n div b ^ (k - i) mod b) [0..<Suc k]) = n mod b ^ Suc k"
proof (induction k arbitrary: n)
  case 0
  then show ?case by (simp add: from_digits_def)
next
  case (Suc k)
  have "map (\<lambda>i. n div b ^ (Suc k - i) mod b) [0..<Suc (Suc k)] =
      map (\<lambda>i. (n div b) div b ^ (k - i) mod b) [0..<Suc k] @ [n mod b]"
    by (auto simp: Suc_diff_le div_mult2_eq intro!: arg_cong2 [where f = "(mod)"])
  then show ?case
    using Suc [of "n div b"] mod_mult2_eq [of n b "b ^ Suc k"]
    by (simp only: from_digits_snoc power_Suc [of b "Suc k"]) (simp add: mult.commute)
qed

lemma v6_of_segments [simp]: "v6_of_segments (v6_segments ip) = ip"
proof -
  have "unat ip < 2 ^ 128" using unat_less_pow [of ip] by simp
  with from_digits_of [of 65536 "unat ip" 7] show ?thesis
    by (simp add: v6_of_segments_def v6_segments_def)
qed

lemma v6_segments_less: "list_all (\<lambda>g. g < 65536) (v6_segments ip)"
  by (simp add: v6_segments_def list_all_iff)

lemma length_v6_segments [simp]: "length (v6_segments ip) = 8"
  by (simp add: v6_segments_def)

text \<open>The span that is left out holds zeros only.\<close>

definition zeros_at :: "nat list \<Rightarrow> nat \<times> nat \<Rightarrow> bool" where
  "zeros_at gs span \<longleftrightarrow> (case span of (start, len) \<Rightarrow> start + len \<le> length gs \<and> (\<forall>j < len. gs ! (start + j) = 0))"

lemma zero_span_zeros:
  assumes "zeros_at gs longest" "snd current = 0 \<or> fst current + snd current = i \<and> zeros_at gs current"
    and "drop i gs = rest" "i \<le> length gs"
  shows "zeros_at gs (zero_span i current longest rest)"
  using assms
proof (induction i current longest rest rule: zero_span.induct)
  case (2 i current longest g rest)
  have at: "i < length gs" "gs ! i = g" "drop (Suc i) gs = rest"
    using 2(5,6) by (metis drop_eq_Nil2 linorder_not_less list.distinct(1), metis nth_via_drop, metis drop_Suc drop_tl list.sel(3))
  show ?case
  proof (cases "g = 0")
    case True
    let ?c = "(if snd current = 0 then i else fst current, snd current + 1)"
    let ?l = "if snd longest < snd ?c then ?c else longest"
    have c: "fst ?c + snd ?c = Suc i" "zeros_at gs ?c"
      using 2(4) at True by (auto simp: zeros_at_def less_Suc_eq)
    then have "zeros_at gs ?l" using 2(3) by (simp split: if_split del: fst_conv snd_conv)
    from 2(1) [OF True refl this disjI2 at(3)] c at(1) True show ?thesis
      by (simp only: zero_span.simps Let_def if_True simp_thms Suc_leI)
  next
    case False
    with 2(2) [OF False] 2(3) at show ?thesis by simp
  qed
qed simp

lemma zeros_at_split:
  assumes "zeros_at gs (start, len)"
  shows "gs = take start gs @ replicate len 0 @ drop (start + len) gs"
proof -
  have "take len (drop start gs) = replicate len 0"
    using assms by (intro nth_equalityI) (auto simp: zeros_at_def)
  moreover have "gs = take start gs @ take len (drop start gs) @ drop (start + len) gs"
    by (metis append_take_drop_id drop_drop add.commute)
  ultimately show ?thesis by simp
qed

lemma read_compressed:
  assumes "list_all (\<lambda>g. g < 65536) hs" "length hs \<le> 6" "ends_address rest"
    and "read_groups (7 - length hs) True (t @ rest) = (ts, v4, rest)"
  shows "read_ipv6_addr (groups_text hs @ ''::'' @ t @ rest) =
    Some (v6_of_segments (hs @ replicate (8 - length hs - length ts) 0 @ ts), rest)"
proof -
  have "read_groups n False (''::'' @ t @ rest) = ([], False, ''::'' @ t @ rest)" for n
    using read_groups_none(2) [of "CHR '':'' # t @ rest"] by simp
  then have "read_groups 8 True (groups_text hs @ ''::'' @ t @ rest) = (hs, False, ''::'' @ t @ rest)"
    using read_groups_text [of hs "''::'' @ t @ rest" "8 - length hs"] assms(1,2)
      read_groups_none(1) [of "''::'' @ t @ rest" 8]
    by (cases "hs = []") (auto simp: groups_text_def simp del: read_groups.simps)
  with assms(2,4) show ?thesis by (simp add: read_ipv6_addr_def del: read_groups.simps)
qed

lemma read_ends: "ends_address rest \<Longrightarrow> read_groups n first rest = ([], False, rest)"
proof (cases first)
  case False
  moreover assume "ends_address rest"
  ultimately show ?thesis using ends_address_simps(3) [of rest] by (cases n) (simp_all add: read_separator_def)
qed (simp add: read_groups_none ends_address_simps)

lemma read_tail:
  assumes "list_all (\<lambda>g. g < 65536) ts" "length ts \<le> n" "ends_address rest"
  shows "read_groups n True (groups_text ts @ rest) = (ts, False, rest)"
proof (cases "ts = []")
  case False
  with read_groups_text [of ts rest "n - length ts"] assms read_ends [OF assms(3)] show ?thesis
    by (simp add: ends_address_simps del: read_groups.simps)
qed (use assms read_ends in \<open>simp add: groups_text_def\<close>)

lemma mapped_segments:
  assumes "drop_bit 32 ip = (0xFFFF :: ipv6)"
  shows "v6_of_segments (replicate 5 0 @ 65535 # v4_groups (ucast ip)) = ip"
proof -
  let ?low = "unat ip mod 2 ^ 32"
  have zeros: "replicate 5 (0 :: nat) = [0, 0, 0, 0, 0]" by (simp add: numeral_eq_Suc)
  have "unat (ucast ip :: ipv4) = ?low" by (simp add: unsigned_ucast_eq take_bit_eq_mod)
  moreover have "drop_bit 32 (unat ip) = 65535" using arg_cong [OF assms, of unat] by (simp add: unat_drop_bit_eq)
  then have "unat ip div 2 ^ 32 = 65535" by (simp add: drop_bit_eq_div)
  then have "unat ip = 65535 * 2 ^ 32 + ?low" by (metis div_mult_mod_eq)
  moreover have "?low = ?low div 65536 * 65536 + ?low mod 65536" by simp
  ultimately have "from_digits 65536 (replicate 5 0 @ 65535 # v4_groups (ucast ip)) = unat ip"
    using zeros by (simp add: from_digits_def v4_groups_def)
  then show ?thesis by (simp add: v6_of_segments_def)
qed

lemma read_mapped:
  assumes "ends_address rest"
  shows "read_groups (Suc (Suc (Suc n))) True (''ffff:'' @ v4_text ip @ rest) = (65535 # v4_groups ip, True, rest)"
proof -
  let ?t = "CHR '':'' # v4_text ip @ rest"
  have f: "''ffff'' = fmt_radix 16 65535"
    by (simp add: fmt_radix_def radix_digits.simps digit_char_def char_of_def bit_0)
  have "read_groups (Suc (Suc n)) False ?t = (v4_groups ip, True, rest)"
    using read_ipv4_text [of rest ip] assms by (simp add: read_separator_def ends_address_simps)
  moreover have "read_ipv4_addr (''ffff'' @ ?t) = None" "read_number 16 (Some 4) True 65535 (''ffff'' @ ?t) = Some (65535, ?t)"
    unfolding f by (rule ipv4_refuses_group, simp, simp, rule read_group, simp, simp)
  ultimately show ?thesis by (simp add: read_separator_def)
qed

theorem read_ipv6_text:
  assumes "ends_address rest"
  shows "read_ipv6_addr (v6_text ip @ rest) = Some (ip, rest)"
proof (cases "drop_bit 32 ip = 0xFFFF")
  case True
  have "read_groups 7 True (''ffff:'' @ v4_text (ucast ip) @ rest) = (65535 # v4_groups (ucast ip), True, rest)"
    using read_mapped [OF assms, of 4 "ucast ip"] by (simp del: read_groups.simps)
  from read_compressed [of "[]" rest "''ffff:'' @ v4_text (ucast ip)", OF _ _ assms] this True mapped_segments [OF True]
  show ?thesis by (simp add: v6_text_def groups_text_def v4_groups_def)
next
  case False
  let ?gs = "v6_segments ip"
  obtain start len where z: "zero_span 0 (0, 0) (0, 0) ?gs = (start, len)" by fastforce
  have zs: "zeros_at ?gs (start, len)"
    unfolding z [symmetric] by (rule zero_span_zeros) (simp_all add: zeros_at_def)
  show ?thesis
  proof (cases "1 < len")
    case True
    let ?hs = "take start ?gs" and ?ts = "drop (start + len) ?gs"
    have len: "start + len \<le> 8" using zs by (simp add: zeros_at_def)
    have less: "list_all (\<lambda>g. g < 65536) ?hs" "list_all (\<lambda>g. g < 65536) ?ts"
      using v6_segments_less [of ip] by (auto simp: list_all_iff dest: in_set_takeD in_set_dropD)
    have "read_groups (7 - length ?hs) True (groups_text ?ts @ rest) = (?ts, False, rest)"
      using less len True by (intro read_tail [OF _ _ assms]) auto
    from read_compressed [OF less(1) _ assms this] len True zeros_at_split [OF zs] z False
    show ?thesis by (simp add: v6_text_def min_def Let_def)
  next
    case no: False
    have "read_groups 8 True (groups_text ?gs @ rest) = (?gs, False, rest)"
      by (intro read_tail [OF _ _ assms]) (simp_all add: v6_segments_less)
    with no z False show ?thesis by (simp add: v6_text_def read_ipv6_addr_def del: read_groups.simps)
  qed
qed

section \<open>Socket addresses are read back\<close>

lemma read_port_fmt: "stops 10 rest \<Longrightarrow> read_port ('':'' @ fmt_radix 10 (unat (p :: u16)) @ rest) = Some (p, rest)"
  using read_number_fmt [of 10 "unat p" 65535 4 None rest True] unat_u16_less [of p]
  by (simp add: read_port_def del: unat_u16_less)

lemma read_scope_id_fmt: "stops 10 rest \<Longrightarrow> read_scope_id (''%'' @ fmt_radix 10 (unat (p :: u32)) @ rest) = Some (p, rest)"
  using read_number_fmt [of 10 "unat p" "2 ^ 32 - 1" 9 None rest True] unat_less_pow [of p]
  by (simp add: read_scope_id_def)

theorem parse_sock_text:
  "parse_socket_addr (sock_text (SockV4 ip4 port)) = Inr (SockV4 ip4 port)"
  "parse_socket_addr (sock_text (SockV6 ip6 port flow scope)) = Inr (SockV6 ip6 port 0 scope)"
proof -
  have port: "read_port (CHR '':'' # fmt_radix 10 (unat port)) = Some (port, [])"
    using read_port_fmt [of "[]" port] by simp
  then show "parse_socket_addr (sock_text (SockV4 ip4 port)) = Inr (SockV4 ip4 port)"
    using read_ipv4_text [of "CHR '':'' # fmt_radix 10 (unat port)" ip4]
    by (simp add: parse_socket_addr_def read_socket_addr_v4_def)
  let ?p = "'']:'' @ fmt_radix 10 (unat port)"
  let ?s = "(if scope = 0 then [] else ''%'' @ fmt_radix 10 (unat scope)) @ ?p"
  have no4: "read_socket_addr_v4 (CHR ''['' # s) = None" for s
  proof -
    have "read_octets (Suc n) True (CHR ''['' # s) = None" for n
      by (simp add: read_separator_def read_number_stops stops_def to_digit_def)
    from this [of 3] show ?thesis by (simp add: read_socket_addr_v4_def read_ipv4_addr_def del: read_octets.simps)
  qed
  have "read_ipv6_addr (v6_text ip6 @ ?s) = Some (ip6, ?s)"
    by (rule read_ipv6_text) (simp add: ends_address_def)
  moreover have "read_scope_id ?p = None" by (simp add: read_scope_id_def)
  moreover have "read_scope_id (''%'' @ fmt_radix 10 (unat scope) @ ?p) = Some (scope, ?p)"
    by (rule read_scope_id_fmt) simp
  ultimately show "parse_socket_addr (sock_text (SockV6 ip6 port flow scope)) = Inr (SockV6 ip6 port 0 scope)"
    using port no4 by (cases "scope = 0") (simp_all add: parse_socket_addr_def read_socket_addr_v6_def)
qed

end
