(* ===== verification/Server_Addr.thy ===== *)
theory Server_Addr
  imports Net_Text Config
begin

text \<open>
  Server addresses, \<open>ServerAddr\<close> of \<open>config.rs\<close>: their text in the configuration, and how they are
  resolved and connected to. The resolver and the sockets are arguments.
\<close>

section \<open>Operations\<close>

definition server_host_text :: "server_addr \<Rightarrow> string" where
  "server_host_text server = (case sa_host server of HostIp ip \<Rightarrow> ip_text ip | HostDomain domain \<Rightarrow> domain)"

definition server_resolve :: "(string \<Rightarrow> u16 \<Rightarrow> socket_addr list res) \<Rightarrow> server_addr \<Rightarrow> socket_addr res" where
  "server_resolve lookup_host server =
     (case sa_host server of
        HostIp ip \<Rightarrow> Inr (sock_new ip (sa_port server))
      | HostDomain domain \<Rightarrow>
          and_then (lookup_host domain (sa_port server)) (\<lambda>addrs.
          case addrs of
            [] \<Rightarrow> Inl (Bail ''server did not resolve to any address'')
          | addr # _ \<Rightarrow> Inr addr))"

definition server_connect_tcp ::
    "(socket_addr \<Rightarrow> 's res) \<Rightarrow> (string \<Rightarrow> u16 \<Rightarrow> 's res) \<Rightarrow> server_addr \<Rightarrow> 's res" where
  "server_connect_tcp connect_addr connect_host server =
     (case sa_host server of
        HostIp ip \<Rightarrow> connect_addr (sock_new ip (sa_port server))
      | HostDomain domain \<Rightarrow> connect_host domain (sa_port server))"

definition server_from_sock :: "socket_addr \<Rightarrow> server_addr" where
  "server_from_sock addr = \<lparr>sa_host = HostIp (sock_ip addr), sa_port = sock_port addr\<rparr>"

definition server_from_str :: "string \<Rightarrow> server_addr res" where
  "server_from_str value =
     and_then (ensure (value \<noteq> []) ''server must not be empty'') (\<lambda>_.
     and_then (ensure (trim value = value) ''server must not contain leading or trailing whitespace'') (\<lambda>_.
     case parse_socket_addr value of
       Inr addr \<Rightarrow> Inr (server_from_sock addr)
     | Inl _ \<Rightarrow>
         and_then (ok_or (rsplit_once CHR '':'' value) (Bail ''server must include a port'')) (\<lambda>(host, port).
         and_then (ensure (host \<noteq> []) ''server is missing a host'') (\<lambda>_.
         and_then (ensure (port \<noteq> []) ''server is missing a port'') (\<lambda>_.
         and_then (ensure (CHR '':'' \<notin> set host)
           ''server contains ':' in the host; wrap IPv6 addresses in brackets'') (\<lambda>_.
         and_then (ensure (\<not> contains_whitespace host) ''server contains whitespace in the host'') (\<lambda>_.
         and_then (parse_u16 port) (\<lambda>port.
         Inr \<lparr>sa_host = HostDomain host, sa_port = port\<rparr>))))))))"

definition server_text :: "server_addr \<Rightarrow> string" where
  "server_text server =
     (case sa_host server of
        HostIp ip \<Rightarrow> sock_text (sock_new ip (sa_port server))
      | HostDomain domain \<Rightarrow> domain @ '':'' @ fmt_radix 10 (unat (sa_port server)))"

section \<open>Ports\<close>

lemma foldl_digits_le: "acc \<le> foldl (\<lambda>n d. n * 10 + d) acc (ds :: nat list)"
proof (induction ds arbitrary: acc)
  case (Cons d ds)
  have "acc \<le> acc * 10 + d" by simp
  also have "\<dots> \<le> foldl (\<lambda>n d. n * 10 + d) (acc * 10 + d) ds" by (rule Cons)
  finally show ?case by simp
qed simp

lemma digit_char_digit: "d < 10 \<Longrightarrow> is_digit (digit_char d) \<and> digit_val (digit_char d) = d"
  by (simp add: is_digit_def digit_val_def digit_char_def)

lemma parse_digits_digits:
  "list_all (\<lambda>d. d < 10) ds \<Longrightarrow> foldl (\<lambda>n d. n * 10 + d) acc ds \<le> mx \<Longrightarrow>
    parse_digits mx acc (map digit_char ds) = Inr (foldl (\<lambda>n d. n * 10 + d) acc ds)"
proof (induction ds arbitrary: acc)
  case (Cons d ds)
  then show ?case using foldl_digits_le [of "acc * 10 + d" ds] by (simp add: digit_char_digit)
qed simp

lemma parse_u16_fmt: "parse_u16 (fmt_radix 10 (unat (p :: u16))) = Inr p"
proof -
  let ?ds = "radix_digits 10 (unat p)"
  have small: "list_all (\<lambda>d. d < 10) ?ds" using radix_digits_less [of 10] by (auto simp: list_all_iff)
  obtain d ds where ds: "?ds = d # ds" by (cases ?ds) auto
  have "digit_char d \<noteq> CHR ''+''" using small ds digit_char_digit [of d] by (auto simp: is_digit_def)
  moreover have "unat p \<le> 65535" using unat_u16_less [of p] by linarith
  moreover have "foldl (\<lambda>n d. n * 10 + d) 0 ?ds = unat p" using from_radix_digits [of 10] by (simp add: from_digits_def)
  ultimately show ?thesis
    using parse_digits_digits [OF small, of 0 65535] ds by (simp add: parse_u16_def parse_uint_def fmt_radix_def)
qed

lemma fmt_digits: "c \<in> set (fmt_radix 10 n) \<Longrightarrow> is_digit c"
  using radix_digits_less [of 10 _ n] digit_char_digit by (auto simp: fmt_radix_def)

lemma fmt_not_Nil [simp]: "fmt_radix radix n \<noteq> []"
  by (simp add: fmt_radix_def)

section \<open>White space\<close>

definition plain :: "char \<Rightarrow> bool" where
  "plain c \<longleftrightarrow> is_digit c \<or> c = CHR ''['' \<or> c = CHR '':''"

lemma plain_no_ws:
  "plain c \<Longrightarrow> w \<in> set ws_encodings \<Longrightarrow> w \<noteq> [] \<and> c \<notin> set w"
  by (auto simp: plain_def is_digit_def ws_encodings_def)

lemma trim_end_digit:
  assumes "is_digit (last s)" "s \<noteq> []"
  shows "trim_end s = s"
proof -
  have "trim_front (map rev ws_encodings) (rev s) = rev s"
  proof (rule trim_front_id, rule ballI)
    fix w assume "w \<in> set (map rev ws_encodings)"
    then obtain v where v: "v \<in> set ws_encodings" "w = rev v" by auto
    from plain_no_ws [OF _ v(1), of "last s"] assms v(2) show "w = [] \<or> rev s = [] \<or> hd w \<noteq> hd (rev s)"
      by (metis hd_rev last_in_set plain_def)
  qed
  then show ?thesis by (simp add: trim_end_def)
qed

lemma trim_start_plain:
  assumes "plain (hd s)" "s \<noteq> []"
  shows "trim_start s = s"
proof -
  have "hd w \<noteq> hd s" if "w \<in> set ws_encodings" for w
    using plain_no_ws [OF assms(1) that] by (metis list.set_sel(1))
  then show ?thesis unfolding trim_start_def by (intro trim_front_id) blast
qed

lemma trim_start_host:
  assumes "\<not> contains_whitespace host" "host \<noteq> []"
  shows "trim_start (host @ CHR '':'' # s) = host @ CHR '':'' # s"
proof -
  have "\<not> has_prefix w (host @ CHR '':'' # s)" if w: "w \<in> set ws_encodings" for w
  proof
    assume p: "has_prefix w (host @ CHR '':'' # s)"
    have "length w \<le> length host"
    proof (rule ccontr)
      assume "\<not> length w \<le> length host"
      then have "CHR '':'' \<in> set (take (length w) (host @ CHR '':'' # s))"
        by (cases "length w - length host") simp_all
      then have "CHR '':'' \<in> set w" using p by (simp only: has_prefix_def)
      with plain_no_ws [OF _ w, of "CHR '':''"] show False by (simp add: plain_def)
    qed
    with p have "has_prefix w host" by (simp add: has_prefix_def)
    with w assms show False by (cases host) (auto simp: list_ex_iff)
  qed
  then have "find (\<lambda>w. w \<noteq> [] \<and> has_prefix w (host @ CHR '':'' # s)) ws_encodings = None"
    by (auto simp: find_None_iff)
  then show ?thesis unfolding trim_start_def by (subst trim_front.simps) simp
qed

section \<open>The text of a domain is not a socket address\<close>

lemma digits_of_append:
  "digits_of 10 (a @ CHR '':'' # b) = (case digits_of 10 a of (ds, r) \<Rightarrow> (ds, r @ CHR '':'' # b))"
  by (induction a) (auto simp: to_digit_def split: option.split prod.split)

lemma digits_of_suffix: "digits_of radix s = (ds, r) \<Longrightarrow> \<exists>pre. s = pre @ r"
proof (induction s arbitrary: ds)
  case (Cons c s)
  show ?case
  proof (cases "to_digit radix c")
    case None
    then show ?thesis using Cons by auto
  next
    case (Some d)
    then obtain ds' where "digits_of radix s = (ds', r)" using Cons(2) by (auto split: prod.splits)
    with Cons(1) obtain pre where "s = pre @ r" by blast
    then have "c # s = (c # pre) @ r" by simp
    then show ?thesis ..
  qed
qed simp

lemma read_number_suffix: "read_number radix m z g s = Some (n, r) \<Longrightarrow> \<exists>pre. s = pre @ r"
  by (auto simp: read_number_def split: prod.splits if_splits dest: digits_of_suffix)

lemma read_number_append:
  "read_number 10 m z g (a @ CHR '':'' # b) = map_option (\<lambda>(n, r). (n, r @ CHR '':'' # b)) (read_number 10 m z g a)"
  by (auto simp: read_number_def digits_of_append split: prod.split)

lemma read_octets_append:
  "read_octets n first (a @ CHR '':'' # b) = map_option (\<lambda>(os, r). (os, r @ CHR '':'' # b)) (read_octets n first a)"
proof (induction n arbitrary: first a)
  case (Suc n)
  have "read_separator CHR ''.'' first (read_number 10 (Some 3) False 255) (a @ CHR '':'' # b) =
      map_option (\<lambda>(n, r). (n, r @ CHR '':'' # b)) (read_separator CHR ''.'' first (read_number 10 (Some 3) False 255) a)"
  proof (cases first)
    case False
    then show ?thesis by (cases a) (simp_all add: read_separator_def read_number_append)
  qed (simp add: read_separator_def read_number_append)
  with Suc show ?case by (auto split: option.split)
qed simp

lemma read_octets_suffix: "read_octets n first s = Some (os, r) \<Longrightarrow> \<exists>pre. s = pre @ r"
proof (induction n arbitrary: first s os)
  case (Suc n)
  then obtain o' s' os' where "read_separator CHR ''.'' first (read_number 10 (Some 3) False 255) s = Some (o', s')"
      "read_octets n False s' = Some (os', r)" by (auto split: option.splits)
  with Suc(1) [of False s' os'] obtain pre pre' where "s = pre' @ s'" "s' = pre @ r"
    by (cases s) (auto simp: read_separator_def split: if_splits dest!: read_number_suffix intro: append_Cons [symmetric])
  then show ?case by auto
qed simp

abbreviation colons :: "string \<Rightarrow> nat" where
  "colons s \<equiv> length (filter ((=) CHR '':'') s)"

lemma read_separator_colon:
  assumes "\<And>s x r. inner s = Some (x, r) \<Longrightarrow> \<exists>pre. s = pre @ r"
    and "read_separator CHR '':'' first inner s = Some (x, r)"
  shows "\<exists>pre. s = pre @ r \<and> 1 \<le> colons pre + (if first then 1 else 0)"
proof (cases first)
  case True
  then show ?thesis using assms(1) [of s x r] assms(2) by (auto simp: read_separator_def)
next
  case False
  then obtain s' where s': "s = CHR '':'' # s'" "inner s' = Some (x, r)"
    using assms(2) by (cases s) (auto simp: read_separator_def split: if_splits)
  with assms(1) obtain pre where "s' = pre @ r" by blast
  with s' have "s = (CHR '':'' # pre) @ r \<and> 1 \<le> colons (CHR '':'' # pre) + (if first then 1 else 0)" by simp
  then show ?thesis by blast
qed

lemma read_ipv4_suffix: "read_ipv4_addr s = Some (ip, r) \<Longrightarrow> \<exists>pre. s = pre @ r"
  by (auto simp: read_ipv4_addr_def dest: read_octets_suffix)

lemma group_colon:
  "read_separator CHR '':'' first (read_number radix m z g) s = Some (n, r) \<Longrightarrow>
    \<exists>pre. s = pre @ r \<and> 1 \<le> colons pre + (if first then 1 else 0)"
  by (rule read_separator_colon) (rule read_number_suffix)

text \<open>Every group after the first costs a colon; an IPv4 address at the end counts as two groups.\<close>

lemma read_groups_colons:
  "read_groups n first s = (gs, v4, r) \<Longrightarrow>
    \<exists>pre. s = pre @ r \<and> length gs \<le> colons pre + (if first then 1 else 0) + 1"
proof (induction n arbitrary: first s gs v4)
  case (Suc n)
  show ?case
  proof (cases "if 0 < n then read_separator CHR '':'' first read_ipv4_addr s else None")
    case (Some p)
    then have "read_separator CHR '':'' first read_ipv4_addr s = Some (fst p, r)" "length gs = 2"
      using Suc(2) by (auto simp: v4_groups_def split: if_splits prod.splits)
    then show ?thesis using read_separator_colon [OF read_ipv4_suffix] by fastforce
  next
    case None
    show ?thesis
    proof (cases "read_separator CHR '':'' first (read_number 16 (Some 4) True 65535) s")
      case (Some p)
      then obtain g s' gs' where p: "read_separator CHR '':'' first (read_number 16 (Some 4) True 65535) s = Some (g, s')"
          "read_groups n False s' = (gs', v4, r)" "gs = g # gs'"
        using Suc(2) None by (auto split: prod.splits if_splits)
      obtain pre pre' where "s = pre @ s'" "1 \<le> colons pre + (if first then 1 else 0)"
          "s' = pre' @ r" "length gs' \<le> colons pre' + 1"
        using group_colon [OF p(1)] Suc(1) [OF p(2)] by auto
      then have "s = (pre @ pre') @ r \<and> length gs \<le> colons (pre @ pre') + (if first then 1 else 0) + 1"
        using p(3) by (auto split: if_splits)
      then show ?thesis by blast
    qed (use Suc(2) None in auto)
  qed
qed simp

lemma read_ipv6_colons: "colons s \<le> 1 \<Longrightarrow> read_ipv6_addr s = None"
proof -
  assume one: "colons s \<le> 1"
  obtain gs v4 r where g: "read_groups 8 True s = (gs, v4, r)" by (metis prod_cases3)
  from read_groups_colons [OF g] obtain pre where "s = pre @ r" "length gs \<le> colons pre + 2" by auto
  with one have "length gs \<noteq> 8" "colons r \<le> 1" by auto
  with g show ?thesis by (auto simp: read_ipv6_addr_def simp del: read_groups.simps split: list.split)
qed

lemma parse_domain_text:
  assumes "CHR '':'' \<notin> set host" "CHR '':'' \<notin> set port" "\<forall>ip. read_ipv4_addr host \<noteq> Some (ip, [])"
  shows "\<exists>e. parse_socket_addr (host @ CHR '':'' # port) = Inl e"
proof -
  let ?s = "host @ CHR '':'' # port"
  have none: "x \<notin> set s \<Longrightarrow> filter ((=) x) s = []" for x :: char and s by (induction s) auto
  have "read_socket_addr_v6 ?s = None"
  proof (cases host)
    case (Cons c cs)
    have "colons (cs @ CHR '':'' # port) \<le> 1" using assms(1,2) Cons none by simp
    from read_ipv6_colons [OF this] Cons show ?thesis by (simp add: read_socket_addr_v6_def)
  qed (simp add: read_socket_addr_v6_def)
  moreover have "read_socket_addr_v4 ?s = None"
  proof (cases "read_octets 4 True host")
    case (Some p)
    obtain os r where p: "p = (os, r)" by fastforce
    from read_octets_suffix [of 4 True host os r] Some p obtain pre where "host = pre @ r" by auto
    moreover have "r \<noteq> []" using assms(3) Some p by (auto simp: read_ipv4_addr_def)
    ultimately have "read_given_char CHR '':'' (r @ CHR '':'' # port) = None" using assms(1) by (cases r) auto
    then show ?thesis
      using Some p by (simp add: read_socket_addr_v4_def read_ipv4_addr_def read_octets_append read_port_def)
  qed (simp add: read_socket_addr_v4_def read_ipv4_addr_def read_octets_append)
  ultimately show ?thesis by (simp add: parse_socket_addr_def)
qed

section \<open>Server addresses are read back\<close>

definition server_ok :: "server_addr \<Rightarrow> bool" where
  "server_ok server \<longleftrightarrow>
     (case sa_host server of
        HostIp ip \<Rightarrow> True
      | HostDomain host \<Rightarrow> host \<noteq> [] \<and> CHR '':'' \<notin> set host \<and> \<not> contains_whitespace host \<and>
          (\<forall>ip. read_ipv4_addr host \<noteq> Some (ip, [])))"

lemma sock_text_ends: "sock_text a \<noteq> [] \<and> plain (hd (sock_text a)) \<and> is_digit (last (sock_text a))"
proof -
  have "is_digit (hd (fmt_radix 10 n)) \<and> is_digit (last (fmt_radix 10 n))" for n
    using fmt_digits [of _ n] by simp
  moreover have "\<exists>b bs. v4_octets ip = b # bs" for ip
    using length_octets(1) [of ip] by (cases "v4_octets ip") auto
  then have "\<exists>b s. v4_text ip = fmt_radix 10 b @ s" for ip by (metis v4_text_def join_Cons list.simps(9))
  then have "is_digit (hd (v4_text ip @ s))" for ip s using calculation by (metis fmt_not_Nil append_assoc hd_append2)
  ultimately show ?thesis by (cases a) (simp_all add: plain_def)
qed

lemma server_from_sock_text:
  "server_from_str (sock_text (sock_new ip port)) = Inr \<lparr>sa_host = HostIp ip, sa_port = port\<rparr>"
proof -
  let ?s = "sock_text (sock_new ip port)"
  have "trim ?s = ?s" using sock_text_ends [of "sock_new ip port"] by (simp add: trim_def trim_start_plain trim_end_digit)
  moreover have "parse_socket_addr ?s = Inr (sock_new ip port)" 
    by (cases ip) (simp_all add: parse_sock_text del: sock_text.simps)
  moreover have "server_from_sock (sock_new ip port) = \<lparr>sa_host = HostIp ip, sa_port = port\<rparr>"
    by (cases ip) (simp_all add: server_from_sock_def)
  ultimately show ?thesis using sock_text_ends [of "sock_new ip port"] by (simp add: server_from_str_def)
qed

lemma server_from_domain_text:
  assumes "server_ok \<lparr>sa_host = HostDomain host, sa_port = port\<rparr>"
  shows "server_from_str (host @ CHR '':'' # fmt_radix 10 (unat port)) = Inr \<lparr>sa_host = HostDomain host, sa_port = port\<rparr>"
proof -
  let ?p = "fmt_radix 10 (unat port)"
  have p: "CHR '':'' \<notin> set ?p" using fmt_digits [of "CHR '':''" "unat port"] by (auto simp: is_digit_def)
  have h: "host \<noteq> []" "CHR '':'' \<notin> set host" "\<not> contains_whitespace host" "\<forall>ip. read_ipv4_addr host \<noteq> Some (ip, [])"
    using assms by (simp_all add: server_ok_def)
  have "trim (host @ CHR '':'' # ?p) = host @ CHR '':'' # ?p"
    using h fmt_digits [of "last ?p" "unat port"] by (simp add: trim_def trim_start_host trim_end_digit)
  moreover obtain e where "parse_socket_addr (host @ CHR '':'' # ?p) = Inl e"
    using parse_domain_text [OF h(2) p h(4)] by blast
  moreover have "rsplit_once CHR '':'' (host @ CHR '':'' # ?p) = Some (host, ?p)"
    using p split_once_append [of "CHR '':''" "rev ?p" "rev host"] by (simp add: rsplit_once_def)
  ultimately show ?thesis using h by (simp add: server_from_str_def parse_u16_fmt)
qed

text \<open>C39: The text of a server address is read back as the address it was written from, for every IPv4
  and IPv6 address, the latter in brackets with its longest run of zeros left out, and for every domain
  that is not empty, has neither a colon nor white space and is not itself an IPv4 address. Conversely a text is only accepted as a
  domain if the domain is not empty and has neither a colon nor white space.\<close>

theorem server_addr_roundtrip:
  "(server_ok server \<longrightarrow> server_from_str (server_text server) = Inr server) \<and>
   (server_from_str s = Inr server \<and> sa_host server = HostDomain host \<longrightarrow>
      host \<noteq> [] \<and> CHR '':'' \<notin> set host \<and> \<not> contains_whitespace host)"
proof (intro conjI impI)
  show "server_from_str (server_text server) = Inr server" if "server_ok server"
    using that server_from_sock_text server_from_domain_text
    by (cases server; cases "sa_host server") (auto simp: server_text_def)
qed (auto simp: server_from_str_def server_from_sock_def and_then_Inr_iff split: sum.splits)

theorem server_addr_roundtrip_witness:
  "server_from_str ''[2001:db8::1]:443'' = Inr \<lparr>sa_host = HostIp (V6 0x20010DB8000000000000000000000001), sa_port = 443\<rparr> \<and>
   server_from_str ''a.org:80'' = Inr \<lparr>sa_host = HostDomain ''a.org'', sa_port = 80\<rparr>"
proof -
  let ?ip = "\<lparr>sa_host = HostIp (V6 0x20010DB8000000000000000000000001), sa_port = 443\<rparr>"
  let ?d = "\<lparr>sa_host = HostDomain ''a.org'', sa_port = 80\<rparr>"
  have "v6_segments 0x20010DB8000000000000000000000001 = [0x2001, 0xDB8, 0, 0, 0, 0, 0, 1]"
    by (simp add: v6_segments_def upt_rec)
  then have texts: "server_text ?ip = ''[2001:db8::1]:443''" "server_text ?d = ''a.org:80''"
    by (simp_all add: server_text_def v6_text_def groups_text_def fmt_radix_def radix_digits.simps digit_char_def
        char_of_def bit_0 drop_bit_eq_div)
  have "read_octets (Suc n) True ''a.org'' = None" for n
    by (simp add: read_separator_def read_number_stops stops_def to_digit_def)
  from this [of 3] have "read_ipv4_addr ''a.org'' = None" by (simp add: read_ipv4_addr_def del: read_octets.simps)
  moreover have "\<not> contains_whitespace ''a.org''" by code_simp
  ultimately have "server_ok ?ip" "server_ok ?d" by (simp_all add: server_ok_def)
  with server_addr_roundtrip [of ?ip "[]" "[]"] server_addr_roundtrip [of ?d "[]" "[]"] texts show ?thesis by simp
qed

end
