(* ===== verification/Tuic_Outbound.thy ===== *)
theory Tuic_Outbound
  imports Tuic_Writes Server_Addr Direct_Outbound
begin

text \<open>
  The TUIC outbound, \<open>protocol/tuic/outbound.rs\<close> and \<open>protocol/tuic.rs\<close>: the settings of the
  connection, dialing, and the two applications over QUIC, one for a stream and one for datagrams. The
  resolver, the sockets and QUIC are arguments; a queue of writes is worked off by \<open>queue_loop\<close>, whose
  laws are those of the locales \<open>write_queue\<close> and \<open>finite_queue\<close>.
\<close>

section \<open>Settings\<close>

text \<open>The settings the program changes; the defaults of the library are an argument.\<close>

record quic_settings =
  qs_alpn :: "bytes list"
  tls_ech_grease :: bool
  tls_application_settings :: "(bytes \<times> bytes) list"
  extra_transport_params :: "(u64 \<times> bytes) list"
  ack_delay_exponent :: u64
  max_ack_delay :: u64
  disable_active_migration :: bool
  verify_peer :: bool
  disable_client_ip_validation :: bool

definition CHROME_H3_ALPS_SETTINGS :: bytes where
  "CHROME_H3_ALPS_SETTINGS = []"

definition CHROME_QUIC_VERSION_INFORMATION :: bytes where
  "CHROME_QUIC_VERSION_INFORMATION = [0, 0, 0, 1, 0, 0, 0, 1]"

definition quic_settings_of :: "quic_settings \<Rightarrow> quic_settings" where
  "quic_settings_of defaults = defaults
     \<lparr>qs_alpn := [as_bytes ''h3''],
      tls_ech_grease := True,
      tls_application_settings := [(as_bytes ''h3'', CHROME_H3_ALPS_SETTINGS)],
      extra_transport_params := [(0x0011, CHROME_QUIC_VERSION_INFORMATION), (0x3128, [])],
      ack_delay_exponent := 0,
      max_ack_delay := 0,
      disable_active_migration := False\<rparr>"

section \<open>The queue of writes\<close>

text \<open>
  The answer to the write at the front either fails, or gives the writes that return to the front and
  whether the loop goes on. Without an answer for the next write the loop has not returned.
\<close>

fun queue_loop ::
    "('w \<Rightarrow> quic_reply \<Rightarrow> ('w list \<times> bool) res) \<Rightarrow> quic_reply list \<Rightarrow> 'w list \<Rightarrow> unit res option \<times> 'w list" where
  "queue_loop step [] q = (if q = [] then Some (Inr ()) else None, q)"
| "queue_loop step (reply # replies) q =
     (case q of
        [] \<Rightarrow> (Some (Inr ()), [])
      | w # rest \<Rightarrow>
          (case step w reply of
             Inl e \<Rightarrow> (Some (Inl e), rest)
           | Inr (front, go) \<Rightarrow>
               if go then queue_loop step replies (front @ rest) else (Some (Inr ()), front @ rest)))"

text \<open>What the answers of a run have taken of the queue.\<close>

fun queue_log ::
    "('w \<Rightarrow> quic_reply \<Rightarrow> ('w list \<times> bool) res) \<Rightarrow> ('w \<Rightarrow> quic_reply \<Rightarrow> 'i list) \<Rightarrow>
     quic_reply list \<Rightarrow> 'w list \<Rightarrow> 'i list" where
  "queue_log step took [] q = []"
| "queue_log step took (reply # replies) q =
     (case q of
        [] \<Rightarrow> []
      | w # rest \<Rightarrow>
          (case step w reply of
             Inl e \<Rightarrow> []
           | Inr (front, go) \<Rightarrow> took w reply @ (if go then queue_log step took replies (front @ rest) else [])))"

locale write_queue =
  fixes step :: "'w \<Rightarrow> quic_reply \<Rightarrow> ('w list \<times> bool) res"
    and content_of :: "'w \<Rightarrow> 'i list"
    and took :: "'w \<Rightarrow> quic_reply \<Rightarrow> 'i list"
    and ok :: "quic_reply \<Rightarrow> bool"
  assumes step_content: "step w reply = Inr (front, go) \<Longrightarrow> ok reply \<Longrightarrow> content_of w = took w reply @ concat (map content_of front)"
begin

lemma loop_fifo:
  assumes "queue_loop step replies q = (Some (Inr ()), q')" "list_all ok replies"
  shows "concat (map content_of q) = queue_log step took replies q @ concat (map content_of q')"
  using assms
proof (induction replies arbitrary: q)
  case (Cons reply replies)
  show ?case
  proof (cases q)
    case q: (Cons w rest)
    obtain front go where s: "step w reply = Inr (front, go)"
      using Cons(2) q by (auto split: sum.splits)
    from step_content [OF this] Cons(3) have "content_of w = took w reply @ concat (map content_of front)" by simp
    with Cons(2,3) Cons(1) [of "front @ rest"] q s show ?thesis by (cases go) auto
  qed (use Cons in simp)
qed (simp split: if_splits)

end

text \<open>Every answer of a run is one that QUIC may give to the write it answers.\<close>

fun queue_lawful ::
    "('w \<Rightarrow> quic_reply \<Rightarrow> ('w list \<times> bool) res) \<Rightarrow> ('w \<Rightarrow> quic_reply \<Rightarrow> bool) \<Rightarrow> quic_reply list \<Rightarrow> 'w list \<Rightarrow> bool" where
  "queue_lawful step permits [] q = True"
| "queue_lawful step permits (reply # replies) q =
     (case q of
        [] \<Rightarrow> True
      | w # rest \<Rightarrow> permits w reply \<and>
          (case step w reply of Inr (front, True) \<Rightarrow> queue_lawful step permits replies (front @ rest) | _ \<Rightarrow> True))"

locale finite_queue =
  fixes step :: "'w \<Rightarrow> quic_reply \<Rightarrow> ('w list \<times> bool) res"
    and sane :: "'w \<Rightarrow> bool"
    and permits :: "'w \<Rightarrow> quic_reply \<Rightarrow> bool"
    and size_of :: "'w \<Rightarrow> nat"
  assumes size_pos: "0 < size_of w"
    and step_shrinks: "sane w \<Longrightarrow> permits w reply \<Longrightarrow> step w reply = Inr (front, True) \<Longrightarrow>
      list_all sane front \<and> sum_list (map size_of front) < size_of w"
begin

lemma loop_returns:
  assumes "list_all sane q" "sum_list (map size_of q) \<le> length replies" "queue_lawful step permits replies q"
  shows "\<exists>r q'. queue_loop step replies q = (Some r, q')"
  using assms
proof (induction replies arbitrary: q)
  case Nil
  then show ?case
  proof (cases q)
    case (Cons w rest)
    with Nil(2) size_pos [of w] show ?thesis by simp
  qed simp
next
  case (Cons reply replies)
  show ?case
  proof (cases q)
    case q: (Cons w rest)
    show ?thesis
    proof (cases "step w reply")
      case (Inr p)
      obtain front go where p: "p = (front, go)" by fastforce
      show ?thesis
      proof (cases go)
        case True
        with step_shrinks [of w reply front] Cons(2,4) q Inr p
        have "list_all sane front" "sum_list (map size_of front) < size_of w" by auto
        then have "list_all sane (front @ rest)" "sum_list (map size_of (front @ rest)) \<le> length replies"
          using Cons(2,3) q by auto
        from Cons(1) [OF this] Cons(4) q Inr p True show ?thesis by simp
      qed (use q Inr p in simp)
    qed (use q in simp)
  qed simp
qed

end

section \<open>The application of a stream\<close>

definition CONNECT_STREAM_ID :: u64 where
  "CONNECT_STREAM_ID = 0"

definition AUTH_STREAM_ID :: u64 where
  "AUTH_STREAM_ID = 2"

definition HEARTBEAT_INTERVAL :: duration where
  "HEARTBEAT_INTERVAL = from_secs 10"

definition CLIENT_CHANNEL_CAPACITY :: usize where
  "CLIENT_CHANNEL_CAPACITY = 32"

definition CLIENT_UDP_CHANNEL_CAPACITY :: usize where
  "CLIENT_UDP_CHANNEL_CAPACITY = 128"

datatype client_write = ClientData bytes | ClientHeartbeat | ClientClose

text \<open>
  \<open>ca_outbound_rx\<close> are the writes that wait in the channel and \<open>ca_rx_closed\<close> tells whether all its
  senders are gone; \<open>ca_stream_tx\<close> is the channel to the task that hands data to the caller.
\<close>

record tuic_client_app =
  ca_uuid :: uuid
  ca_password :: string
  ca_target :: target_addr
  ca_outbound_rx :: "client_write list"
  ca_rx_closed :: bool
  ca_stream_tx :: "bytes channel option"
  ca_pending_writes :: "client_write list"
  ca_next_heartbeat :: instant

definition tuic_client_app_new :: "uuid \<Rightarrow> string \<Rightarrow> target_addr \<Rightarrow> instant \<Rightarrow> tuic_client_app" where
  "tuic_client_app_new uuid password target now =
     \<lparr>ca_uuid = uuid, ca_password = password, ca_target = target, ca_outbound_rx = [], ca_rx_closed = False,
      ca_stream_tx = Some (ch_new CLIENT_CHANNEL_CAPACITY), ca_pending_writes = [],
      ca_next_heartbeat = now + HEARTBEAT_INTERVAL\<rparr>"

text \<open>An attempt to send on a stream, with its answer: the stream, the data and whether it ends.\<close>

definition send_all_or_queue :: "bytes \<Rightarrow> bool \<Rightarrow> quic_reply \<Rightarrow> (tuic_client_app, unit) sm" where
  "send_all_or_queue data fin reply app =
     (case reply of
        Accepted sent \<Rightarrow>
          if sent = length data then (Inr (), app)
          else (Inr (), app\<lparr>ca_pending_writes := ClientData (drop sent data) # ca_pending_writes app\<rparr>)
      | Done \<Rightarrow> (Inr (), app\<lparr>ca_pending_writes := ClientData data # ca_pending_writes app\<rparr>)
      | BufferTooShort _ \<Rightarrow> (Inl IoError, app)
      | QuicError e \<Rightarrow> (Inl e, app))"

fun sent_or_error :: "quic_reply \<Rightarrow> usize res" where
  "sent_or_error (Accepted n) = Inr n"
| "sent_or_error Done = Inl (Bail ''done'')"
| "sent_or_error (BufferTooShort _) = Inl IoError"
| "sent_or_error (QuicError e) = Inl e"

definition client_established ::
    "tuic_env \<Rightarrow> quic_reply \<Rightarrow> quic_reply \<Rightarrow> (tuic_client_app, unit) sm" where
  "client_established env auth_reply connect_reply app =
     sm_bind (sm_lift (token (env_exporter env) (ca_uuid app) (as_bytes (ca_password app)))) (\<lambda>token.
     sm_bind (sm_lift (encode_authenticate (env_core env) (ca_uuid app) token)) (\<lambda>auth.
     sm_bind (sm_lift (sent_or_error auth_reply)) (\<lambda>_.
     sm_bind (sm_lift (encode_connect (env_core env) (ca_target app) [])) (\<lambda>connect.
     send_all_or_queue connect False connect_reply)))) app"

text \<open>
  What ended the wait: a write, waiting or arriving, or the end of the channel, or the time of the next
  heartbeat, with the time at which it ended. An event can only end the wait when its branch is enabled
  and becomes ready; the branch of the channel is disabled when the channel is known to have ended.
\<close>

datatype 'w wait_event = WaitWrite "'w option" | WaitHeartbeat instant

fun client_wait_enabled :: "tuic_client_app \<Rightarrow> client_write wait_event \<Rightarrow> bool" where
  "client_wait_enabled app (WaitWrite (Some w)) =
     (if ca_outbound_rx app = [] then \<not> ca_rx_closed app else hd (ca_outbound_rx app) = w)"
| "client_wait_enabled app (WaitWrite None) = (ca_outbound_rx app = [] \<and> \<not> ca_rx_closed app)"
| "client_wait_enabled app (WaitHeartbeat now) = (ca_next_heartbeat app \<le> now)"

fun client_wait_for_data :: "client_write wait_event \<Rightarrow> tuic_client_app \<Rightarrow> tuic_client_app" where
  "client_wait_for_data ev app =
     (if ca_pending_writes app \<noteq> [] then app
      else case ev of
        WaitWrite None \<Rightarrow> app\<lparr>ca_rx_closed := True\<rparr>
      | WaitWrite (Some w) \<Rightarrow>
          app\<lparr>ca_outbound_rx := tl (ca_outbound_rx app), ca_pending_writes := ca_pending_writes app @ [w]\<rparr>
      | WaitHeartbeat now \<Rightarrow>
          app\<lparr>ca_pending_writes := ca_pending_writes app @ [ClientHeartbeat],
              ca_next_heartbeat := now + HEARTBEAT_INTERVAL\<rparr>)"

fun client_read_stream :: "u64 \<times> stream_recv \<Rightarrow> (tuic_client_app, unit) sm" where
  "client_read_stream (stream_id, Received data fin) app =
     (case (if stream_id = CONNECT_STREAM_ID \<and> data \<noteq> []
            then (case ca_stream_tx app of
                    None \<Rightarrow> Inr None
                  | Some tx \<Rightarrow> and_then (try_send tx data) (\<lambda>tx. Inr (Some tx)))
            else Inr (ca_stream_tx app)) of
        Inl e \<Rightarrow> (Inl (Bail ''tuic outbound receive queue backpressure''), app)
      | Inr tx \<Rightarrow> (Inr (), app\<lparr>ca_stream_tx := (if fin \<and> stream_id = CONNECT_STREAM_ID then None else tx)\<rparr>))"
| "client_read_stream (stream_id, RecvDone) app = (Inr (), app)"
| "client_read_stream (stream_id, RecvError e) app = (Inl e, app)"

text \<open>The datagrams that arrive are read and dropped.\<close>

definition client_process_reads :: "(u64 \<times> stream_recv) list \<Rightarrow> bytes list \<Rightarrow> (tuic_client_app, unit) sm" where
  "client_process_reads reads dgrams = sm_for reads client_read_stream"

fun client_write_step :: "tuic_core \<Rightarrow> client_write \<Rightarrow> quic_reply \<Rightarrow> (client_write list \<times> bool) res" where
  "client_write_step core (ClientData data) reply =
     (case reply of
        Accepted sent \<Rightarrow> if sent = length data then Inr ([], True) else Inr ([ClientData (drop sent data)], False)
      | Done \<Rightarrow> Inr ([ClientData data], False)
      | BufferTooShort _ \<Rightarrow> Inl IoError
      | QuicError e \<Rightarrow> Inl e)"
| "client_write_step core ClientHeartbeat reply =
     and_then (encode_heartbeat core) (\<lambda>heartbeat.
     case reply of
       Accepted _ \<Rightarrow> Inr ([], True)
     | Done \<Rightarrow> Inr ([ClientHeartbeat], False)
     | BufferTooShort _ \<Rightarrow> Inl IoError
     | QuicError e \<Rightarrow> Inl e)"
| "client_write_step core ClientClose reply = Inr ([], True)"

definition client_process_writes ::
    "tuic_core \<Rightarrow> quic_reply list \<Rightarrow> tuic_client_app \<Rightarrow> unit res option \<times> tuic_client_app" where
  "client_process_writes core replies app =
     (case queue_loop (client_write_step core) replies (ca_pending_writes app @ ca_outbound_rx app) of
        (r, q) \<Rightarrow> (r, app\<lparr>ca_pending_writes := q, ca_outbound_rx := []\<rparr>))"

section \<open>The datagram session and its application\<close>

datatype client_udp_write = UdpPacket packet | UdpHeartbeat

text \<open>
  The session with the writes that wait in its channel and the responses that wait for the caller, and
  whether the application still has the other ends. A send waits while the channel is full. Receiving
  takes the oldest response; without one it waits, which is the result \<open>None\<close>.
\<close>

record tuic_udp_session =
  us_write_tx :: "client_udp_write list"
  us_write_closed :: bool
  us_response_rx :: "(target_addr \<times> bytes) list"
  us_response_closed :: bool
  us_pkt_id :: u16

definition tuic_udp_send_to :: "target_addr \<Rightarrow> bytes \<Rightarrow> (tuic_udp_session, unit) sm" where
  "tuic_udp_send_to target payload s =
     (if \<not> length payload \<le> 65535 then (Inl (Bail ''tuic UDP packet is too large''), s)
      else
        let packet = \<lparr>pk_assoc_id = 1, pk_pkt_id = us_pkt_id s, pk_frag_total = 1, pk_frag_id = 0,
                      pk_target = Some target, pk_payload = payload\<rparr>;
            s = s\<lparr>us_pkt_id := us_pkt_id s + 1\<rparr> in
        if us_write_closed s then (Inl (Bail ''tuic udp session closed''), s)
        else (Inr (), s\<lparr>us_write_tx := us_write_tx s @ [UdpPacket packet]\<rparr>))"

definition tuic_udp_recv_from ::
    "tuic_udp_session \<Rightarrow> (target_addr \<times> bytes) res option \<times> tuic_udp_session" where
  "tuic_udp_recv_from s =
     (case us_response_rx s of
        response # rest \<Rightarrow> (Some (Inr response), s\<lparr>us_response_rx := rest\<rparr>)
      | [] \<Rightarrow> (if us_response_closed s then Some (Inl (Bail ''tuic udp session closed'')) else None, s))"

record tuic_udp_client =
  uc_uuid :: uuid
  uc_password :: string
  uc_outbound_rx :: "client_udp_write list"
  uc_rx_closed :: bool
  uc_response_tx :: "(target_addr \<times> bytes) channel"
  uc_pending_writes :: "client_udp_write list"
  uc_assembler :: packet_assembler
  uc_stream_buffers :: "(u64, bytes) fmap"
  uc_next_heartbeat :: instant

definition tuic_udp_client_new :: "uuid \<Rightarrow> string \<Rightarrow> instant \<Rightarrow> tuic_udp_client" where
  "tuic_udp_client_new uuid password now =
     \<lparr>uc_uuid = uuid, uc_password = password, uc_outbound_rx = [], uc_rx_closed = False,
      uc_response_tx = ch_new CLIENT_UDP_CHANNEL_CAPACITY, uc_pending_writes = [], uc_assembler = fmempty,
      uc_stream_buffers = fmempty, uc_next_heartbeat = now + HEARTBEAT_INTERVAL\<rparr>"

definition udp_client_handle_packet :: "tuic_core \<Rightarrow> instant \<Rightarrow> bytes \<Rightarrow> (tuic_udp_client, unit) sm" where
  "udp_client_handle_packet core now data app =
     (case parse_packet core data of
        Inl e \<Rightarrow> (Inl e, app)
      | Inr packet \<Rightarrow>
          (case push (uc_assembler app) packet now of
             (Inl e, asm) \<Rightarrow> (Inl e, app\<lparr>uc_assembler := asm\<rparr>)
           | (Inr None, asm) \<Rightarrow> (Inr (), app\<lparr>uc_assembler := asm\<rparr>)
           | (Inr (Some packet), asm) \<Rightarrow>
               (case pk_target packet of
                  None \<Rightarrow> (Inl (Bail ''tuic udp response missing source''), app\<lparr>uc_assembler := asm\<rparr>)
                | Some source \<Rightarrow>
                    (Inr (), app\<lparr>uc_assembler := asm,
                       uc_response_tx :=
                         (case try_send (uc_response_tx app) (source, pk_payload packet) of
                            Inl _ \<Rightarrow> uc_response_tx app
                          | Inr tx \<Rightarrow> tx)\<rparr>))))"

definition udp_client_established :: "tuic_env \<Rightarrow> quic_reply \<Rightarrow> (tuic_udp_client, unit) sm" where
  "udp_client_established env auth_reply app =
     sm_bind (sm_lift (token (env_exporter env) (uc_uuid app) (as_bytes (uc_password app)))) (\<lambda>token.
     sm_bind (sm_lift (encode_authenticate (env_core env) (uc_uuid app) token)) (\<lambda>auth.
     sm_bind (sm_lift (sent_or_error auth_reply)) (\<lambda>_. sm_return ()))) app"

text \<open>Here the branch of the channel is always enabled, and ready when the channel has ended.\<close>

fun udp_client_wait_enabled :: "tuic_udp_client \<Rightarrow> client_udp_write wait_event \<Rightarrow> bool" where
  "udp_client_wait_enabled app (WaitWrite (Some w)) =
     (if uc_outbound_rx app = [] then \<not> uc_rx_closed app else hd (uc_outbound_rx app) = w)"
| "udp_client_wait_enabled app (WaitWrite None) = (uc_outbound_rx app = [])"
| "udp_client_wait_enabled app (WaitHeartbeat now) = (uc_next_heartbeat app \<le> now)"

fun udp_client_wait_for_data :: "client_udp_write wait_event \<Rightarrow> tuic_udp_client \<Rightarrow> tuic_udp_client" where
  "udp_client_wait_for_data ev app =
     (if uc_pending_writes app \<noteq> [] then app
      else case ev of
        WaitWrite None \<Rightarrow> app\<lparr>uc_rx_closed := True\<rparr>
      | WaitWrite (Some w) \<Rightarrow>
          app\<lparr>uc_outbound_rx := tl (uc_outbound_rx app), uc_pending_writes := uc_pending_writes app @ [w]\<rparr>
      | WaitHeartbeat now \<Rightarrow>
          app\<lparr>uc_pending_writes := uc_pending_writes app @ [UdpHeartbeat],
              uc_next_heartbeat := now + HEARTBEAT_INTERVAL\<rparr>)"

definition is_packet :: "tuic_core \<Rightarrow> bytes \<Rightarrow> bool" where
  "is_packet core data \<longleftrightarrow>
     2 \<le> length data \<and> data ! 0 = core_VERSION core \<and> data ! 1 = TYPE_CODE_PACKET core"

fun udp_client_read_stream :: "tuic_core \<Rightarrow> instant \<Rightarrow> u64 \<times> stream_recv \<Rightarrow> (tuic_udp_client, unit) sm" where
  "udp_client_read_stream core now (stream_id, Received data fin) app =
     (let buffer = (case fmlookup (uc_stream_buffers app) stream_id of Some b \<Rightarrow> b | None \<Rightarrow> []) @ data in
      if fin then
        udp_client_handle_packet core now buffer
          (app\<lparr>uc_stream_buffers := fmdrop stream_id (uc_stream_buffers app)\<rparr>)
      else (Inr (), app\<lparr>uc_stream_buffers := fmupd stream_id buffer (uc_stream_buffers app)\<rparr>))"
| "udp_client_read_stream core now (stream_id, RecvDone) app = (Inr (), app)"
| "udp_client_read_stream core now (stream_id, RecvError e) app = (Inl e, app)"

definition udp_client_process_reads ::
    "tuic_core \<Rightarrow> instant \<Rightarrow> bytes list \<Rightarrow> (u64 \<times> stream_recv) list \<Rightarrow> (tuic_udp_client, unit) sm" where
  "udp_client_process_reads core now dgrams reads =
     sm_bind (sm_for (filter (is_packet core) dgrams) (udp_client_handle_packet core now)) (\<lambda>_.
     sm_for reads (udp_client_read_stream core now))"

fun udp_client_write_step :: "tuic_core \<Rightarrow> client_udp_write \<Rightarrow> quic_reply \<Rightarrow> (client_udp_write list \<times> bool) res" where
  "udp_client_write_step core (UdpPacket packet) reply =
     and_then (encode_packet core packet) (\<lambda>data.
     case reply of
       Accepted _ \<Rightarrow> Inr ([], True)
     | Done \<Rightarrow> Inr ([UdpPacket packet], False)
     | BufferTooShort limit \<Rightarrow>
         (case fragment_packet core packet limit of
            Inl _ \<Rightarrow> Inr ([], True)
          | Inr fragments \<Rightarrow> Inr (map UdpPacket fragments, True))
     | QuicError e \<Rightarrow> Inl e)"
| "udp_client_write_step core UdpHeartbeat reply =
     and_then (encode_heartbeat core) (\<lambda>heartbeat.
     case reply of
       Accepted _ \<Rightarrow> Inr ([], True)
     | Done \<Rightarrow> Inr ([UdpHeartbeat], False)
     | BufferTooShort _ \<Rightarrow> Inl IoError
     | QuicError e \<Rightarrow> Inl e)"

definition udp_client_process_writes ::
    "tuic_core \<Rightarrow> quic_reply list \<Rightarrow> tuic_udp_client \<Rightarrow> unit res option \<times> tuic_udp_client" where
  "udp_client_process_writes core replies app =
     (case queue_loop (udp_client_write_step core) replies (uc_pending_writes app @ uc_outbound_rx app) of
        (r, q) \<Rightarrow> (r, app\<lparr>uc_pending_writes := q, uc_outbound_rx := []\<rparr>))"

section \<open>Dialing\<close>

record tuic_outbound =
  to_cfg :: outbound_config
  to_uuid :: uuid
  to_password :: string

definition tuic_outbound_new :: "(string \<Rightarrow> uuid res) \<Rightarrow> outbound_config \<Rightarrow> tuic_outbound res" where
  "tuic_outbound_new parse_uuid cfg =
     and_then (require_server cfg) (\<lambda>_.
     and_then (ok_or (out_uuid cfg) (Bail ''tuic outbound requires uuid'')) (\<lambda>uuid.
     and_then (parse_uuid uuid) (\<lambda>uuid.
     and_then (ensure (case out_password cfg of None \<Rightarrow> False | Some password \<Rightarrow> password \<noteq> [])
       ''tuic outbound requires password'') (\<lambda>_.
     Inr \<lparr>to_cfg = cfg, to_uuid = uuid, to_password = the (out_password cfg)\<rparr>))))"

text \<open>
  The resolver, binding a socket to a local address, connecting it, handing it to QUIC, and the handshake
  with the name of the server, the settings and the certificate of the authority.
\<close>

record ('u, 'k) tuic_net =
  net_lookup_host :: "string \<Rightarrow> u16 \<Rightarrow> socket_addr list res"
  net_bind :: "string \<Rightarrow> 'u res"
  net_connect :: "'u \<Rightarrow> socket_addr \<Rightarrow> unit res"
  net_socket :: "'u \<Rightarrow> 'k res"
  net_defaults :: quic_settings
  net_handshake :: "'k \<Rightarrow> string \<Rightarrow> quic_settings \<Rightarrow> string option \<Rightarrow> unit res"

definition tuic_server_name :: "outbound_config \<Rightarrow> server_addr \<Rightarrow> string" where
  "tuic_server_name cfg server =
     (case out_server_name cfg of Some name \<Rightarrow> name | None \<Rightarrow> server_host_text server)"

definition tuic_open_socket :: "('u, 'k) tuic_net \<Rightarrow> server_addr \<Rightarrow> 'k res" where
  "tuic_open_socket net server =
     and_then (server_resolve (net_lookup_host net) server) (\<lambda>server_addr.
     and_then (net_bind net (if is_ipv4 server_addr then ''0.0.0.0:0'' else ''[::]:0'')) (\<lambda>socket.
     and_then (net_connect net socket server_addr) (\<lambda>_.
     net_socket net socket)))"

definition tuic_client_settings :: "('u, 'k) tuic_net \<Rightarrow> outbound_config \<Rightarrow> quic_settings" where
  "tuic_client_settings net cfg = (quic_settings_of (net_defaults net))\<lparr>verify_peer := \<not> insecure cfg\<rparr>"

definition tuic_connect :: "('u, 'k) tuic_net \<Rightarrow> outbound_config \<Rightarrow> unit res" where
  "tuic_connect net cfg =
     and_then (require_server cfg) (\<lambda>server.
     and_then (tuic_open_socket net server) (\<lambda>socket.
     case net_handshake net socket (tuic_server_name cfg server) (tuic_client_settings net cfg) (ca_certificate cfg) of
       Inl _ \<Rightarrow> Inl (Bail ''tuic outbound handshake failed'')
     | Inr _ \<Rightarrow> Inr ()))"

definition tuic_dial :: "('u, 'k) tuic_net \<Rightarrow> tuic_outbound \<Rightarrow> instant \<Rightarrow> session \<Rightarrow> tuic_client_app res" where
  "tuic_dial net outbound now session =
     and_then (ensure (sess_command session = Connect) ''tuic outbound only supports CONNECT'') (\<lambda>_.
     and_then (tuic_connect net (to_cfg outbound)) (\<lambda>_.
     Inr (tuic_client_app_new (to_uuid outbound) (to_password outbound) (sess_target session) now)))"

definition tuic_dial_udp ::
    "('u, 'k) tuic_net \<Rightarrow> tuic_outbound \<Rightarrow> instant \<Rightarrow> session \<Rightarrow> (tuic_udp_client \<times> tuic_udp_session) res" where
  "tuic_dial_udp net outbound now session =
     and_then (ensure (sess_command session = UdpAssociate) ''tuic udp outbound only supports UDP associate'') (\<lambda>_.
     and_then (tuic_connect net (to_cfg outbound)) (\<lambda>_.
     Inr (tuic_udp_client_new (to_uuid outbound) (to_password outbound) now,
       \<lparr>us_write_tx = [], us_write_closed = False, us_response_rx = [], us_response_closed = False, us_pkt_id = 1\<rparr>)))"

text \<open>
  The task that reads from the caller, given what each read returned and whether the channel took the
  data, and the task that writes to the caller, given the data and the results of writing them.
\<close>

fun app_reader :: "(bytes res \<times> bool) list \<Rightarrow> client_write list" where
  "app_reader [] = []"
| "app_reader ((Inl _, _) # _) = [ClientClose]"
| "app_reader ((Inr data, accepted) # rest) =
     (if data = [] then [ClientClose] else if accepted then ClientData data # app_reader rest else [])"

fun app_writer :: "(bytes \<times> unit res) list \<Rightarrow> bytes list" where
  "app_writer [] = []"
| "app_writer ((data, Inr _) # rest) = data # app_writer rest"
| "app_writer ((data, Inl _) # rest) = [data]"

interpretation tuic: dialer "tuic_dial net outbound now" "tuic_dial_udp net outbound now" for net outbound now
  by unfold_locales (auto simp: tuic_dial_def tuic_dial_udp_def ensure_def split: if_splits)

section \<open>The queues of both applications\<close>

datatype client_item = ConnectByte u8 | ConnectFin | ClientBeat | ClientPacket packet

fun client_items :: "client_write \<Rightarrow> client_item list" where
  "client_items (ClientData data) = map ConnectByte data"
| "client_items ClientHeartbeat = [ClientBeat]"
| "client_items ClientClose = [ConnectFin]"

fun client_took :: "client_write \<Rightarrow> quic_reply \<Rightarrow> client_item list" where
  "client_took (ClientData data) (Accepted n) = map ConnectByte (take n data)"
| "client_took ClientHeartbeat (Accepted _) = [ClientBeat]"
| "client_took ClientClose _ = [ConnectFin]"
| "client_took _ _ = []"

interpretation client_queue: write_queue "client_write_step core" client_items client_took "\<lambda>_. True" for core
proof
  fix w reply front go
  assume "client_write_step core w reply = Inr (front, go)"
  then show "client_items w = client_took w reply @ concat (map client_items front)"
    by (cases w; cases reply) (auto simp: and_then_Inr_iff simp flip: map_append split: if_splits)
qed

interpretation client_finite: finite_queue "client_write_step core" "\<lambda>_. True" "\<lambda>_ _. True" "\<lambda>_. 1" for core
proof
  fix w reply front
  assume "client_write_step core w reply = Inr (front, True)"
  then show "list_all (\<lambda>_. True) front \<and> sum_list (map (\<lambda>_. 1) front) < (1 :: nat)"
    by (cases w; cases reply) (auto simp: and_then_Inr_iff split: if_splits)
qed simp

fun udp_items :: "client_udp_write \<Rightarrow> client_item list" where
  "udp_items (UdpPacket packet) = [ClientPacket packet]"
| "udp_items UdpHeartbeat = [ClientBeat]"

fun udp_took :: "client_udp_write \<Rightarrow> quic_reply \<Rightarrow> client_item list" where
  "udp_took w (Accepted _) = udp_items w"
| "udp_took w _ = []"

interpretation udp_queue: write_queue "udp_client_write_step core" udp_items udp_took "\<lambda>r. \<not> too_short r" for core
proof
  fix w reply front go
  assume "udp_client_write_step core w reply = Inr (front, go)" "\<not> too_short reply"
  then show "udp_items w = udp_took w reply @ concat (map udp_items front)"
    by (cases w; cases reply) (auto simp: and_then_Inr_iff)
qed

text \<open>The datagram queue is worked off, although packets that are too long are split.\<close>

fun udp_sane :: "tuic_core \<Rightarrow> client_udp_write \<Rightarrow> bool" where
  "udp_sane core (UdpPacket packet) = (tuic_v5 core \<and> packet_valid packet)"
| "udp_sane core UdpHeartbeat = True"

fun udp_permits :: "tuic_core \<Rightarrow> client_udp_write \<Rightarrow> quic_reply \<Rightarrow> bool" where
  "udp_permits core (UdpPacket packet) (BufferTooShort limit) =
     (case encode_packet core packet of Inl _ \<Rightarrow> True | Inr data \<Rightarrow> limit < length data)"
| "udp_permits core _ _ = True"

fun udp_size :: "client_udp_write \<Rightarrow> nat" where
  "udp_size (UdpPacket packet) = packet_weight packet"
| "udp_size UdpHeartbeat = 1"

interpretation udp_finite: finite_queue "udp_client_write_step core" "udp_sane core" "udp_permits core" udp_size for core
proof
  fix w show "0 < udp_size w" by (cases w) (simp_all add: packet_weight_def)
next
  fix w reply front
  assume a: "udp_sane core w" "udp_permits core w reply" "udp_client_write_step core w reply = Inr (front, True)"
  show "list_all (udp_sane core) front \<and> sum_list (map udp_size front) < udp_size w"
  proof (cases w)
    case (UdpPacket packet)
    then obtain data where d: "encode_packet core packet = Inr data" using a(3) by (auto simp: and_then_Inr_iff)
    show ?thesis
    proof (cases reply)
      case (BufferTooShort limit)
      show ?thesis
      proof (cases "fragment_packet core packet limit")
        case (Inr fs)
        have "tuic_v5 core" "packet_valid packet" "limit < length data" using a d UdpPacket BufferTooShort by auto
        from split_packet [OF this(1,2) d this(3) Inr]
        have "pk_frag_total packet = 1" "length fs \<le> 255"
            "list_all (\<lambda>f. packet_valid f \<and> packet_weight f = 1) fs"
          by (auto simp: fragments_of_def list_all_iff)
        moreover from this(3) have "sum_list (map (udp_size \<circ> UdpPacket) fs) = length fs" by (induction fs) simp_all
        ultimately show ?thesis
          using a UdpPacket BufferTooShort d Inr by (auto simp: packet_weight_def list_all_iff)
      qed (use a UdpPacket BufferTooShort d in \<open>simp add: packet_weight_def\<close>)
    qed (use a UdpPacket d in \<open>simp_all add: packet_weight_def split: if_splits\<close>)
  next
    case UdpHeartbeat
    then show ?thesis using a by (cases reply) (auto simp: and_then_Inr_iff)
  qed
qed


text \<open>
  Once a datagram session is gone its application never rests: the closed channel is ready at once, every time, and
  the wait ends without any change. The application of a stream does not wait for a closed channel.
\<close>

lemma tuic_udp_wait_spins:
  assumes "uc_outbound_rx app = []" "uc_rx_closed app" "uc_pending_writes app = []"
  shows "udp_client_wait_enabled app (WaitWrite None)" "udp_client_wait_for_data (WaitWrite None) app = app"
  using assms by simp_all

lemma tuic_stream_wait_rests:
  assumes "ca_outbound_rx app = []" "ca_rx_closed app" "client_wait_enabled app ev"
  shows "\<exists>now. ev = WaitHeartbeat now \<and> ca_next_heartbeat app \<le> now"
  using assms by (cases "(app, ev)" rule: client_wait_enabled.cases) auto

lemma queue_lawful_all: "(\<And>w reply. reply \<in> set replies \<Longrightarrow> permits w reply) \<Longrightarrow> queue_lawful step permits replies q"
  by (induction replies arbitrary: q) (auto split: list.split sum.split bool.split)

lemma udp_permits_accepted: "udp_permits core w (Accepted n)"
  by (cases w) simp_all


end
