(* ===== verification/Tuic_Tunnel.thy ===== *)
theory Tuic_Tunnel
  imports Tuic_Outbound
begin

text \<open>
  The TUIC outbound and inbound together. A client that authenticates and opens its stream reaches a
  server that reads the two streams in any pieces and order, and its data arrive at one relay.
\<close>

section \<open>What the client sends\<close>

text \<open>
  A run of the client: its reader task sends a write into the channel, it waits, or it works off the
  queue. The log is what QUIC took; a step that is not possible or does not return gives no result.
\<close>

datatype client_action = OpSend client_write | OpWait "client_write wait_event" | OpWrites "quic_reply list"

abbreviation client_queued :: "tuic_client_app \<Rightarrow> client_write list" where
  "client_queued app \<equiv> ca_pending_writes app @ ca_outbound_rx app"

fun client_op :: "tuic_core \<Rightarrow> client_action \<Rightarrow> tuic_client_app \<Rightarrow> (client_item list \<times> tuic_client_app) option" where
  "client_op core (OpSend w) app = Some ([], app\<lparr>ca_outbound_rx := ca_outbound_rx app @ [w]\<rparr>)"
| "client_op core (OpWait ev) app =
     (if client_wait_enabled app ev \<and> (case ev of WaitWrite (Some _) \<Rightarrow> ca_outbound_rx app \<noteq> [] | _ \<Rightarrow> True)
      then Some ([], client_wait_for_data ev app) else None)"
| "client_op core (OpWrites replies) app =
     (case client_process_writes core replies app of
        (Some (Inr _), app') \<Rightarrow>
          Some (queue_log (client_write_step core) client_took replies (client_queued app), app')
      | _ \<Rightarrow> None)"

fun client_run :: "tuic_core \<Rightarrow> client_action list \<Rightarrow> tuic_client_app \<Rightarrow> (client_item list \<times> tuic_client_app) option" where
  "client_run core [] app = Some ([], app)"
| "client_run core (op # ops) app =
     (case client_op core op app of
        None \<Rightarrow> None
      | Some (log, app) \<Rightarrow> map_option (\<lambda>(rest, app). (log @ rest, app)) (client_run core ops app))"

fun connect_bytes :: "client_item list \<Rightarrow> bytes" where
  "connect_bytes [] = []"
| "connect_bytes (ConnectByte b # is) = b # connect_bytes is"
| "connect_bytes (_ # is) = connect_bytes is"

abbreviation queued_bytes :: "client_write list \<Rightarrow> bytes" where
  "queued_bytes q \<equiv> connect_bytes (concat (map client_items q))"

fun sent_data :: "client_action list \<Rightarrow> bytes" where
  "sent_data [] = []"
| "sent_data (OpSend (ClientData data) # ops) = data @ sent_data ops"
| "sent_data (_ # ops) = sent_data ops"

lemma connect_bytes_append [simp]: "connect_bytes (a @ b) = connect_bytes a @ connect_bytes b"
  by (induction a rule: connect_bytes.induct) simp_all

lemma connect_bytes_map [simp]: "connect_bytes (map ConnectByte data) = data"
  by (induction data) simp_all

lemma client_op_bytes:
  assumes "client_op core op app = Some (log, app')"
  shows "connect_bytes log @ queued_bytes (client_queued app') = queued_bytes (client_queued app) @ sent_data [op]"
proof (cases op)
  case (OpSend w)
  with assms show ?thesis by (cases w) auto
next
  case (OpWait ev)
  show ?thesis
  proof (cases ev)
    case (WaitWrite w)
    with assms OpWait show ?thesis by (cases w; cases "ca_outbound_rx app") (auto split: if_splits)
  qed (use assms OpWait in \<open>auto split: if_splits\<close>)
next
  case (OpWrites replies)
  obtain r q where r: "queue_loop (client_write_step core) replies (client_queued app) = (r, q)" by fastforce
  have q: "queue_loop (client_write_step core) replies (client_queued app) = (Some (Inr ()), q)"
      "log = queue_log (client_write_step core) client_took replies (client_queued app)"
      "client_queued app' = q"
    using assms OpWrites r by (auto simp: client_process_writes_def split: option.split_asm sum.split_asm)
  from client_queue.loop_fifo [OF q(1)] have "concat (map client_items (client_queued app)) = log @ concat (map client_items q)"
    by (simp add: q(2) list_all_iff)
  from arg_cong [OF this, of connect_bytes] show ?thesis unfolding q(3) using OpWrites by simp
qed

lemma client_run_bytes:
  "client_run core ops app = Some (log, app') \<Longrightarrow>
    connect_bytes log @ queued_bytes (client_queued app') = queued_bytes (client_queued app) @ sent_data ops"
proof (induction ops arbitrary: app log)
  case (Cons op ops)
  then obtain log1 app1 log2 where r: "client_op core op app = Some (log1, app1)"
      "client_run core ops app1 = Some (log2, app')" "log = log1 @ log2"
    by (auto split: option.splits prod.splits)
  have "sent_data (op # ops) = sent_data [op] @ sent_data ops" by (cases op rule: sent_data.cases [of "[_]"]) auto
  with client_op_bytes [OF r(1)] Cons(1) [OF r(2)] r(3) show ?case by simp
qed simp

text \<open>What QUIC took of the connect header when the connection was established.\<close>

fun taken_at_start :: "bytes \<Rightarrow> quic_reply \<Rightarrow> bytes" where
  "taken_at_start connect (Accepted n) = take n connect"
| "taken_at_start connect _ = []"

lemma client_established_bytes:
  assumes "client_established env auth_reply reply app = (Inr (), app')" "client_queued app = []"
  shows "\<exists>tok auth connect. token (env_exporter env) (ca_uuid app) (as_bytes (ca_password app)) = Inr tok \<and>
    encode_authenticate (env_core env) (ca_uuid app) tok = Inr auth \<and>
    encode_connect (env_core env) (ca_target app) [] = Inr connect \<and>
    taken_at_start connect reply @ queued_bytes (client_queued app') = connect"
proof -
  obtain tok auth connect where c: "token (env_exporter env) (ca_uuid app) (as_bytes (ca_password app)) = Inr tok"
      "encode_authenticate (env_core env) (ca_uuid app) tok = Inr auth"
      "encode_connect (env_core env) (ca_target app) [] = Inr connect"
      "send_all_or_queue connect False reply app = (Inr (), app')"
    using assms(1) by (auto simp: client_established_def sm_bind_Inr_iff sm_lift_Inr)
  then have "taken_at_start connect reply @ queued_bytes (client_queued app') = connect"
    using assms(2) by (cases reply) (auto simp: send_all_or_queue_def split: if_splits)
  with c show ?thesis by blast
qed

section \<open>What the server makes of it\<close>

text \<open>\<open>HashMap::into_iter\<close> lists every entry once.\<close>

definition lists_map :: "((u64, pending_stream) fmap \<Rightarrow> (u64 \<times> pending_stream) list) \<Rightarrow> bool" where
  "lists_map it \<longleftrightarrow> (\<forall>m. distinct (map fst (it m)) \<and> map_of (it m) = fmlookup m)"

lemma lists_single:
  assumes "lists_map it" "fmdom m |\<subseteq>| {|k|}"
  shows "it m = (case fmlookup m k of None \<Rightarrow> [] | Some v \<Rightarrow> [(k, v)])"
proof -
  have it: "distinct (map fst (it m))" "map_of (it m) = fmlookup m" using assms(1) by (simp_all add: lists_map_def)
  have keys: "fst ` set (it m) = fset (fmdom m)" using it(2) dom_map_of_conv_image_fst [of "it m"] by (simp add: fmdom'_alt_def)
  show ?thesis
  proof (cases "it m")
    case Nil
    with it(2) show ?thesis by (simp add: fun_eq_iff split: option.split)
  next
    case (Cons e es)
    have "fst e = k" using keys assms(2) Cons by (auto simp: less_eq_fset.rep_eq)
    moreover have "es = []"
    proof (cases es)
      case (Cons f fs)
      have "fst f = k" using keys assms(2) \<open>it m = e # es\<close> Cons by (auto simp: less_eq_fset.rep_eq)
      with \<open>fst e = k\<close> it(1) \<open>it m = e # es\<close> Cons show ?thesis by simp
    qed
    moreover have "fmlookup m k = Some (snd e)" using it(2) Cons \<open>fst e = k\<close> by (cases e) (metis fst_conv map_of_Cons_code(2) snd_conv)
    ultimately show ?thesis using Cons by (cases e) simp
  qed
qed

text \<open>
  The stream of the client on the server after authentication, when \<open>d\<close> has arrived of it in at most
  \<open>k\<close> reads: it waits for the rest of a header of length \<open>n\<close>, or its relay has been started.
\<close>

definition stream_open :: "session \<Rightarrow> nat \<Rightarrow> nat \<Rightarrow> bytes \<Rightarrow> tuic_app \<Rightarrow> bool" where
  "stream_open session n k d app \<longleftrightarrow>
     (if length d < n then
        app_relays app = [] \<and> fmlookup (app_streams app) 0 = None \<and>
        (case fmlookup (pending_streams app) 0 of None \<Rightarrow> d = [] | Some p \<Rightarrow> p = \<lparr>ps_data = d, ps_fin = False\<rparr>)
      else
        \<exists>initial ch. app_relays app = [(0, session, initial)] \<and>
          fmlookup (app_streams app) 0 = Some \<lparr>client_tx = ch\<rparr> \<and> initial @ concat (ch_queue ch) = drop n d \<and>
          \<not> ch_closed ch \<and> ch_capacity ch = CHANNEL_CAPACITY \<and> length (ch_queue ch) \<le> k)"

lemma stream_data_open:
  assumes "authenticated app" "stream_open session n k d app" "k < CHANNEL_CAPACITY"
    and "session = \<lparr>sess_inbound = app_inbound app, sess_command = Connect, sess_target = target\<rparr>"
    and "\<And>j. try_parse_connect (env_core env) (take j s) = Inr (if j < n then None else Some (target, n))"
    and "d @ data = take j s"
  shows "\<exists>app'. handle_stream_data env now 0 data False app = (Inr (), app') \<and> stream_open session n (Suc k) (d @ data) app' \<and>
    app' = app\<lparr>pending_streams := pending_streams app', app_streams := app_streams app', app_relays := app_relays app'\<rparr>"
proof (cases "length d < n")
  case True
  have "try_parse_connect (env_core env) (d @ data) = Inr (if length (d @ data) < n then None else Some (target, n))"
    using assms(5) [of "length (d @ data)"] assms(6) by (metis min.idem take_take length_take append_take_drop_id take_all_iff min_def nle_le)
  with True assms(1,2,4) show ?thesis
    by (cases "length (d @ data) < n")
      (auto simp: stream_open_def handle_stream_data_def Let_def ch_new_def split: option.splits)
next
  case False
  then obtain initial ch where o: "app_relays app = [(0, session, initial)]" "fmlookup (app_streams app) 0 = Some \<lparr>client_tx = ch\<rparr>"
      "initial @ concat (ch_queue ch) = drop n d" "\<not> ch_closed ch" "ch_capacity ch = CHANNEL_CAPACITY" "length (ch_queue ch) \<le> k"
    using assms(2) by (auto simp: stream_open_def)
  with False assms(1,3) show ?thesis
    by (cases "data = []") (auto simp: stream_open_def handle_stream_data_def try_send_def)
qed

text \<open>
  What the streams of the client carry: \<open>auth\<close> lets the server accept \<open>user\<close>, and \<open>s\<close> starts
  with a header of length \<open>n\<close> for \<open>target\<close>.
\<close>

definition tunnel :: "tuic_env \<Rightarrow> tuic_user list \<Rightarrow> tuic_user \<Rightarrow> bytes \<Rightarrow> bytes \<Rightarrow> target_addr \<Rightarrow> nat \<Rightarrow> bool" where
  "tunnel env users user auth s target n \<longleftrightarrow>
     lists_map (env_into_iter env) \<and> length auth = AUTHENTICATE_LEN \<and>
     auth ! 1 = TYPE_CODE_AUTHENTICATE (env_core env) \<and>
     (\<forall>app now. app_users app = users \<longrightarrow> authenticated app \<or> now < authentication_deadline app \<longrightarrow>
        check_credentials env now auth app = (Inr user, app)) \<and>
     (\<forall>j. try_parse_connect (env_core env) (take j s) = Inr (if j < n then None else Some (target, n)))"

abbreviation server_session :: "tuic_app \<Rightarrow> target_addr \<Rightarrow> session" where
  "server_session app target \<equiv> \<lparr>sess_inbound = app_inbound app, sess_command = Connect, sess_target = target\<rparr>"

text \<open>
  The server while it waits for the authentication, after \<open>a\<close> of it and \<open>d\<close> of the other stream have
  arrived, and after it, where \<open>f\<close> tells whether the stream of the authentication has ended.
\<close>

definition waits :: "bytes \<Rightarrow> tuic_app \<Rightarrow> bool" where
  "waits d app \<longleftrightarrow>
     pending_uni_commands app = [] \<and> pending_datagrams app = [] \<and> fmdom (pending_streams app) |\<subseteq>| {|0|} \<and>
     (case fmlookup (pending_streams app) 0 of None \<Rightarrow> d = [] | Some p \<Rightarrow> p = \<lparr>ps_data = d, ps_fin = False\<rparr>) \<and>
     fmlookup (app_streams app) 0 = None \<and> app_relays app = []"

definition before_auth :: "bytes \<Rightarrow> bytes \<Rightarrow> tuic_app \<Rightarrow> bool" where
  "before_auth a d app \<longleftrightarrow>
     \<not> authenticated app \<and> waits d app \<and>
     (case fmlookup (uni_streams app) 2 of None \<Rightarrow> a = [] | Some state \<Rightarrow> state = Receiving a) \<and>
     pre_auth_bytes app = length a + length d \<and>
     pre_auth_items app \<le> (if fmlookup (uni_streams app) 2 = None then 0 else 1) +
       (if fmlookup (pending_streams app) 0 = None then 0 else 1)"

definition after_auth :: "tuic_user \<Rightarrow> target_addr \<Rightarrow> nat \<Rightarrow> nat \<Rightarrow> bool \<Rightarrow> bytes \<Rightarrow> tuic_app \<Rightarrow> bool" where
  "after_auth user target n k f d app \<longleftrightarrow>
     authenticated app \<and> app_username app = Some (tu_name user) \<and>
     (f \<or> fmlookup (uni_streams app) 2 = Some Authenticated) \<and>
     stream_open (server_session app target) n k d app"

lemma reserve_ok:
  "\<not> authenticated app \<Longrightarrow> now < authentication_deadline app \<Longrightarrow> pre_auth_bytes app + b \<le> MAX_PRE_AUTH_BYTES \<Longrightarrow>
    pre_auth_items app + i \<le> MAX_PRE_AUTH_ITEMS \<Longrightarrow>
    reserve_pre_auth now b i app =
      (Inr (), app\<lparr>pre_auth_bytes := pre_auth_bytes app + b, pre_auth_items := pre_auth_items app + i\<rparr>)"
  by (auto simp: reserve_pre_auth_def sm_bind_def check_authentication_deadline_def)

lemma stream_data_before:
  assumes "before_auth a d app" "now < authentication_deadline app" "length a + length d + length data \<le> MAX_PRE_AUTH_BYTES"
  shows "\<exists>app'. handle_stream_data env now 0 data False app = (Inr (), app') \<and> before_auth a (d @ data) app' \<and>
    app' = app\<lparr>pre_auth_bytes := pre_auth_bytes app', pre_auth_items := pre_auth_items app', pending_streams := pending_streams app'\<rparr>"
proof -
  let ?i = "if fmlookup (pending_streams app) 0 = None then 1 else 0 :: nat"
  have "pre_auth_items app + ?i \<le> 2" using assms(1) by (auto simp: before_auth_def split: if_splits)
  then have "reserve_pre_auth now (length data) ?i app =
      (Inr (), app\<lparr>pre_auth_bytes := pre_auth_bytes app + length data, pre_auth_items := pre_auth_items app + ?i\<rparr>)"
    using assms by (intro reserve_ok) (auto simp: before_auth_def MAX_PRE_AUTH_ITEMS_def)
  with assms(1) show ?thesis
    by (auto simp: before_auth_def waits_def handle_stream_data_def sm_bind_def Let_def split: option.splits if_splits)
qed

lemma authenticate_opens:
  assumes "tunnel env users user auth s target n" "app_users app = users" "waits d app"
    and "now < authentication_deadline app" "d = take j s" "0 < n"
  shows "\<exists>app'. handle_unidirectional_command env now auth (app\<lparr>uni_streams := u\<rparr>) = (Inr (), app') \<and>
    authenticated app' \<and> app_username app' = Some (tu_name user) \<and> uni_streams app' = u \<and> app_inbound app' = app_inbound app \<and>
    app_users app' = users \<and> stream_open (server_session app target) n 1 d app'"
proof -
  let ?s = "app\<lparr>uni_streams := u\<rparr>"
  let ?t = "(admit user ?s)\<lparr>pending_uni_commands := [], pending_datagrams := [], pending_streams := fmempty\<rparr>"
  have cred: "check_credentials env now auth ?s = (Inr user, ?s)" and parse:
      "\<And>j. try_parse_connect (env_core env) (take j s) = Inr (if j < n then None else Some (target, n))"
    using assms(1,2,4) by (auto simp: tunnel_def)
  have b: "pending_uni_commands app = []" "pending_datagrams app = []" "fmdom (pending_streams app) |\<subseteq>| {|0|}"
    using assms(3) by (simp_all add: waits_def)
  have "handle_unidirectional_command env now auth ?s =
      sm_for (filter (\<lambda>(_, p). ps_data p \<noteq> []) (env_into_iter env (pending_streams app)))
        (\<lambda>(i, p). handle_stream_data env now i (ps_data p) (ps_fin p)) ?t"
    using assms(1) b cred
    by (simp add: handle_unidirectional_command_def handle_unidirectional_command_with_def tunnel_def AUTHENTICATE_LEN_def
        handle_auth_data_unfold auth_with_Inr replay_waiting_def admit_def sm_bind_def sm_return_def)
  moreover have "filter (\<lambda>(_, p). ps_data p \<noteq> []) (env_into_iter env (pending_streams app)) =
      (if d = [] then [] else [(0, \<lparr>ps_data = d, ps_fin = False\<rparr>)])"
    using lists_single [OF _ b(3), of "env_into_iter env"] assms(1,3)
    by (auto simp: tunnel_def waits_def split: option.splits)
  ultimately have run: "handle_unidirectional_command env now auth ?s =
      (if d = [] then (Inr (), ?t) else handle_stream_data env now 0 d False ?t)"
    by (simp add: sm_return_def sm_bind_def split: prod.split sum.split)
  have t: "authenticated ?t" "app_username ?t = Some (tu_name user)" "uni_streams ?t = u"
      "app_inbound ?t = app_inbound app" "app_users ?t = users" using assms(2) by (simp_all add: admit_def)
  have "stream_open (server_session app target) n 0 [] ?t"
    using assms(3,6) by (simp add: stream_open_def waits_def admit_def)
  from stream_data_open [OF t(1) this _ _ parse, where j = j and data = d and now = now] t(4) assms(5)
  obtain app' where app': "handle_stream_data env now 0 d False ?t = (Inr (), app')" "stream_open (server_session app target) n 1 d app'"
      "app' = ?t\<lparr>pending_streams := pending_streams app', app_streams := app_streams app', app_relays := app_relays app'\<rparr>"
    by (auto simp: CHANNEL_CAPACITY_def)
  have "stream_open (server_session app target) n 1 [] ?t"
    using assms(3,6) by (simp add: stream_open_def waits_def admit_def)
  moreover have "authenticated app'" "app_username app' = Some (tu_name user)" "uni_streams app' = u"
      "app_inbound app' = app_inbound app" "app_users app' = users"
    using t by (subst app'(3), simp)+
  ultimately show ?thesis using run t app'(1,2) by (cases "d = []") auto
qed

lemma stream_open_mono: "stream_open session n k d app \<Longrightarrow> k \<le> k' \<Longrightarrow> stream_open session n k' d app"
  by (auto simp: stream_open_def split: if_splits)

lemma uni_stream_before:
  assumes "tunnel env users user auth s target n" "app_users app = users" "before_auth a d app"
    and "now < authentication_deadline app" "d = take j s" "0 < n"
    and "length a + length data + length d \<le> MAX_PRE_AUTH_BYTES" "length a < length auth"
    and "\<exists>rest. a @ data @ rest = auth" "fin \<longrightarrow> a @ data = auth"
  shows "\<exists>app'. handle_unidirectional_stream env now 2 data fin app = (Inr (), app') \<and>
    app_users app' = users \<and> app_inbound app' = app_inbound app \<and>
    (if length (a @ data) < length auth
     then before_auth (a @ data) d app' \<and> authentication_deadline app' = authentication_deadline app
     else after_auth user target n 1 fin d app')"
proof -
  let ?i = "if fmlookup (uni_streams app) 2 = None then 1 else 0 :: nat"
  let ?r = "app\<lparr>pre_auth_bytes := pre_auth_bytes app + length data, pre_auth_items := pre_auth_items app + ?i\<rparr>"
  have auth: "length auth = AUTHENTICATE_LEN" "auth ! 1 = TYPE_CODE_AUTHENTICATE (env_core env)"
    using assms(1) by (simp_all add: tunnel_def)
  have "pre_auth_items app + ?i \<le> 2" using assms(3) by (auto simp: before_auth_def split: if_splits)
  then have reserve: "reserve_pre_auth now (length data) ?i app = (Inr (), ?r)"
    using assms by (intro reserve_ok) (auto simp: before_auth_def MAX_PRE_AUTH_ITEMS_def)
  have state: "(case fmlookup (uni_streams ?r) 2 of Some st \<Rightarrow> st | None \<Rightarrow> Receiving []) = Receiving a"
    using assms(3) by (auto simp: before_auth_def split: option.splits)
  show ?thesis
  proof (cases "length (a @ data) < length auth")
    case True
    then have "handle_unidirectional_stream env now 2 data fin app =
        (Inr (), ?r\<lparr>uni_streams := fmupd 2 (Receiving (a @ data)) (uni_streams app)\<rparr>)"
      using reserve state auth(1) assms(10) by (auto simp: handle_unidirectional_stream_def sm_bind_def)
    moreover have "before_auth (a @ data) d (?r\<lparr>uni_streams := fmupd 2 (Receiving (a @ data)) (uni_streams app)\<rparr>)"
      using assms(3) by (auto simp: before_auth_def waits_def split: option.splits if_splits)
    ultimately show ?thesis using True assms(2) by simp
  next
    case False
    then have eq: "a @ data = auth" using assms(9) by auto
    let ?u = "if fin then fmdrop 2 (uni_streams app) else fmupd 2 Authenticated (uni_streams app)"
    have run: "handle_unidirectional_stream env now 2 data fin app = handle_unidirectional_command env now auth (?r\<lparr>uni_streams := ?u\<rparr>)"
      using reserve state auth eq by (auto simp: handle_unidirectional_stream_def sm_bind_def)
    have "waits d ?r" using assms(3) by (simp add: before_auth_def waits_def)
    from authenticate_opens [OF assms(1) _ this _ assms(5,6), of now ?u] assms(2,4) run False eq
    show ?thesis by (auto simp: after_auth_def)
  qed
qed

lemma uni_stream_after:
  assumes "after_auth user target n k False d app"
  shows "\<exists>app'. handle_unidirectional_stream env now 2 [] fin app = (Inr (), app') \<and>
    app_users app' = app_users app \<and> app_inbound app' = app_inbound app \<and> after_auth user target n k fin d app'"
  using assms
  by (auto simp: after_auth_def handle_unidirectional_stream_def sm_bind_def reserve_pre_auth_def check_authentication_deadline_def
      stream_open_def)

section \<open>Reading in any pieces\<close>

fun stream_bytes :: "u64 \<Rightarrow> (u64 \<times> stream_recv) list \<Rightarrow> bytes" where
  "stream_bytes sid [] = []"
| "stream_bytes sid ((i, Received data fin) # reads) = (if i = sid then data else []) @ stream_bytes sid reads"
| "stream_bytes sid (_ # reads) = stream_bytes sid reads"

fun reads_on :: "u64 \<Rightarrow> (u64 \<times> stream_recv) list \<Rightarrow> nat" where
  "reads_on sid [] = 0"
| "reads_on sid ((i, Received data fin) # reads) = (if i = sid then 1 else 0) + reads_on sid reads"
| "reads_on sid (_ # reads) = reads_on sid reads"

text \<open>
  Reads of the two streams of a client: stream 0 stays open, and on stream 2, which has ended when \<open>f\<close>
  holds, nothing follows its end.
\<close>

fun client_reads :: "bool \<Rightarrow> (u64 \<times> stream_recv) list \<Rightarrow> bool" where
  "client_reads f [] = True"
| "client_reads f ((i, Received data fin) # reads) =
     (if i = 2 then \<not> f \<and> client_reads fin reads else i = 0 \<and> \<not> fin \<and> client_reads f reads)"
| "client_reads f ((i, RecvDone) # reads) = client_reads f reads"
| "client_reads f ((i, RecvError _) # reads) = False"

lemma client_reads_ended: "client_reads True reads \<Longrightarrow> stream_bytes 2 reads = []"
  by (induction True reads rule: client_reads.induct) (auto split: if_splits)

definition tunnel_state ::
    "tuic_user \<Rightarrow> bytes \<Rightarrow> target_addr \<Rightarrow> nat \<Rightarrow> instant \<Rightarrow> nat \<Rightarrow> bytes \<Rightarrow> bool \<Rightarrow> bytes \<Rightarrow> tuic_app \<Rightarrow> bool" where
  "tunnel_state user auth target n deadline k a f d app \<longleftrightarrow>
     (if length a < length auth
      then \<not> f \<and> before_auth a d app \<and> authentication_deadline app = deadline
      else after_auth user target n (Suc k) f d app)"

text \<open>Before the reads \<open>reads\<close>, which are all that is left of \<open>auth\<close> and of \<open>sent\<close>.\<close>

definition tunnel_inv ::
    "tuic_user list \<Rightarrow> string \<Rightarrow> tuic_user \<Rightarrow> bytes \<Rightarrow> bytes \<Rightarrow> target_addr \<Rightarrow> nat \<Rightarrow> instant \<Rightarrow>
     (u64 \<times> stream_recv) list \<Rightarrow> tuic_app \<Rightarrow> bool" where
  "tunnel_inv users inbound user auth sent target n deadline reads app \<longleftrightarrow>
     app_users app = users \<and> app_inbound app = inbound \<and>
     (\<exists>k a f d. tunnel_state user auth target n deadline k a f d app \<and> client_reads f reads \<and>
        a @ stream_bytes 2 reads = auth \<and> d @ stream_bytes 0 reads = sent \<and>
        Suc k + reads_on 0 reads \<le> CHANNEL_CAPACITY)"

lemma tunnel_uni_step:
  assumes "tunnel env users user auth s target n" "0 < n" "app_users app = users" "d = take j s"
    and "length auth + length d \<le> MAX_PRE_AUTH_BYTES" "now < deadline"
    and "tunnel_state user auth target n deadline k a False d app"
    and "a @ data @ rest = auth" "fin \<longrightarrow> rest = []"
  shows "\<exists>app'. handle_unidirectional_stream env now 2 data fin app = (Inr (), app') \<and> app_users app' = users \<and>
    app_inbound app' = app_inbound app \<and> tunnel_state user auth target n deadline k (a @ data) fin d app'"
proof (cases "length a < length auth")
  case True
  then have b: "before_auth a d app" "now < authentication_deadline app" using assms(6,7) by (simp_all add: tunnel_state_def)
  have len: "length a + length data + length d \<le> MAX_PRE_AUTH_BYTES" using assms(5,8) by auto
  have parts: "\<exists>rest. a @ data @ rest = auth" "fin \<longrightarrow> a @ data = auth" using assms(8,9) by auto
  from uni_stream_before [OF assms(1,3) b assms(4,2) len True parts]
  obtain app' where app': "handle_unidirectional_stream env now 2 data fin app = (Inr (), app')" "app_users app' = users"
      "app_inbound app' = app_inbound app"
      "if length (a @ data) < length auth
       then before_auth (a @ data) d app' \<and> authentication_deadline app' = authentication_deadline app
       else after_auth user target n 1 fin d app'" by blast
  have "tunnel_state user auth target n deadline k (a @ data) fin d app'"
    using app'(4) parts(2) True assms(7) stream_open_mono [of _ n 1 d app' "Suc k"]
    by (auto simp: tunnel_state_def after_auth_def split: if_splits)
  with app'(1-3) show ?thesis by blast
next
  case False
  with assms(8) have "data = []" by auto
  moreover have "after_auth user target n (Suc k) False d app" using False assms(7) by (simp add: tunnel_state_def)
  from uni_stream_after [OF this, of env now fin] False assms(3) have "\<exists>app'. handle_unidirectional_stream env now 2 [] fin app = (Inr (), app') \<and> app_users app' = users \<and>
    app_inbound app' = app_inbound app \<and> tunnel_state user auth target n deadline k a fin d app'"
    by (auto simp: tunnel_state_def)
  ultimately show ?thesis by simp
qed

lemma tunnel_stream_step:
  assumes "tunnel env users user auth s target n" "d @ data = take j s"
    and "length auth + length (d @ data) \<le> MAX_PRE_AUTH_BYTES" "now < deadline" "Suc k < CHANNEL_CAPACITY"
    and "tunnel_state user auth target n deadline k a f d app"
  shows "\<exists>app'. handle_stream_data env now 0 data False app = (Inr (), app') \<and> app_users app' = app_users app \<and>
    app_inbound app' = app_inbound app \<and> tunnel_state user auth target n deadline (Suc k) a f (d @ data) app'"
proof (cases "length a < length auth")
  case True
  then have b: "before_auth a d app" "now < authentication_deadline app" using assms(4,6) by (simp_all add: tunnel_state_def)
  have "length a + length d + length data \<le> MAX_PRE_AUTH_BYTES" using True assms(3) by simp
  from stream_data_before [OF b this, of env] obtain app' where app':
      "handle_stream_data env now 0 data False app = (Inr (), app')" "before_auth a (d @ data) app'"
      "app' = app\<lparr>pre_auth_bytes := pre_auth_bytes app', pre_auth_items := pre_auth_items app', pending_streams := pending_streams app'\<rparr>"
    by blast
  have "app_users app' = app_users app" "app_inbound app' = app_inbound app"
      "authentication_deadline app' = authentication_deadline app" by (subst app'(3), simp)+
  with app'(1,2) True assms(6) show ?thesis by (simp add: tunnel_state_def)
next
  case False
  then have a: "after_auth user target n (Suc k) f d app" using assms(6) by (simp add: tunnel_state_def)
  have parse: "\<And>j. try_parse_connect (env_core env) (take j s) = Inr (if j < n then None else Some (target, n))"
    using assms(1) by (simp add: tunnel_def)
  have "authenticated app" "stream_open (server_session app target) n (Suc k) d app" using a by (simp_all add: after_auth_def)
  from stream_data_open [OF this assms(5) refl parse assms(2), of now] obtain app' where app':
      "handle_stream_data env now 0 data False app = (Inr (), app')"
      "stream_open (server_session app target) n (Suc (Suc k)) (d @ data) app'"
      "app' = app\<lparr>pending_streams := pending_streams app', app_streams := app_streams app', app_relays := app_relays app'\<rparr>"
    by blast
  have "app_users app' = app_users app" "app_inbound app' = app_inbound app" "authenticated app' = authenticated app"
      "app_username app' = app_username app" "uni_streams app' = uni_streams app" by (subst app'(3), simp)+
  with app'(1,2) False a show ?thesis by (simp add: tunnel_state_def after_auth_def)
qed

lemma tunnel_step:
  assumes "tunnel env users user auth s target n" "0 < n" "sent = take j s"
    and "length auth + length sent \<le> MAX_PRE_AUTH_BYTES" "now < deadline"
    and "tunnel_inv users inbound user auth sent target n deadline (read # reads) app"
  shows "\<exists>app'. read_stream env now read app = (Inr (), app') \<and>
    tunnel_inv users inbound user auth sent target n deadline reads app'"
proof -
  obtain k a f d where i: "app_users app = users" "app_inbound app = inbound"
      "tunnel_state user auth target n deadline k a f d app" "client_reads f (read # reads)"
      "a @ stream_bytes 2 (read # reads) = auth" "d @ stream_bytes 0 (read # reads) = sent"
      "Suc k + reads_on 0 (read # reads) \<le> CHANNEL_CAPACITY"
    using assms(6) by (auto simp: tunnel_inv_def)
  obtain sid r where read: "read = (sid, r)" by fastforce
  have pre: "\<exists>j. d' = take j s" if "d' @ x = sent" for d' x
    using that assms(3) by (metis append_eq_conv_conj take_take)
  have inv: "tunnel_inv users inbound user auth sent target n deadline reads app'"
    if "app_users app' = users" "app_inbound app' = inbound" "tunnel_state user auth target n deadline k' a' f' d' app'"
      "client_reads f' reads" "a' @ stream_bytes 2 reads = auth" "d' @ stream_bytes 0 reads = sent"
      "Suc k' + reads_on 0 reads \<le> CHANNEL_CAPACITY" for app' k' a' f' d'
    unfolding tunnel_inv_def using that by blast
  show ?thesis
  proof (cases r)
    case (Received data fin)
    show ?thesis
    proof (cases "sid = 2")
      case True
      then have u: "\<not> f" "client_reads fin reads" "a @ data @ stream_bytes 2 reads = auth" "d @ stream_bytes 0 reads = sent"
          "Suc k + reads_on 0 reads \<le> CHANNEL_CAPACITY" using i read Received by auto
      obtain j where j: "d = take j s" using pre [OF u(4)] by blast
      have "fin \<longrightarrow> stream_bytes 2 reads = []" using u(2) client_reads_ended by auto
      from tunnel_uni_step [OF assms(1,2) i(1) j _ assms(5) _ u(3) this, of k] assms(4) i(2,3) u
      obtain app' where app': "handle_unidirectional_stream env now 2 data fin app = (Inr (), app')" "app_users app' = users"
          "app_inbound app' = inbound" "tunnel_state user auth target n deadline k (a @ data) fin d app'" by auto
      from inv [OF app'(2-4) u(2) _ u(4,5)] u(3) app'(1) read Received True show ?thesis
        by (simp add: is_unidirectional_def)
    next
      case False
      then have z: "sid = 0" "\<not> fin" "client_reads f reads" "a @ stream_bytes 2 reads = auth"
          "(d @ data) @ stream_bytes 0 reads = sent" "Suc (Suc k) + reads_on 0 reads \<le> CHANNEL_CAPACITY"
        using i read Received by auto
      obtain j where j: "d @ data = take j s" using pre [OF z(5)] by blast
      from tunnel_stream_step [OF assms(1) j _ assms(5) _ i(3)] assms(4) i(1,2) z(5,6)
      obtain app' where app': "handle_stream_data env now 0 data False app = (Inr (), app')" "app_users app' = users"
          "app_inbound app' = inbound" "tunnel_state user auth target n deadline (Suc k) a f (d @ data) app'" by auto
      from inv [OF app'(2-4) z(3-6)] app'(1) z(1,2) read Received show ?thesis
        by (simp add: is_unidirectional_def)
    qed
  next
    case RecvDone
    have "tunnel_inv users inbound user auth sent target n deadline reads app"
      using i read RecvDone by (intro inv [of app k a f d]) simp_all
    with read RecvDone show ?thesis by (simp add: sm_return_def)
  next
    case (RecvError e)
    with i(4) read show ?thesis by simp
  qed
qed

lemma tunnel_reads:
  assumes "tunnel env users user auth s target n" "0 < n" "sent = take j s"
    and "length auth + length sent \<le> MAX_PRE_AUTH_BYTES" "now < deadline"
    and "tunnel_inv users inbound user auth sent target n deadline (reads @ more_reads) app"
  shows "\<exists>app'. sm_for reads (read_stream env now) app = (Inr (), app') \<and>
    tunnel_inv users inbound user auth sent target n deadline more_reads app'"
  using assms(6)
proof (induction reads arbitrary: app)
  case (Cons read reads)
  from tunnel_step [OF assms(1-5)] Cons(2) obtain app1 where "read_stream env now read app = (Inr (), app1)"
      "tunnel_inv users inbound user auth sent target n deadline (reads @ more_reads) app1" by fastforce
  with Cons(1) show ?case by (simp add: sm_bind_def)
qed (simp add: sm_return_def)

lemma tunnel_inv_udp:
  "tunnel_inv users inbound user auth sent target n deadline reads (app\<lparr>udp_sessions := u, app_assembler := m, next_udp_cleanup := t\<rparr>) =
    tunnel_inv users inbound user auth sent target n deadline reads app"
  by (simp add: tunnel_inv_def tunnel_state_def before_auth_def waits_def after_auth_def stream_open_def)

lemma tunnel_inv_cleanup:
  "tunnel_inv users inbound user auth sent target n deadline reads app \<Longrightarrow>
    tunnel_inv users inbound user auth sent target n deadline reads (maybe_cleanup_udp_state now app)"
  by (cases "now < next_udp_cleanup app")
    (simp_all add: maybe_cleanup_udp_state_def evict_idle_udp_sessions_def tunnel_inv_udp)

lemma tunnel_inv_deadline:
  "tunnel_inv users inbound user auth sent target n deadline reads app \<Longrightarrow> now < deadline \<Longrightarrow>
    check_authentication_deadline now app = (Inr (), app)"
  by (auto simp: tunnel_inv_def tunnel_state_def after_auth_def check_authentication_deadline_def split: if_splits)

text \<open>The server reads in rounds, each at its time.\<close>

definition serve_rounds :: "tuic_env \<Rightarrow> (instant \<times> (u64 \<times> stream_recv) list) list \<Rightarrow> (tuic_app, unit) sm" where
  "serve_rounds env rounds =
     sm_for rounds (\<lambda>(now, reads). sm_bind (process_reads env now reads []) (\<lambda>_. sm_return ()))"

lemma tunnel_rounds:
  assumes "tunnel env users user auth s target n" "0 < n" "sent = take j s"
    and "length auth + length sent \<le> MAX_PRE_AUTH_BYTES" "list_all (\<lambda>(now, _). now < deadline) rounds"
    and "tunnel_inv users inbound user auth sent target n deadline (concat (map snd rounds)) app"
  shows "\<exists>app'. serve_rounds env rounds app = (Inr (), app') \<and> tunnel_inv users inbound user auth sent target n deadline [] app'"
  using assms(5,6)
proof (induction rounds arbitrary: app)
  case (Cons round rounds)
  obtain now reads where r: "round = (now, reads)" "now < deadline" using Cons(2) by (cases round) auto
  have "tunnel_inv users inbound user auth sent target n deadline (reads @ concat (map snd rounds)) (maybe_cleanup_udp_state now app)"
    using Cons(3) r by (intro tunnel_inv_cleanup) simp
  from tunnel_reads [OF assms(1-4) r(2) this] obtain app1 where
      "sm_for reads (read_stream env now) (maybe_cleanup_udp_state now app) = (Inr (), app1)"
      "tunnel_inv users inbound user auth sent target n deadline (concat (map snd rounds)) app1" by blast
  moreover from this(1) tunnel_inv_deadline [OF Cons(3) r(2)] have "process_reads env now reads [] app = (Inr [], app1)"
    by (simp add: process_reads_def sm_bind_def sm_return_def)
  ultimately show ?case using Cons(1) [of app1] Cons(2) r by (auto simp: serve_rounds_def sm_bind_def sm_return_def)
qed (simp add: serve_rounds_def sm_return_def)

lemma tunnel_start:
  assumes "length auth = AUTHENTICATE_LEN" "client_reads False reads" "stream_bytes 2 reads = auth"
    and "stream_bytes 0 reads = sent" "reads_on 0 reads < CHANNEL_CAPACITY"
  shows "tunnel_inv users inbound user auth sent target n (now + AUTHENTICATION_TIMEOUT) reads
    (on_conn_established now (tuic_app_new inbound users created))"
proof -
  have "tunnel_state user auth target n (now + AUTHENTICATION_TIMEOUT) 0 [] False []
      (on_conn_established now (tuic_app_new inbound users created))"
    using assms(1) by (simp add: tunnel_state_def before_auth_def waits_def on_conn_established_def tuic_app_new_def AUTHENTICATE_LEN_def)
  then show ?thesis
    using assms unfolding tunnel_inv_def
    by (intro conjI exI [of _ 0] exI [of _ "[]"] exI [of _ False]) (simp_all add: on_conn_established_def tuic_app_new_def)
qed

lemma tunnel_end:
  assumes "tunnel_inv users inbound user auth sent target n deadline [] app" "n \<le> length sent"
  shows "authenticated app \<and> app_username app = Some (tu_name user) \<and>
    (\<exists>initial ch. app_relays app = [(0, \<lparr>sess_inbound = inbound, sess_command = Connect, sess_target = target\<rparr>, initial)] \<and>
      fmlookup (app_streams app) 0 = Some \<lparr>client_tx = ch\<rparr> \<and> initial @ concat (ch_queue ch) = drop n sent)"
  using assms by (auto simp: tunnel_inv_def tunnel_state_def after_auth_def stream_open_def)


lemma demo_lists_map: "lists_map (env_into_iter demo_env)"
proof -
  have "map_of (map (\<lambda>k. (k, the (fmlookup m k))) (sorted_list_of_fset (fmdom m))) x = fmlookup m x" for m :: "(u64, pending_stream) fmap" and x
    by (cases "fmlookup m x") (auto simp: map_of_map_restrict restrict_map_def sorted_list_of_fset.rep_eq fmdom_notD dest: fmdomI)
  moreover have "distinct (sorted_list_of_fset (fmdom m))" for m :: "(u64, pending_stream) fmap"
    by (simp add: sorted_list_of_fset.rep_eq)
  ultimately show ?thesis by (simp add: lists_map_def demo_env_def comp_def fun_eq_iff)
qed

definition demo_rounds :: "(instant \<times> (u64 \<times> stream_recv) list) list" where
  "demo_rounds =
     [(1, [(0, Received [5, 1, 0, 1, 97] False), (2, Received (take 20 demo_auth) False)]),
      (2, [(2, Received (drop 20 demo_auth) True), (0, Received [0, 80, 9] False)])]"


end
