(* ===== verification/Anytls_Codec.thy ===== *)
theory Anytls_Codec
  imports Config Collections
begin

text \<open>
  The AnyTLS codec of \<open>protocol/anytls/codec.rs\<close>: frames, the client hello, padding schemes and
  the shaping of packets, settings, addresses and UDP over TCP packets. The frame type and the
  padding factory of the crate \<open>anytls\<close> are the record \<open>anytls_core\<close> and SHA-256 and MD5 are
  functions, all arguments of the definitions; \<open>frame_format\<close> says what the code relies on. The
  sizes a factory draws are random, so a draw is an argument too.
\<close>

section \<open>Frames\<close>

datatype core_command =
    Waste | Syn | Psh | Fin | Settings | Alert | UpdatePaddingScheme | SynAck | HeartRequest
  | HeartResponse | ServerSettings | Unknown u8

fun command_code :: "core_command \<Rightarrow> u8" where
  "command_code Waste = 0"
| "command_code Syn = 1"
| "command_code Psh = 2"
| "command_code Fin = 3"
| "command_code Settings = 4"
| "command_code Alert = 5"
| "command_code UpdatePaddingScheme = 6"
| "command_code SynAck = 7"
| "command_code HeartRequest = 8"
| "command_code HeartResponse = 9"
| "command_code ServerSettings = 10"
| "command_code (Unknown v) = v"

definition CMD_WASTE :: u8 where "CMD_WASTE = command_code Waste"
definition CMD_SYN :: u8 where "CMD_SYN = command_code Syn"
definition CMD_PSH :: u8 where "CMD_PSH = command_code Psh"
definition CMD_FIN :: u8 where "CMD_FIN = command_code Fin"
definition CMD_SETTINGS :: u8 where "CMD_SETTINGS = command_code Settings"
definition CMD_ALERT :: u8 where "CMD_ALERT = command_code Alert"
definition CMD_UPDATE_PADDING_SCHEME :: u8 where
  "CMD_UPDATE_PADDING_SCHEME = command_code UpdatePaddingScheme"
definition CMD_SYNACK :: u8 where "CMD_SYNACK = command_code SynAck"
definition CMD_HEART_REQUEST :: u8 where "CMD_HEART_REQUEST = command_code HeartRequest"
definition CMD_HEART_RESPONSE :: u8 where "CMD_HEART_RESPONSE = command_code HeartResponse"
definition CMD_SERVER_SETTINGS :: u8 where "CMD_SERVER_SETTINGS = command_code ServerSettings"

lemmas anytls_cmds [eval_simps] =
  CMD_WASTE_def CMD_SYN_def CMD_PSH_def CMD_FIN_def CMD_SETTINGS_def CMD_ALERT_def
  CMD_UPDATE_PADDING_SCHEME_def CMD_SYNACK_def CMD_HEART_REQUEST_def CMD_HEART_RESPONSE_def
  CMD_SERVER_SETTINGS_def command_code.simps

record 'f anytls_core =
  HEADER_OVERHEAD_SIZE :: usize
  CHECK_MARK :: int
  frame_to_bytes :: "u8 \<Rightarrow> u32 \<Rightarrow> bytes \<Rightarrow> bytes"
  frame_from_bytes :: "bytes \<Rightarrow> (u8 \<times> u32 \<times> bytes) option"
  factory_new :: "bytes \<Rightarrow> 'f option"
  factory_stop :: "'f \<Rightarrow> u32"
  factory_md5 :: "'f \<Rightarrow> string"

definition frame_format :: "'f anytls_core \<Rightarrow> bool" where
  "frame_format core \<longleftrightarrow> HEADER_OVERHEAD_SIZE core = 7 \<and>
     (\<forall>cmd sid data. length data \<le> 65535 \<longrightarrow>
        frame_to_bytes core cmd sid data = [cmd] @ be32 sid @ be16 (of_nat (length data)) @ data \<and>
        frame_from_bytes core ([cmd] @ be32 sid @ be16 (of_nat (length data)) @ data) =
          Some (cmd, sid, data))"

record frame =
  fr_command :: u8
  fr_stream_id :: u32
  fr_data :: bytes

fun frame_from :: "u8 \<times> u32 \<times> bytes \<Rightarrow> frame" where
  "frame_from (cmd, sid, data) = \<lparr>fr_command = cmd, fr_stream_id = sid, fr_data = data\<rparr>"

definition read_frame :: "'f anytls_core \<Rightarrow> (tcp_stream, frame) sm" where
  "read_frame core =
     sm_bind (tcp_read_exact (HEADER_OVERHEAD_SIZE core)) (\<lambda>raw.
     let len = unat (of_nat (of_be [raw ! 5, raw ! 6]) :: u16) in
     sm_bind
       (if len > 0 then sm_bind (tcp_read_exact len) (\<lambda>rest. sm_return (raw @ rest))
        else sm_return raw) (\<lambda>raw.
     sm_bind (sm_lift (ok_or (frame_from_bytes core raw) (Bail ''invalid anytls frame''))) (\<lambda>frame.
     sm_return (frame_from frame))))"

definition encode_frame :: "'f anytls_core \<Rightarrow> u8 \<Rightarrow> u32 \<Rightarrow> bytes \<Rightarrow> bytes res" where
  "encode_frame core command stream_id data =
     and_then (ensure (length data \<le> 65535) ''anytls frame is too large'') (\<lambda>_.
     Inr (frame_to_bytes core command stream_id data))"

definition write_frame :: "'f anytls_core \<Rightarrow> u8 \<Rightarrow> u32 \<Rightarrow> bytes \<Rightarrow> (tcp_stream, unit) sm" where
  "write_frame core command stream_id data =
     sm_bind (sm_lift (encode_frame core command stream_id data)) tcp_write_all"

definition encode_waste_frame :: "'f anytls_core \<Rightarrow> usize \<Rightarrow> bytes res" where
  "encode_waste_frame core data_len =
     and_then (ensure (data_len \<le> 65535) ''anytls waste frame is too large'') (\<lambda>_.
     encode_frame core CMD_WASTE 0 (replicate data_len 0))"

section \<open>The client hello\<close>

definition PASSWORD_HASH_LEN :: usize where
  "PASSWORD_HASH_LEN = 32"

datatype client_hello_auth = Authenticated string | Rejected bytes

definition password_hash :: "(bytes \<Rightarrow> bytes) \<Rightarrow> string \<Rightarrow> bytes" where
  "password_hash sha256 password = sha256 (as_bytes password)"

definition write_client_hello_with_padding ::
    "(bytes \<Rightarrow> bytes) \<Rightarrow> string \<Rightarrow> u16 \<Rightarrow> (tcp_stream, unit) sm" where
  "write_client_hello_with_padding sha256 password padding_len =
     (let hello = password_hash sha256 password @ be16 padding_len;
          total_len = PASSWORD_HASH_LEN + 2 + unat padding_len in
      tcp_write_all (take total_len hello @ replicate (total_len - length hello) 0))"

definition write_client_hello :: "(bytes \<Rightarrow> bytes) \<Rightarrow> string \<Rightarrow> (tcp_stream, unit) sm" where
  "write_client_hello sha256 password = write_client_hello_with_padding sha256 password 30"

definition read_client_hello_or_fallback ::
    "(bytes \<Rightarrow> bytes) \<Rightarrow> user_config list \<Rightarrow> (tcp_stream, client_hello_auth) sm" where
  "read_client_hello_or_fallback sha256 users =
     sm_bind (tcp_read_exact PASSWORD_HASH_LEN) (\<lambda>presented.
     case find (\<lambda>user. password_hash sha256 (uc_password user) = presented) users of
       None \<Rightarrow> sm_return (Rejected presented)
     | Some user \<Rightarrow>
         sm_bind tcp_read_u16 (\<lambda>padding_len.
         sm_bind (if padding_len > 0 then tcp_read_exact (unat padding_len) else sm_return []) (\<lambda>_.
         sm_return (Authenticated (uc_username user)))))"

definition read_client_hello ::
    "(bytes \<Rightarrow> bytes) \<Rightarrow> user_config list \<Rightarrow> (tcp_stream, string) sm" where
  "read_client_hello sha256 users =
     sm_bind (read_client_hello_or_fallback sha256 users) (\<lambda>auth.
     case auth of
       Authenticated username \<Rightarrow> sm_return username
     | Rejected _ \<Rightarrow> sm_fail (Bail ''anytls authentication failed''))"

section \<open>Padding schemes\<close>

definition DEFAULT_PADDING_MD5 :: string where
  "DEFAULT_PADDING_MD5 = ''e872e281aa5e28149c0f6b8d36e79199''"

definition DEFAULT_PADDING_SCHEME :: string where
  "DEFAULT_PADDING_SCHEME = join [newline]
     [''stop=8'', ''0=30-30'', ''1=100-400'', ''2=400-500,c,500-1000,c,500-1000,c,500-1000,c,500-1000'',
      ''3=9-9,500-1000'', ''4=500-1000'', ''5=500-1000'', ''6=500-1000'', ''7=500-1000'']"

record padding_rule =
  rule_stage :: u8
  rule_min :: u16
  rule_max :: u16

datatype padding_step = Size u16 u16 | Check

datatype generated_padding_step = GenSize usize | GenCheck

record 'f padding_plan =
  plan_stop :: u32
  plan_entries :: "(u32 \<times> padding_step list) list"
  plan_factory :: 'f

fun scheme_parts :: "u8 \<Rightarrow> string list \<Rightarrow> padding_rule list res" where
  "scheme_parts stage [] = Inr []"
| "scheme_parts stage (part # parts) =
     (if part = ''c'' then scheme_parts stage parts
      else
        (case split_once CHR ''-'' part of
           None \<Rightarrow> scheme_parts stage parts
         | Some (mn, mx) \<Rightarrow>
             and_then (parse_u16 mn) (\<lambda>mn.
             and_then (parse_u16 mx) (\<lambda>mx.
             and_then (scheme_parts stage parts) (\<lambda>rules.
             Inr (\<lparr>rule_stage = stage, rule_min = mn, rule_max = mx\<rparr> # rules))))))"

fun parse_padding_scheme :: "string list \<Rightarrow> padding_rule list res" where
  "parse_padding_scheme [] = Inr []"
| "parse_padding_scheme (line # lines) =
     (case split_once CHR ''='' line of
        None \<Rightarrow> parse_padding_scheme lines
      | Some (stage, spec) \<Rightarrow>
          if stage = ''stop'' then parse_padding_scheme lines
          else
            and_then (parse_u8 stage) (\<lambda>stage.
            and_then (scheme_parts stage (str_split CHR '','' spec)) (\<lambda>rules.
            and_then (parse_padding_scheme lines) (\<lambda>more_rules. Inr (rules @ more_rules)))))"

definition padding_scheme_text :: "string list \<Rightarrow> string" where
  "padding_scheme_text lines = (if lines = [] then DEFAULT_PADDING_SCHEME else join [newline] lines)"

definition padding_scheme_payload :: "string list \<Rightarrow> bytes" where
  "padding_scheme_payload lines = as_bytes (padding_scheme_text lines)"

definition plan_part :: "string \<Rightarrow> padding_step option" where
  "plan_part part =
     (if part = ''c'' then Some Check
      else
        (case split_once CHR ''-'' part of
           None \<Rightarrow> None
         | Some (mn, mx) \<Rightarrow>
             (case parse_u16 mn of
                Inl _ \<Rightarrow> None
              | Inr mn \<Rightarrow>
                  (case parse_u16 mx of
                     Inl _ \<Rightarrow> None
                   | Inr mx \<Rightarrow>
                       if mn = 0 \<or> mx = 0 then None
                       else if mn > mx then Some (Size mx mn)
                       else Some (Size mn mx)))))"

definition plan_steps :: "string \<Rightarrow> padding_step list" where
  "plan_steps spec =
     List.map_filter plan_part (filter (\<lambda>part. part \<noteq> []) (map trim (str_split CHR '','' spec)))"

fun plan_lines ::
    "string list \<Rightarrow> u32 option \<Rightarrow> (u32 \<times> padding_step list) list \<Rightarrow>
     (u32 option \<times> (u32 \<times> padding_step list) list) res" where
  "plan_lines [] stop entries = Inr (stop, entries)"
| "plan_lines (line # lines) stop entries =
     (case split_once CHR ''='' (trim line) of
        None \<Rightarrow> plan_lines lines stop entries
      | Some (key, spec) \<Rightarrow>
          if key = ''stop'' then
            and_then (parse_u32 spec) (\<lambda>n. plan_lines lines (Some n) entries)
          else
            (case parse_u32 key of
               Inl _ \<Rightarrow> plan_lines lines stop entries
             | Inr stage \<Rightarrow> plan_lines lines stop (entries @ [(stage, plan_steps spec)])))"

definition parse_padding_plan :: "'f anytls_core \<Rightarrow> string list \<Rightarrow> 'f padding_plan res" where
  "parse_padding_plan core lines =
     (let text = padding_scheme_text lines in
      and_then (ok_or (factory_new core (as_bytes text)) (Bail ''invalid anytls padding scheme'')) (\<lambda>factory.
      and_then (plan_lines (str_lines text) None []) (\<lambda>(stop, entries).
      and_then (ok_or stop (Bail ''padding scheme missing stop'')) (\<lambda>stop.
      and_then (ensure (stop = factory_stop core factory)
        ''padding scheme stop does not match upstream parser'') (\<lambda>_.
      Inr \<lparr>plan_stop = factory_stop core factory, plan_entries = entries, plan_factory = factory\<rparr>)))))"

definition plan_md5 :: "'f anytls_core \<Rightarrow> 'f padding_plan \<Rightarrow> string" where
  "plan_md5 core plan = factory_md5 core (plan_factory plan)"

text \<open>\<open>draw factory packet\<close> is what the factory generates in this call.\<close>

definition generate_record_payload_steps ::
    "'f anytls_core \<Rightarrow> ('f \<Rightarrow> u32 \<Rightarrow> int list) \<Rightarrow> 'f padding_plan \<Rightarrow> u32 \<Rightarrow> generated_padding_step list" where
  "generate_record_payload_steps core draw plan packet =
     List.map_filter (\<lambda>size.
       if size = CHECK_MARK core then Some GenCheck
       else if size > 0 then Some (GenSize (nat size))
       else None) (draw (plan_factory plan) packet)"

fun first_size :: "generated_padding_step list \<Rightarrow> usize option" where
  "first_size [] = None"
| "first_size (GenSize sz # steps) = Some sz"
| "first_size (GenCheck # steps) = first_size steps"

definition plan_padding0_len ::
    "'f anytls_core \<Rightarrow> ('f \<Rightarrow> u32 \<Rightarrow> int list) \<Rightarrow> 'f padding_plan \<Rightarrow> u16" where
  "plan_padding0_len core draw plan =
     (case first_size (generate_record_payload_steps core draw plan 0) of
        Some sz \<Rightarrow> of_nat sz
      | None \<Rightarrow> 30)"

definition steps_for_packet :: "'f padding_plan \<Rightarrow> u32 \<Rightarrow> padding_step list option" where
  "steps_for_packet plan packet = map_option snd (find (\<lambda>(stage, _). stage = packet) (plan_entries plan))"

definition padding_scheme_md5 ::
    "'f anytls_core \<Rightarrow> (bytes \<Rightarrow> string) \<Rightarrow> string list \<Rightarrow> string" where
  "padding_scheme_md5 core md5_hex lines =
     (if lines = [] then DEFAULT_PADDING_MD5
      else
        (case factory_new core (as_bytes (padding_scheme_text lines)) of
           Some factory \<Rightarrow> factory_md5 core factory
         | None \<Rightarrow> md5_hex (as_bytes (padding_scheme_text lines))))"

definition padding0_len ::
    "'f anytls_core \<Rightarrow> ('f \<Rightarrow> u32 \<Rightarrow> int list) \<Rightarrow> string list \<Rightarrow> u16 res" where
  "padding0_len core draw lines =
     and_then (parse_padding_plan core lines) (\<lambda>plan. Inr (plan_padding0_len core draw plan))"

text \<open>The loop over the steps carries the payload that is left and the records so far.\<close>

fun shape_steps ::
    "'f anytls_core \<Rightarrow> generated_padding_step list \<Rightarrow> bytes \<Rightarrow> bytes list \<Rightarrow> (bytes \<times> bytes list) res" where
  "shape_steps core [] payload records = Inr (payload, records)"
| "shape_steps core (GenCheck # steps) payload records =
     (if length payload = 0 then Inr (payload, records) else shape_steps core steps payload records)"
| "shape_steps core (GenSize sz # steps) payload records =
     (let remaining = length payload in
      if remaining > sz then
        shape_steps core steps (drop sz payload) (records @ [take sz payload])
      else if remaining > 0 then
        (let padding_len = sz - (remaining + HEADER_OVERHEAD_SIZE core) in
         and_then (if padding_len > 0
             then and_then (encode_waste_frame core padding_len) (\<lambda>waste. Inr (payload @ waste))
             else Inr payload) (\<lambda>rec.
         shape_steps core steps [] (records @ [rec])))
      else
        and_then (encode_waste_frame core sz) (\<lambda>waste.
        shape_steps core steps payload (records @ [waste])))"

definition shape_packet_payload ::
    "'f anytls_core \<Rightarrow> ('f \<Rightarrow> u32 \<Rightarrow> int list) \<Rightarrow> bytes \<Rightarrow> u32 \<Rightarrow> 'f padding_plan \<Rightarrow> bytes list res" where
  "shape_packet_payload core draw payload packet plan =
     (let steps = generate_record_payload_steps core draw plan packet in
      if steps = [] then Inr [payload]
      else
        and_then (shape_steps core steps payload []) (\<lambda>(payload, records).
        Inr (if payload \<noteq> [] then records @ [payload] else records)))"

section \<open>Addresses and UDP over TCP\<close>

definition UOT_V2_MAGIC_HOST :: string where
  "UOT_V2_MAGIC_HOST = ''sp.v2.udp-over-tcp.arpa''"

fun encode_socksaddr :: "target_addr \<Rightarrow> bytes res" where
  "encode_socksaddr (TIp (SockV4 ip port)) = Inr ([0x01] @ v4_octets ip @ be16 port)"
| "encode_socksaddr (TIp (SockV6 ip port flow scope)) = Inr ([0x04] @ v6_octets ip @ be16 port)"
| "encode_socksaddr (TDomain host port) =
     and_then (ensure (length host \<le> 255) ''domain is too long'') (\<lambda>_.
     Inr ([0x03] @ [of_nat (length host)] @ as_bytes host @ be16 port))"

definition decode_socksaddr :: "bytes \<Rightarrow> (target_addr \<times> nat) res" where
  "decode_socksaddr data =
     and_then
       (p_bind p_u8 (\<lambda>atyp.
          if atyp = 0x01 then
            p_bind (p_exact 4) (\<lambda>octets. p_bind p_u16 (\<lambda>port.
              p_return (TIp (sock_new (V4 (v4_from octets)) port))))
          else if atyp = 0x03 then
            p_bind p_u8 (\<lambda>len. p_bind (p_exact (unat len)) (\<lambda>host. p_bind p_u16 (\<lambda>port.
              p_bind (p_lift (from_utf8 host)) (\<lambda>host. p_return (TDomain host port)))))
          else if atyp = 0x04 then
            p_bind (p_exact 16) (\<lambda>octets. p_bind p_u16 (\<lambda>port.
              p_return (TIp (sock_new (V6 (v6_from octets)) port))))
          else p_fail (Bail ''unknown anytls address family'')) data)
       (\<lambda>(target, rest). Inr (target, length data - length rest))"

fun encode_uot_packet_addr :: "target_addr \<Rightarrow> bytes res" where
  "encode_uot_packet_addr (TIp (SockV4 ip port)) = Inr ([0x00] @ v4_octets ip @ be16 port)"
| "encode_uot_packet_addr (TIp (SockV6 ip port flow scope)) = Inr ([0x01] @ v6_octets ip @ be16 port)"
| "encode_uot_packet_addr (TDomain host port) =
     and_then (ensure (length host \<le> 255) ''domain is too long'') (\<lambda>_.
     Inr ([0x02] @ [of_nat (length host)] @ as_bytes host @ be16 port))"

definition encode_uot_addr :: "target_addr \<Rightarrow> bytes res" where
  "encode_uot_addr target = encode_socksaddr target"

definition write_uot_v2_request :: "bool \<Rightarrow> target_addr \<Rightarrow> (tcp_stream, unit) sm" where
  "write_uot_v2_request connect target =
     sm_bind (tcp_write_all [if connect then 1 else 0]) (\<lambda>_.
     sm_bind (sm_lift (encode_uot_addr target)) tcp_write_all)"

definition encode_uot_payload :: "bytes \<Rightarrow> bytes res" where
  "encode_uot_payload payload =
     and_then (ensure (length payload \<le> 65535) ''uot packet is too large'') (\<lambda>_.
     Inr (be16 (of_nat (length payload)) @ payload))"

definition write_uot_payload :: "bytes \<Rightarrow> (tcp_stream, unit) sm" where
  "write_uot_payload payload = sm_bind (sm_lift (encode_uot_payload payload)) tcp_write_all"

definition encode_uot_packet :: "target_addr \<Rightarrow> bytes \<Rightarrow> bytes res" where
  "encode_uot_packet target payload =
     and_then (ensure (length payload \<le> 65535) ''uot packet is too large'') (\<lambda>_.
     and_then (encode_uot_packet_addr target) (\<lambda>addr.
     Inr (addr @ be16 (of_nat (length payload)) @ payload)))"

definition read_uot_payload :: "(tcp_stream, bytes) sm" where
  "read_uot_payload = sm_bind tcp_read_u16 (\<lambda>len. tcp_read_exact (unat len))"

definition uot_v2_magic_target :: target_addr where
  "uot_v2_magic_target = TDomain UOT_V2_MAGIC_HOST 0"

fun is_uot_v2_magic_target :: "target_addr \<Rightarrow> bool" where
  "is_uot_v2_magic_target (TDomain host port) \<longleftrightarrow> eq_ignore_ascii_case host UOT_V2_MAGIC_HOST \<and> port = 0"
| "is_uot_v2_magic_target (TIp _) \<longleftrightarrow> False"

definition write_connect :: "'f anytls_core \<Rightarrow> target_addr \<Rightarrow> (tcp_stream, unit) sm" where
  "write_connect core target =
     sm_bind (write_frame core CMD_SYN 1 []) (\<lambda>_.
     sm_bind (sm_lift (encode_socksaddr target)) (\<lambda>addr.
     write_frame core CMD_PSH 1 addr))"

section \<open>Settings\<close>

definition settings :: bytes where
  "settings = as_bytes ''v=2''"

definition client_settings_with_padding_md5 :: "string \<Rightarrow> bytes" where
  "client_settings_with_padding_md5 padding_md5 =
     as_bytes (''v=2'' @ [newline] @ ''client=rtunnel'' @ [newline] @ ''padding-md5='' @ padding_md5)"

definition client_settings :: bytes where
  "client_settings = client_settings_with_padding_md5 DEFAULT_PADDING_MD5"

fun find_setting :: "string \<Rightarrow> string list \<Rightarrow> string option" where
  "find_setting key [] = None"
| "find_setting key (line # lines) =
     (case split_once CHR ''='' line of
        Some (name, val) \<Rightarrow> if name = key then Some val else find_setting key lines
      | None \<Rightarrow> find_setting key lines)"

definition settings_value :: "bytes \<Rightarrow> string \<Rightarrow> string option" where
  "settings_value data key =
     (case from_utf8 data of
        Inl _ \<Rightarrow> None
      | Inr text \<Rightarrow> find_setting key (str_lines text))"

definition settings_version :: "bytes \<Rightarrow> u8 option" where
  "settings_version data =
     (case settings_value data ''v'' of
        None \<Rightarrow> None
      | Some v \<Rightarrow> (case parse_u8 v of Inl _ \<Rightarrow> None | Inr n \<Rightarrow> Some n))"

section \<open>Address codecs\<close>

interpretation socksaddr: addr_codec "0x01" "0x03" "0x04" encode_socksaddr decode_socksaddr
  "Bail ''domain is too long''" "Bail ''unknown anytls address family''"
proof
  show "encode_socksaddr t = (if fits t then Inr (format_addr 0x01 0x03 0x04 t)
      else Inl (Bail ''domain is too long''))" for t
    by (cases t rule: encode_socksaddr.cases) simp_all
  show "decode_socksaddr bs =
      and_then (parse_addr 0x01 0x03 0x04 (Bail ''unknown anytls address family'') bs)
        (\<lambda>(t, rest). Inr (t, length bs - length rest))" for bs
    unfolding decode_socksaddr_def parse_addr_def parse_v4_def parse_v6_def parse_domain_def
      sock_new.simps ..
qed simp_all

interpretation uot_addr: addr_format "0x00" "0x02" "0x01"
  by unfold_locales simp_all

lemma encode_uot_packet_addr_spec:
  "encode_uot_packet_addr t =
     (if fits t then Inr (format_addr 0x00 0x02 0x01 t) else Inl (Bail ''domain is too long''))"
  by (cases t rule: encode_uot_packet_addr.cases) simp_all

section \<open>Frames round trip\<close>

lemma encode_frame_Inr_iff:
  assumes "frame_format core"
  shows "encode_frame core cmd sid data = Inr bs \<longleftrightarrow> length data \<le> 65535 \<and>
    bs = [cmd] @ be32 sid @ be16 (of_nat (length data)) @ data"
  using assms by (auto simp: encode_frame_def and_then_Inr_iff frame_format_def)

lemma nth_56:
  assumes "length (b :: bytes) = 4" "length (c :: bytes) = 2"
  shows "[([a] @ b @ c) ! 5, ([a] @ b @ c) ! 6] = c"
proof -
  obtain x y where "c = [x, y]" using assms(2) by (auto simp: length_Suc_conv numeral_2_eq_2)
  moreover obtain p q r t where "b = [p, q, r, t]"
    using assms(1) by (auto simp: length_Suc_conv eval_nat_numeral)
  ultimately show ?thesis by simp
qed

lemma read_frame_encoded:
  assumes "frame_format core" "encode_frame core cmd sid data = Inr bs" "rd s = bs @ rest"
  shows "read_frame core s = (Inr \<lparr>fr_command = cmd, fr_stream_id = sid, fr_data = data\<rparr>, s\<lparr>rd := rest\<rparr>)"
proof -
  let ?len = "be16 (of_nat (length data))"
  let ?hdr = "[cmd] @ be32 sid @ ?len"
  have len: "length data \<le> 65535" and bs: "bs = ?hdr @ data"
    using assms(1,2) by (simp_all add: encode_frame_Inr_iff)
  define raw where "raw = ?hdr"
  have hdr: "[raw ! 5, raw ! 6] = ?len" unfolding raw_def by (rule nth_56) simp_all
  have n: "unat (of_nat (of_be [raw ! 5, raw ! 6]) :: u16) = length data"
    unfolding hdr using len by (simp add: unat_of_nat_u16)
  have core: "HEADER_OVERHEAD_SIZE core = 7" "frame_from_bytes core (raw @ data) = Some (cmd, sid, data)"
    using assms(1) len by (simp_all add: frame_format_def raw_def)
  have read: "tcp_read_exact 7 s = (Inr raw, s\<lparr>rd := data @ rest\<rparr>)"
    using assms(3) bs by (intro tcp_read_exact_append) (simp_all add: raw_def)
  show ?thesis
    using core(2) unfolding read_frame_def core(1) sm_bind_def read Let_def
    by (cases "data = []") (simp_all add: n sm_return_def sm_lift_def ok_or_def)
qed

text \<open>Reading or writing several frames, as both peers do in their loops.\<close>

fun read_frames :: "'f anytls_core \<Rightarrow> nat \<Rightarrow> (tcp_stream, frame list) sm" where
  "read_frames core 0 = sm_return []"
| "read_frames core (Suc n) =
     sm_bind (read_frame core) (\<lambda>f. sm_bind (read_frames core n) (\<lambda>fs. sm_return (f # fs)))"

fun write_frames :: "'f anytls_core \<Rightarrow> frame list \<Rightarrow> (tcp_stream, unit) sm" where
  "write_frames core [] = sm_return ()"
| "write_frames core (f # fs) =
     sm_bind (write_frame core (fr_command f) (fr_stream_id f) (fr_data f)) (\<lambda>_. write_frames core fs)"

definition frame_bytes :: "frame \<Rightarrow> bytes" where
  "frame_bytes f = [fr_command f] @ be32 (fr_stream_id f) @ be16 (of_nat (length (fr_data f))) @ fr_data f"

definition frame_fits :: "frame \<Rightarrow> bool" where
  "frame_fits f \<longleftrightarrow> length (fr_data f) \<le> 65535"

lemma encode_frame_bytes:
  "frame_format core \<Longrightarrow> frame_fits f \<Longrightarrow>
   encode_frame core (fr_command f) (fr_stream_id f) (fr_data f) = Inr (frame_bytes f)"
  by (simp add: encode_frame_Inr_iff frame_bytes_def frame_fits_def)

lemma read_frames_bytes:
  assumes "frame_format core" "list_all frame_fits fs" "rd s = concat (map frame_bytes fs) @ rest"
  shows "read_frames core (length fs) s = (Inr fs, s\<lparr>rd := rest\<rparr>)"
  using assms(2,3)
proof (induction fs arbitrary: s)
  case Nil
  then show ?case by (cases s) (simp add: sm_return_def)
next
  case (Cons f fs)
  have "read_frame core s = (Inr f, s\<lparr>rd := concat (map frame_bytes fs) @ rest\<rparr>)"
    using read_frame_encoded [OF assms(1) encode_frame_bytes [OF assms(1)], of f s] Cons.prems by simp
  with Cons.IH [of "s\<lparr>rd := concat (map frame_bytes fs) @ rest\<rparr>"] Cons.prems show ?case
    by (simp add: sm_return_def)
qed

lemma write_frames_bytes:
  assumes "frame_format core" "list_all frame_fits fs" "fault s = None"
  shows "write_frames core fs s = (Inr (), s\<lparr>wr := wr s @ concat (map frame_bytes fs)\<rparr>)"
  using assms(2,3)
proof (induction fs arbitrary: s)
  case (Cons f fs)
  then have "write_frame core (fr_command f) (fr_stream_id f) (fr_data f) s =
      (Inr (), s\<lparr>wr := wr s @ frame_bytes f\<rparr>)"
    by (simp add: write_frame_def sm_bind_def sm_lift_def encode_frame_bytes [OF assms(1)])
  with Cons show ?case by simp
qed (simp add: sm_return_def)

text \<open>Frames round trip on a stream: what a peer writes as a sequence of frames, the other reads
  back as the same sequence, and it stops exactly behind the last frame.\<close>

theorem anytls_frames_roundtrip:
  assumes "frame_format core" and "list_all frame_fits fs"
  shows "\<exists>bs. write_frames core fs \<lparr>rd = r, wr = w, fault = None\<rparr> =
      (Inr (), \<lparr>rd = r, wr = w @ bs, fault = None\<rparr>) \<and>
    read_frames core (length fs) \<lparr>rd = bs @ rest, wr = w', fault = None\<rparr> =
      (Inr fs, \<lparr>rd = rest, wr = w', fault = None\<rparr>)"
  using write_frames_bytes [OF assms, of "\<lparr>rd = r, wr = w, fault = None\<rparr>"]
    read_frames_bytes [OF assms, of "\<lparr>rd = concat (map frame_bytes fs) @ rest, wr = w', fault = None\<rparr>" rest]
  by simp

text \<open>An instance of the crate's interface that follows the frame format.\<close>

definition demo_core :: "int list anytls_core" where
  "demo_core =
     \<lparr>HEADER_OVERHEAD_SIZE = 7, CHECK_MARK = - 1,
      frame_to_bytes = (\<lambda>cmd sid data. [cmd] @ be32 sid @ be16 (of_nat (length data)) @ data),
      frame_from_bytes = (\<lambda>raw. if length raw < 7 then None
        else Some (raw ! 0, of_nat (of_be (take 4 (drop 1 raw))), drop 7 raw)),
      factory_new = (\<lambda>_. Some []), factory_stop = (\<lambda>_. 8), factory_md5 = (\<lambda>_. ''00'')\<rparr>"

lemma demo_core_format: "frame_format demo_core"
  by (simp add: frame_format_def demo_core_def)

section \<open>Shaping is transparent\<close>

definition waste_frame :: "nat \<Rightarrow> frame" where
  "waste_frame n = \<lparr>fr_command = CMD_WASTE, fr_stream_id = 0, fr_data = replicate n 0\<rparr>"

lemma encode_waste_bytes:
  assumes "frame_format core" "n \<le> 65535"
  shows "encode_waste_frame core n = Inr (frame_bytes (waste_frame n))"
  using encode_frame_bytes [OF assms(1), of "waste_frame n"] assms(2)
  by (simp add: encode_waste_frame_def waste_frame_def frame_fits_def)

definition sizes_fit :: "generated_padding_step list \<Rightarrow> bool" where
  "sizes_fit steps \<longleftrightarrow> list_all (\<lambda>step. case step of GenSize n \<Rightarrow> n \<le> 65535 | GenCheck \<Rightarrow> True) steps"

definition waste_bytes :: "nat list \<Rightarrow> bytes" where
  "waste_bytes ns = concat (map frame_bytes (map waste_frame ns))"

lemma waste_bytes_simps [simp]:
  "waste_bytes [] = []" "waste_bytes (n # ns) = frame_bytes (waste_frame n) @ waste_bytes ns"
  "waste_bytes (ms @ ns) = waste_bytes ms @ waste_bytes ns"
  by (simp_all add: waste_bytes_def)

lemma take_drop_append: "take n xs @ drop n xs @ ys = xs @ ys"
  by (metis append.assoc append_take_drop_id)

text \<open>
  Whatever the steps, the loop keeps the bytes: records so far and payload left are the payload,
  followed by waste frames only once the payload is used up.
\<close>

lemma shape_steps_spec:
  assumes "frame_format core" "sizes_fit steps"
  shows "\<exists>payload' records' ns. shape_steps core steps payload records = Inr (payload', records') \<and>
    concat records' @ payload' = concat records @ payload @ waste_bytes ns \<and>
    list_all (\<lambda>n. n \<le> 65535) ns"
  using assms
proof (induction core steps payload records rule: shape_steps.induct)
  case (1 core payload records)
  then show ?case by (intro exI [of _ payload] exI [of _ records] exI [of _ "[]"]) simp
next
  case (2 core steps payload records)
  then show ?case
    by (cases "payload = []")
      (auto simp: sizes_fit_def intro!: exI [of _ payload] exI [of _ records] exI [of _ "[]"])
next
  case (3 core sz steps payload records)
  have fit: "sz \<le> 65535" "sizes_fit steps" using "3.prems"(2) by (simp_all add: sizes_fit_def)
  consider "length payload > sz" | "0 < length payload" "length payload \<le> sz" | "payload = []"
    by fastforce
  then show ?case
  proof cases
    case 1
    then show ?thesis using "3.IH"(1) [OF refl] "3.prems"(1) fit by (simp add: take_drop_append)
  next
    case 2
    let ?pad = "sz - (length payload + HEADER_OVERHEAD_SIZE core)"
    let ?ns = "if ?pad > 0 then [?pad] else []"
    let ?rec = "payload @ waste_bytes ?ns"
    have rec: "(if ?pad > 0 then and_then (encode_waste_frame core ?pad) (\<lambda>waste. Inr (payload @ waste))
        else Inr payload) = Inr ?rec"
      using encode_waste_bytes [OF "3.prems"(1), of ?pad] fit by simp
    have "\<exists>payload' records' ns. shape_steps core steps [] (records @ [?rec]) = Inr (payload', records') \<and>
        concat records' @ payload' = concat (records @ [?rec]) @ [] @ waste_bytes ns \<and>
        list_all (\<lambda>n. n \<le> 65535) ns"
      by (rule "3.IH"(2) [OF refl _ _ refl]) (use 2 "3.prems"(1) fit in auto)
    then obtain payload' records' ns where IH:
        "shape_steps core steps [] (records @ [?rec]) = Inr (payload', records')"
        "concat records' @ payload' = concat (records @ [?rec]) @ [] @ waste_bytes ns" "list_all (\<lambda>n. n \<le> 65535) ns"
      by blast
    have "shape_steps core (GenSize sz # steps) payload records = Inr (payload', records')"
      unfolding shape_steps.simps Let_def rec using 2 IH(1) by simp
    moreover have "?pad \<le> 65535" using fit(1) by linarith
    ultimately show ?thesis
      using IH(2,3) by (intro exI [of _ payload'] exI [of _ records'] exI [of _ "?ns @ ns"]) simp
  next
    case 3
    have "\<exists>payload' records' ns.
        shape_steps core steps payload (records @ [frame_bytes (waste_frame sz)]) = Inr (payload', records') \<and>
        concat records' @ payload' =
          concat (records @ [frame_bytes (waste_frame sz)]) @ payload @ waste_bytes ns \<and>
        list_all (\<lambda>n. n \<le> 65535) ns"
      by (rule "3.IH"(3) [OF refl]) (use 3 "3.prems"(1) fit in auto)
    then obtain payload' records' ns where IH:
        "shape_steps core steps payload (records @ [frame_bytes (waste_frame sz)]) = Inr (payload', records')"
        "concat records' @ payload' = concat (records @ [frame_bytes (waste_frame sz)]) @ payload @ waste_bytes ns"
        "list_all (\<lambda>n. n \<le> 65535) ns"
      by blast
    have "shape_steps core (GenSize sz # steps) payload records = Inr (payload', records')"
      using 3 IH(1) encode_waste_bytes [OF "3.prems"(1) fit(1)] by simp
    then show ?thesis
      using IH(2,3) fit 3 by (intro exI [of _ payload'] exI [of _ records'] exI [of _ "sz # ns"]) simp
  qed
qed

lemma shape_packet_payload_spec:
  assumes "frame_format core" "sizes_fit (generate_record_payload_steps core draw plan packet)"
  shows "\<exists>records ns. shape_packet_payload core draw payload packet plan = Inr records \<and>
    concat records = payload @ waste_bytes ns \<and> list_all (\<lambda>n. n \<le> 65535) ns"
proof (cases "generate_record_payload_steps core draw plan packet = []")
  case True
  then show ?thesis by (auto simp: shape_packet_payload_def intro!: exI [of _ "[]"])
next
  case False
  obtain payload' records' ns where
      "shape_steps core (generate_record_payload_steps core draw plan packet) payload [] = Inr (payload', records')"
      "concat records' @ payload' = concat [] @ payload @ waste_bytes ns"
      "list_all (\<lambda>n. n \<le> 65535) ns"
    using shape_steps_spec [OF assms, of payload "[]"] by blast
  with False show ?thesis
    by (intro exI [of _ "if payload' \<noteq> [] then records' @ [payload'] else records'"] exI [of _ ns])
      (auto simp: shape_packet_payload_def)
qed


definition demo_plan :: "int list padding_plan" where
  "demo_plan = \<lparr>plan_stop = 8, plan_entries = [], plan_factory = [5, - 1, 20, 0, 30]\<rparr>"


section \<open>The client hello\<close>

text \<open>C12: The client hello authenticates exactly the holders of a password. Authentication succeeds
  only if the first 32 bytes are the hash of the password of the named user, and consumes them with
  the announced padding; a rejection means that no user has that hash, consumes only these 32 bytes
  and hands all of them to the fallback.\<close>

theorem anytls_hello_sound:
  assumes "read_client_hello_or_fallback sha256 users s = (Inr auth, s')"
  shows "wr s' = wr s \<and>
    (case auth of
       Authenticated name \<Rightarrow>
         \<exists>user padding. user \<in> set users \<and> uc_username user = name \<and> length padding \<le> 65535 \<and>
           length (password_hash sha256 (uc_password user)) = 32 \<and>
           rd s = password_hash sha256 (uc_password user) @ be16 (of_nat (length padding)) @ padding @ rd s'
     | Rejected presented \<Rightarrow>
         rd s = presented @ rd s' \<and> length presented = 32 \<and>
         (\<forall>user \<in> set users. password_hash sha256 (uc_password user) \<noteq> presented))"
proof -
  obtain presented s1 where p: "rd s = presented @ rd s1" "length presented = 32" "s1 = s\<lparr>rd := rd s1\<rparr>"
    and k: "(case find (\<lambda>user. password_hash sha256 (uc_password user) = presented) users of
       None \<Rightarrow> sm_return (Rejected presented)
     | Some user \<Rightarrow>
         sm_bind tcp_read_u16 (\<lambda>padding_len.
         sm_bind (if padding_len > 0 then tcp_read_exact (unat padding_len) else sm_return []) (\<lambda>_.
         sm_return (Authenticated (uc_username user))))) s1 = (Inr auth, s')"
    using assms by (auto simp: read_client_hello_or_fallback_def tcp_Inr PASSWORD_HASH_LEN_def)
  have w1: "wr s1 = wr s" by (subst p(3)) simp
  show ?thesis
  proof (cases "find (\<lambda>user. password_hash sha256 (uc_password user) = presented) users")
    case None
    then have "auth = Rejected presented" "s' = s1" using k by (simp_all add: sm_return_def)
    then show ?thesis using None p w1 by (simp add: find_None_iff)
  next
    case (Some user)
    then have user: "user \<in> set users" "password_hash sha256 (uc_password user) = presented"
      by (auto simp: find_Some_iff in_set_conv_nth)
    obtain n s2 padding where n: "rd s1 = be16 n @ rd s2" "s2 = s1\<lparr>rd := rd s2\<rparr>"
      and pad: "rd s2 = padding @ rd s'" "length padding = unat n" "s' = s2\<lparr>rd := rd s'\<rparr>"
      and auth: "auth = Authenticated (uc_username user)"
    proof -
      have zero: "x = 0 \<Longrightarrow> unat x = 0" for x :: u16 by simp
      show thesis
        using k Some that
        by (auto simp: tcp_Inr tcp_read_u16_Inr sm_return_def word_gt_0 dest: zero split: if_splits)
    qed
    have "wr s' = wr s" using w1 by (subst pad(3), subst n(2)) simp
    moreover have "be16 n = be16 (of_nat (length padding))" using pad(2) by simp
    moreover have "length padding \<le> 65535" using pad(2) unat_u16_less [of n] by linarith
    ultimately show ?thesis using user p n pad auth by force
  qed
qed

definition demo_hash :: "bytes \<Rightarrow> bytes" where
  "demo_hash bs = take 32 (bs @ replicate 32 0)"

definition demo_users :: "user_config list" where
  "demo_users = [\<lparr>uc_username = ''alice'', uc_uuid = None, uc_password = ''p''\<rparr>,
     \<lparr>uc_username = ''bob'', uc_uuid = None, uc_password = ''q''\<rparr>]"

lemma demo_hash_length: "length (demo_hash bs) = 32"
  by (simp add: demo_hash_def)

theorem anytls_hello_sound_witness:
  "\<exists>s'. read_client_hello_or_fallback demo_hash demo_users
       \<lparr>rd = (113 # replicate 31 0) @ [0, 1, 9, 7], wr = [], fault = None\<rparr> = (Inr (Authenticated ''bob''), s') \<and>
     (\<exists>user padding. user \<in> set demo_users \<and> uc_username user = ''bob'' \<and> length padding \<le> 65535 \<and>
        (113 # replicate 31 0) @ [0, 1, 9, 7] =
          password_hash demo_hash (uc_password user) @ be16 (of_nat (length padding)) @ padding @ rd s')"
proof -
  let ?rest = "[0, 1, 9, 7] :: bytes"
  let ?s = "\<lparr>rd = (113 # replicate 31 0) @ ?rest, wr = [], fault = None\<rparr>"
  have hash: "password_hash demo_hash ''q'' = 113 # replicate 31 0" "password_hash demo_hash ''p'' = 112 # replicate 31 0"
    by (simp_all add: password_hash_def demo_hash_def eval_simps)
  have "tcp_read_exact 32 ?s = (Inr (113 # replicate 31 0), \<lparr>rd = ?rest, wr = [], fault = None\<rparr>)"
    by (subst tcp_read_exact_append [of ?s "113 # replicate 31 0" ?rest]) simp_all
  then have r: "read_client_hello_or_fallback demo_hash demo_users ?s =
      (Inr (Authenticated ''bob''), \<lparr>rd = [7], wr = [], fault = None\<rparr>)"
    by (simp add: read_client_hello_or_fallback_def PASSWORD_HASH_LEN_def demo_users_def hash sm_bind_def
        tcp_read_u16_def tcp_read_exact_def sm_return_def eval_simps)
  from anytls_hello_sound [OF r] r show ?thesis by auto
qed

lemma hello_accepted:
  assumes "\<forall>bs. length (sha256 bs) = 32" and "\<exists>user \<in> set users. uc_password user = password"
  shows "\<exists>hello user. user \<in> set users \<and>
    password_hash sha256 (uc_password user) = password_hash sha256 password \<and>
    write_client_hello_with_padding sha256 password n \<lparr>rd = r, wr = w, fault = None\<rparr> =
      (Inr (), \<lparr>rd = r, wr = w @ hello, fault = None\<rparr>) \<and>
    read_client_hello_or_fallback sha256 users \<lparr>rd = hello @ rest, wr = w', fault = None\<rparr> =
      (Inr (Authenticated (uc_username user)), \<lparr>rd = rest, wr = w', fault = None\<rparr>)"
proof -
  let ?h = "password_hash sha256 password"
  have len: "length ?h = 32" using assms(1) by (simp add: password_hash_def)
  have "find (\<lambda>user. password_hash sha256 (uc_password user) = ?h) users \<noteq> None"
    using assms(2) by (auto simp: find_None_iff)
  then obtain user where user: "find (\<lambda>user. password_hash sha256 (uc_password user) = ?h) users = Some user"
    by blast
  then have member: "user \<in> set users" "password_hash sha256 (uc_password user) = ?h"
    by (auto simp: find_Some_iff in_set_conv_nth)
  let ?hello = "?h @ be16 n @ replicate (unat n) 0"
  have "write_client_hello_with_padding sha256 password n \<lparr>rd = r, wr = w, fault = None\<rparr> =
      (Inr (), \<lparr>rd = r, wr = w @ ?hello, fault = None\<rparr>)"
    using len by (simp add: write_client_hello_with_padding_def PASSWORD_HASH_LEN_def Let_def)
  moreover have "read_client_hello_or_fallback sha256 users \<lparr>rd = ?hello @ rest, wr = w', fault = None\<rparr> =
      (Inr (Authenticated (uc_username user)), \<lparr>rd = rest, wr = w', fault = None\<rparr>)"
  proof -
    have "tcp_read_exact 32 \<lparr>rd = ?hello @ rest, wr = w', fault = None\<rparr> =
        (Inr ?h, \<lparr>rd = be16 n @ replicate (unat n) 0 @ rest, wr = w', fault = None\<rparr>)"
      using len by (subst tcp_read_exact_append [of _ ?h]) simp_all
    then show ?thesis
      using user
      by (cases "n = 0")
        (simp_all add: read_client_hello_or_fallback_def PASSWORD_HASH_LEN_def
          sm_bind_def sm_return_def word_gt_0)
  qed
  ultimately show ?thesis using member by blast
qed

text \<open>A client that knows a password is let in. For every padding length, the hello it writes is
  accepted as a user with that password hash, and the server stops exactly behind the padding.\<close>

theorem anytls_hello_roundtrip:
  assumes "\<forall>bs. length (sha256 bs) = 32" and "\<exists>user \<in> set users. uc_password user = password"
  shows "\<exists>hello user. user \<in> set users \<and>
    password_hash sha256 (uc_password user) = password_hash sha256 password \<and>
    write_client_hello_with_padding sha256 password n \<lparr>rd = r, wr = w, fault = None\<rparr> =
      (Inr (), \<lparr>rd = r, wr = w @ hello, fault = None\<rparr>) \<and>
    read_client_hello sha256 users \<lparr>rd = hello @ rest, wr = w', fault = None\<rparr> =
      (Inr (uc_username user), \<lparr>rd = rest, wr = w', fault = None\<rparr>)"
  using hello_accepted [OF assms, of n r w rest w'] by (auto simp: read_client_hello_def sm_bind_def sm_return_def)

section \<open>Settings and padding plans\<close>

lemma ascii_from_utf8:
  assumes "\<forall>c \<in> set t. byte_of_char c < 0x80"
  shows "from_utf8 (as_bytes t) = Inr t"
  using assms by (intro from_utf8_as_bytes) (auto simp: valid_str_def as_bytes_def intro!: utf8_valid_ascii)

lemma client_settings_values:
  assumes "\<forall>c \<in> set md5. byte_of_char c < 0x80 \<and> c \<noteq> newline"
  shows "settings_version (client_settings_with_padding_md5 md5) = Some 2 \<and>
    settings_value (client_settings_with_padding_md5 md5) ''client'' = Some ''rtunnel'' \<and>
    settings_value (client_settings_with_padding_md5 md5) ''padding-md5'' = Some md5"
proof -
  let ?ls = "[''v=2'', ''client=rtunnel'', ''padding-md5='' @ md5]"
  let ?t = "''v=2'' @ [newline] @ ''client=rtunnel'' @ [newline] @ ''padding-md5='' @ md5"
  have t: "?t = join [newline] ?ls" by simp
  have utf8: "from_utf8 (as_bytes ?t) = Inr ?t"
    using assms by (intro ascii_from_utf8) (auto simp: byte_of_char_def)
  have split: "str_split newline ?t = ?ls"
    unfolding t using assms by (intro str_split_join) auto
  have lines: "str_lines ?t = ?ls" unfolding str_lines_def Let_def split by (simp add: strip_cr_def)
  have val: "settings_value (client_settings_with_padding_md5 md5) key = find_setting key ?ls" for key
    unfolding settings_value_def client_settings_with_padding_md5_def utf8 by (simp only: sum.case lines)
  have "parse_u8 ''2'' = Inr 2" by (simp add: parse_u8_def parse_uint_def is_digit_def digit_val_def)
  then show ?thesis by (simp add: settings_version_def val)
qed

text \<open>The settings a client sends are read back by the server: version 2, the client's name, and
  the digest of its padding scheme, for every digest in ASCII without a line break.\<close>

theorem anytls_settings_roundtrip:
  assumes "\<forall>c \<in> set md5. byte_of_char c < 0x80 \<and> c \<noteq> newline"
  shows "settings_version (client_settings_with_padding_md5 md5) = Some 2 \<and>
    settings_value (client_settings_with_padding_md5 md5) ''client'' = Some ''rtunnel'' \<and>
    settings_value (client_settings_with_padding_md5 md5) ''padding-md5'' = Some md5"
  using assms by (rule client_settings_values)

definition steps_ok :: "padding_step list \<Rightarrow> bool" where
  "steps_ok steps \<longleftrightarrow> list_all (\<lambda>step. case step of Size mn mx \<Rightarrow> 0 < mn \<and> mn \<le> mx | Check \<Rightarrow> True) steps"

lemma plan_part_ok: "plan_part part = Some (Size mn mx) \<Longrightarrow> 0 < mn \<and> mn \<le> mx"
  by (auto simp: plan_part_def word_gt_0 split: if_splits option.splits sum.splits)

lemma plan_steps_ok: "steps_ok (plan_steps spec)"
  using plan_part_ok
  by (auto simp: steps_ok_def plan_steps_def list_all_iff List.map_filter_def split: padding_step.split)

lemma plan_lines_ok:
  assumes "plan_lines lines stop entries = Inr (stop', entries')" "list_all (steps_ok \<circ> snd) entries"
  shows "list_all (steps_ok \<circ> snd) entries'"
  using assms
  by (induction lines stop entries rule: plan_lines.induct)
    (auto simp: and_then_Inr_iff plan_steps_ok split: option.splits if_splits sum.splits)

lemma demo_scheme_parses: "\<exists>plan. parse_padding_plan demo_core [''stop=8'', ''1=400-100,c''] = Inr plan"
proof -
  let ?text = "padding_scheme_text [''stop=8'', ''1=400-100,c'']"
  have lines: "str_lines ?text = [''stop=8'', ''1=400-100,c'']"
  proof -
    have "str_split newline ?text = [''stop=8'', ''1=400-100,c'']"
      unfolding padding_scheme_text_def by (simp only: list.distinct if_False, rule str_split_join) simp_all
    then show ?thesis unfolding str_lines_def Let_def by (simp only:) (simp add: strip_cr_def)
  qed
  have trims: "trim ''stop=8'' = ''stop=8''" "trim ''1=400-100,c'' = ''1=400-100,c''"
    by code_simp+
  have "parse_u32 ''8'' = Inr 8" "parse_u32 ''1'' = Inr 1"
    by (simp_all add: parse_u32_def parse_uint_def is_digit_def digit_val_def)
  then show ?thesis
    by (simp add: parse_padding_plan_def lines trims demo_core_def ok_or_def Let_def)
qed

text \<open>A padding plan that is accepted is well formed: each size range of each stage is positive and
  ordered, whatever order it was written in, and the plan stops where its factory does.\<close>

theorem anytls_padding_plan_ok:
  assumes "parse_padding_plan core lines = Inr plan"
  shows "list_all (steps_ok \<circ> snd) (plan_entries plan) \<and>
    plan_stop plan = factory_stop core (plan_factory plan) \<and>
    factory_new core (padding_scheme_payload lines) = Some (plan_factory plan)"
  using assms plan_lines_ok
  by (auto simp: parse_padding_plan_def padding_scheme_payload_def and_then_Inr_iff Let_def ok_or_def
      split: option.splits)

end
