(* ===== verification/Anytls_Writer.thy ===== *)
theory Anytls_Writer
  imports Anytls_Codec
begin

text \<open>
  The writing side of an AnyTLS client connection, from \<open>protocol/anytls/outbound.rs\<close>: the padding
  state \<open>ClientState\<close> and \<open>ClientWriter\<close>, which collects frames in a buffer and writes them out as
  padded records while the padding scheme lasts. The lemmas show that padding and buffering never
  lose, reorder or change a frame.
\<close>

section \<open>Padding state\<close>

record 'f client_state =
  cst_padding_md5 :: string
  cst_padding0_len :: u16
  cst_padding_plan :: "'f padding_plan"

definition client_state_from ::
    "'f anytls_core \<Rightarrow> ('f \<Rightarrow> u32 \<Rightarrow> int list) \<Rightarrow> string list \<Rightarrow> 'f client_state res" where
  "client_state_from core draw lines =
     and_then (parse_padding_plan core lines) (\<lambda>plan.
     Inr \<lparr>cst_padding_md5 = plan_md5 core plan, cst_padding0_len = plan_padding0_len core draw plan,
          cst_padding_plan = plan\<rparr>)"

definition client_state_new ::
    "'f anytls_core \<Rightarrow> ('f \<Rightarrow> u32 \<Rightarrow> int list) \<Rightarrow> 'f client_state res" where
  "client_state_new core draw = client_state_from core draw []"

section \<open>The writer\<close>

record client_writer =
  cw_inner :: tcp_stream
  cw_buffer :: bytes
  cw_packet_counter :: u32
  cw_send_padding :: bool

definition cw_new :: "tcp_stream \<Rightarrow> bytes \<Rightarrow> client_writer" where
  "cw_new inner initial_buffer =
     \<lparr>cw_inner = inner, cw_buffer = initial_buffer, cw_packet_counter = 0, cw_send_padding = True\<rparr>"

definition cw_buffer_frame :: "'f anytls_core \<Rightarrow> u8 \<Rightarrow> u32 \<Rightarrow> bytes \<Rightarrow> (client_writer, unit) sm" where
  "cw_buffer_frame core command stream_id data w =
     (case encode_frame core command stream_id data of
        Inl e \<Rightarrow> (Inl e, w)
      | Inr bs \<Rightarrow> (Inr (), w\<lparr>cw_buffer := cw_buffer w @ bs\<rparr>))"

fun write_records :: "bytes list \<Rightarrow> (tcp_stream, unit) sm" where
  "write_records [] = sm_return ()"
| "write_records (r # rs) = sm_bind (tcp_write_all r) (\<lambda>_. write_records rs)"

definition cw_inner_do :: "(tcp_stream, unit) sm \<Rightarrow> (client_writer, unit) sm" where
  "cw_inner_do m w = (case m (cw_inner w) of (r, s) \<Rightarrow> (r, w\<lparr>cw_inner := s\<rparr>))"

definition cw_write_conn ::
    "'f anytls_core \<Rightarrow> ('f \<Rightarrow> u32 \<Rightarrow> int list) \<Rightarrow> bytes \<Rightarrow> 'f padding_plan \<Rightarrow> (client_writer, unit) sm" where
  "cw_write_conn core draw data padding w =
     (let data = (if cw_buffer w \<noteq> [] then cw_buffer w @ data else data);
          w = w\<lparr>cw_buffer := []\<rparr> in
      if cw_send_padding w then
        (let w = w\<lparr>cw_packet_counter := cw_packet_counter w + 1\<rparr> in
         if cw_packet_counter w < plan_stop padding then
           (case shape_packet_payload core draw data (cw_packet_counter w) padding of
              Inl e \<Rightarrow> (Inl e, w)
            | Inr records \<Rightarrow> cw_inner_do (write_records records) w)
         else cw_inner_do (tcp_write_all data) (w\<lparr>cw_send_padding := False\<rparr>))
      else cw_inner_do (tcp_write_all data) w)"

definition cw_write_frame ::
    "'f anytls_core \<Rightarrow> ('f \<Rightarrow> u32 \<Rightarrow> int list) \<Rightarrow> u8 \<Rightarrow> u32 \<Rightarrow> bytes \<Rightarrow> 'f padding_plan \<Rightarrow>
     (client_writer, unit) sm" where
  "cw_write_frame core draw command stream_id data padding w =
     (case encode_frame core command stream_id data of
        Inl e \<Rightarrow> (Inl e, w)
      | Inr frame \<Rightarrow> cw_write_conn core draw frame padding w)"

section \<open>What the peer reads\<close>

text \<open>
  The abstract view of a writer is the list of frames given to it. A writer carries a list of frames
  when the bytes on the connection are whole frames, the buffer is whole frames, and together,
  without the padding, they are that list.
\<close>

definition is_waste :: "frame \<Rightarrow> bool" where
  "is_waste f \<longleftrightarrow> fr_command f = CMD_WASTE"

definition no_waste :: "frame list \<Rightarrow> frame list" where
  "no_waste fs = filter (\<lambda>f. \<not> is_waste f) fs"

definition carries :: "bytes \<Rightarrow> frame list \<Rightarrow> frame list \<Rightarrow> client_writer \<Rightarrow> bool" where
  "carries start sent pending w \<longleftrightarrow>
     wr (cw_inner w) = start @ concat (map frame_bytes sent) \<and>
     cw_buffer w = concat (map frame_bytes pending) \<and>
     list_all frame_fits (sent @ pending) \<and> fault (cw_inner w) = None"

text \<open>The sizes the padding factory draws are those of a scheme, which are 16 bit numbers.\<close>

definition factory_sizes :: "('f \<Rightarrow> u32 \<Rightarrow> int list) \<Rightarrow> bool" where
  "factory_sizes draw \<longleftrightarrow> (\<forall>factory packet. list_all (\<lambda>n. n \<le> 65535) (draw factory packet))"

lemma sizes_fit_draw:
  "factory_sizes draw \<Longrightarrow> sizes_fit (generate_record_payload_steps core draw plan packet)"
  by (fastforce simp: factory_sizes_def sizes_fit_def generate_record_payload_steps_def list_all_iff
      List.map_filter_def nat_le_iff split: if_splits)

lemma write_records_ok:
  "fault s = None \<Longrightarrow> write_records rs s = (Inr (), s\<lparr>wr := wr s @ concat rs\<rparr>)"
  by (induction rs arbitrary: s) (simp_all add: sm_return_def)

lemma frame_bytes_nonempty: "frame_bytes f \<noteq> []"
  by (simp add: frame_bytes_def)

lemma cw_write_conn_carries:
  assumes "frame_format core" "factory_sizes draw" "carries start sent pending w" "frame_fits f"
  shows "\<exists>w' ns. cw_write_conn core draw (frame_bytes f) plan w = (Inr (), w') \<and>
    carries start (sent @ pending @ [f] @ map waste_frame ns) [] w'"
proof -
  let ?data = "concat (map frame_bytes (pending @ [f]))"
  have data: "(if cw_buffer w \<noteq> [] then cw_buffer w @ frame_bytes f else frame_bytes f) = ?data"
    using assms(3) by (simp add: carries_def)
  obtain records ns where r:
      "shape_packet_payload core draw ?data (cw_packet_counter w + 1) plan = Inr records"
      "concat records = ?data @ waste_bytes ns" "list_all (\<lambda>n. n \<le> 65535) ns"
    using shape_packet_payload_spec [OF assms(1) sizes_fit_draw [OF assms(2)]] by blast
  have fits: "list_all frame_fits (map waste_frame ns)"
    using r(3) by (auto simp: list_all_iff frame_fits_def waste_frame_def)
  have inner: "fault (cw_inner w) = None" using assms(3) by (simp add: carries_def)
  show ?thesis
  proof (cases "cw_send_padding w \<and> cw_packet_counter w + 1 < plan_stop plan")
    case True
    let ?w = "w\<lparr>cw_buffer := [], cw_packet_counter := cw_packet_counter w + 1,
      cw_inner := (cw_inner w)\<lparr>wr := wr (cw_inner w) @ concat records\<rparr>\<rparr>"
    have "cw_write_conn core draw (frame_bytes f) plan w = (Inr (), ?w)"
      using True r(1) inner
      by (simp add: cw_write_conn_def Let_def data cw_inner_do_def write_records_ok)
    moreover have "carries start (sent @ pending @ [f] @ map waste_frame ns) [] ?w"
      using assms(3,4) fits r(2) by (simp add: carries_def waste_bytes_def)
    ultimately show ?thesis by blast
  next
    case False
    obtain w' where w': "cw_write_conn core draw (frame_bytes f) plan w = (Inr (), w')"
        "cw_buffer w' = []" "cw_inner w' = (cw_inner w)\<lparr>wr := wr (cw_inner w) @ ?data\<rparr>"
      using False inner
      by (cases "cw_send_padding w") (simp_all add: cw_write_conn_def Let_def data cw_inner_do_def)
    moreover have "carries start (sent @ pending @ [f] @ map waste_frame []) [] w'"
      using assms(3,4) w'(2,3) by (simp add: carries_def)
    ultimately show ?thesis by blast
  qed
qed

lemma cw_write_frame_carries:
  assumes "frame_format core" "factory_sizes draw" "carries start sent pending w" "frame_fits f"
  shows "\<exists>w' ns. cw_write_frame core draw (fr_command f) (fr_stream_id f) (fr_data f) plan w = (Inr (), w') \<and>
    carries start (sent @ pending @ [f] @ map waste_frame ns) [] w'"
  using cw_write_conn_carries [OF assms] encode_frame_bytes [OF assms(1,4)]
  by (simp add: cw_write_frame_def)

lemma cw_buffer_frame_carries:
  assumes "frame_format core" "carries start sent pending w" "frame_fits f"
  shows "\<exists>w'. cw_buffer_frame core (fr_command f) (fr_stream_id f) (fr_data f) w = (Inr (), w') \<and>
    carries start sent (pending @ [f]) w'"
  using assms encode_frame_bytes [OF assms(1,3)] by (simp add: cw_buffer_frame_def carries_def)

text \<open>A sequence of frames given to the writer, each buffered or written with the plan of the moment.\<close>

datatype 'f writer_op = BufferFrame frame | WriteFrame frame "'f padding_plan"

fun op_frame :: "'f writer_op \<Rightarrow> frame" where
  "op_frame (BufferFrame f) = f"
| "op_frame (WriteFrame f _) = f"

fun cw_op :: "'f anytls_core \<Rightarrow> ('f \<Rightarrow> u32 \<Rightarrow> int list) \<Rightarrow> 'f writer_op \<Rightarrow> (client_writer, unit) sm" where
  "cw_op core draw (BufferFrame f) = cw_buffer_frame core (fr_command f) (fr_stream_id f) (fr_data f)"
| "cw_op core draw (WriteFrame f plan) =
     cw_write_frame core draw (fr_command f) (fr_stream_id f) (fr_data f) plan"

fun cw_ops :: "'f anytls_core \<Rightarrow> ('f \<Rightarrow> u32 \<Rightarrow> int list) \<Rightarrow> 'f writer_op list \<Rightarrow> (client_writer, unit) sm" where
  "cw_ops core draw [] = sm_return ()"
| "cw_ops core draw (o1 # os) = sm_bind (cw_op core draw o1) (\<lambda>_. cw_ops core draw os)"

lemma cw_op_carries:
  assumes "frame_format core" "factory_sizes draw" "carries start sent pending w" "frame_fits (op_frame o1)"
  shows "\<exists>w' more ns. cw_op core draw o1 w = (Inr (), w') \<and>
    (\<exists>pending'. carries start (sent @ more @ map waste_frame ns) pending' w' \<and>
       more @ pending' = pending @ [op_frame o1] \<and> (case o1 of BufferFrame _ \<Rightarrow> ns = [] | WriteFrame _ _ \<Rightarrow> pending' = []))"
proof (cases o1)
  case (BufferFrame f)
  with cw_buffer_frame_carries [OF assms(1,3)] assms(4)
  obtain w' where "cw_op core draw o1 w = (Inr (), w')" "carries start sent (pending @ [f]) w'" by auto
  with BufferFrame show ?thesis
    by (intro exI [of _ w'] exI [of _ "[]"]) (auto intro!: exI [of _ "pending @ [f]"])
next
  case (WriteFrame f plan)
  with cw_write_frame_carries [OF assms(1-3)] assms(4)
  obtain w' ns where "cw_op core draw o1 w = (Inr (), w')"
      "carries start (sent @ pending @ [f] @ map waste_frame ns) [] w'" by fastforce
  with WriteFrame show ?thesis
    by (intro exI [of _ w'] exI [of _ "pending @ [f]"] exI [of _ ns]) auto
qed

lemma no_waste_simps [simp]:
  "no_waste [] = []" "no_waste (xs @ ys) = no_waste xs @ no_waste ys" "no_waste (map waste_frame ns) = []"
  by (auto simp: no_waste_def is_waste_def waste_frame_def filter_empty_conv)

lemma no_waste_Cons [simp]: "no_waste (f # fs) = (if is_waste f then no_waste fs else f # no_waste fs)"
  by (simp add: no_waste_def)

lemma no_waste_id: "list_all (\<lambda>f. \<not> is_waste f) fs \<Longrightarrow> no_waste fs = fs"
  by (auto simp: no_waste_def list_all_iff filter_id_conv)

lemma cw_ops_carries:
  assumes "frame_format core" "factory_sizes draw"
    and "list_all (\<lambda>o1. frame_fits (op_frame o1) \<and> \<not> is_waste (op_frame o1)) os"
    and "carries start sent pending w" "list_all (\<lambda>f. \<not> is_waste f) pending"
  shows "\<exists>w' sent' pending'. cw_ops core draw os w = (Inr (), w') \<and> carries start (sent @ sent') pending' w' \<and>
    no_waste sent' @ pending' = pending @ map op_frame os \<and> list_all (\<lambda>f. \<not> is_waste f) pending'"
  using assms(3-5)
proof (induction os arbitrary: sent pending w)
  case Nil
  then show ?case
    by (intro exI [of _ w] exI [of _ "[]"] exI [of _ pending]) (simp add: sm_return_def)
next
  case (Cons o1 os)
  obtain w1 more ns pending1 where s: "cw_op core draw o1 w = (Inr (), w1)"
      "carries start (sent @ more @ map waste_frame ns) pending1 w1" "more @ pending1 = pending @ [op_frame o1]"
    using cw_op_carries [OF assms(1,2) Cons.prems(2), of o1] Cons.prems(1) by auto
  have "list_all (\<lambda>f. \<not> is_waste f) (more @ pending1)" using s(3) Cons.prems(1,3) by simp
  then have clean: "no_waste more = more" "list_all (\<lambda>f. \<not> is_waste f) pending1"
    by (simp_all add: no_waste_id)
  obtain w' sent' pending' where "cw_ops core draw os w1 = (Inr (), w')"
      "carries start ((sent @ more @ map waste_frame ns) @ sent') pending' w'"
      "no_waste sent' @ pending' = pending1 @ map op_frame os" "list_all (\<lambda>f. \<not> is_waste f) pending'"
    using Cons.IH [OF _ s(2) clean(2)] Cons.prems(1) by auto
  with s clean(1) show ?case
    by (intro exI [of _ w'] exI [of _ "more @ map waste_frame ns @ sent'"] exI [of _ pending'])
      (simp flip: append_assoc, simp)
qed

lemma cw_ops_append: "cw_ops core draw (xs @ ys) w =
    sm_bind (cw_ops core draw xs) (\<lambda>_. cw_ops core draw ys) w"
  by (induction xs arbitrary: w) (auto simp: sm_bind_def sm_return_def split: prod.splits sum.splits)

lemma carries_new:
  "list_all frame_fits init \<Longrightarrow> fault inner = None \<Longrightarrow>
   carries (wr inner) [] init (cw_new inner (concat (map frame_bytes init)))"
  by (simp add: carries_def cw_new_def)

text \<open>Writing a frame flushes the buffer: everything given to the writer is on the connection.\<close>

lemma cw_flush:
  assumes "frame_format core" "factory_sizes draw"
    and "list_all (\<lambda>f. frame_fits f \<and> \<not> is_waste f) (init @ map op_frame os @ [f])" "fault inner = None"
  shows "\<exists>w' fs. cw_ops core draw (os @ [WriteFrame f plan]) (cw_new inner (concat (map frame_bytes init))) =
      (Inr (), w') \<and> carries (wr inner) fs [] w' \<and> no_waste fs = init @ map op_frame os @ [f]"
proof -
  have init: "carries (wr inner) [] init (cw_new inner (concat (map frame_bytes init)))"
    using assms(3,4) by (intro carries_new) (auto simp: list_all_iff)
  obtain w1 sent pending where w1: "cw_ops core draw os (cw_new inner (concat (map frame_bytes init))) = (Inr (), w1)"
      "carries (wr inner) sent pending w1" "no_waste sent @ pending = init @ map op_frame os"
      "list_all (\<lambda>f. \<not> is_waste f) pending"
    using cw_ops_carries [OF assms(1,2) _ init, of os] assms(3) by (auto simp: list_all_iff)
  obtain w' ns where w': "cw_op core draw (WriteFrame f plan) w1 = (Inr (), w')"
      "carries (wr inner) (sent @ pending @ [f] @ map waste_frame ns) [] w'"
    using cw_write_frame_carries [OF assms(1,2) w1(2), of f plan] assms(3) by auto
  have "no_waste (sent @ pending @ [f] @ map waste_frame ns) = init @ map op_frame os @ [f]"
    using w1(3,4) no_waste_id [of pending] no_waste_id [of "[f]"] assms(3) by simp
  with w1(1) w' show ?thesis by (auto simp: cw_ops_append sm_bind_def sm_return_def)
qed

text \<open>The client's writer is a FIFO of frames, whatever the padding does. However frames are
  buffered and written, with whatever padding plans and drawn sizes, all writes succeed, and once a
  frame is written through, the peer reads from the connection whole frames which, without padding,
  are exactly the initial frames and the frames given to the writer, in order.\<close>

theorem anytls_writer_fifo:
  assumes "frame_format core" "factory_sizes draw"
    and "list_all (\<lambda>f. frame_fits f \<and> \<not> is_waste f) (init @ map op_frame os @ [f])" "fault inner = None"
  shows "\<exists>w' fs bs. cw_ops core draw (os @ [WriteFrame f plan]) (cw_new inner (concat (map frame_bytes init))) =
      (Inr (), w') \<and>
    wr (cw_inner w') = wr inner @ bs \<and> cw_buffer w' = [] \<and>
    no_waste fs = init @ map op_frame os @ [f] \<and>
    (\<forall>peer rest. read_frames core (length fs) (peer\<lparr>rd := bs @ rest\<rparr>) = (Inr fs, peer\<lparr>rd := rest\<rparr>))"
proof -
  obtain w' fs where w': "cw_ops core draw (os @ [WriteFrame f plan]) (cw_new inner (concat (map frame_bytes init))) =
      (Inr (), w')" "carries (wr inner) fs [] w'" "no_waste fs = init @ map op_frame os @ [f]"
    using cw_flush [OF assms] by blast
  then have "wr (cw_inner w') = wr inner @ concat (map frame_bytes fs)" "cw_buffer w' = []"
      "list_all frame_fits fs" by (simp_all add: carries_def)
  moreover have "read_frames core (length fs) (peer\<lparr>rd := concat (map frame_bytes fs) @ rest\<rparr>) =
      (Inr fs, peer\<lparr>rd := rest\<rparr>)" for peer rest
    using read_frames_bytes [OF assms(1) \<open>list_all frame_fits fs\<close>,
        of "peer\<lparr>rd := concat (map frame_bytes fs) @ rest\<rparr>" rest] by simp
  ultimately show ?thesis using w' by blast
qed

end
