(* ===== verification/Anytls_Outbound.thy ===== *)
theory Anytls_Outbound
  imports Anytls_Writer
begin

text \<open>
  The AnyTLS outbound of \<open>protocol/anytls/outbound.rs\<close>: client sessions with their streams, the pool
  of sessions with its limits, the reader task of a session, and opening a stream. A session is shared
  between tasks; each of its operations is atomic, as the atomics and mutexes of the code make them,
  and takes the time it reads as an argument. TCP and TLS connections are arguments.
\<close>

section \<open>Client sessions\<close>

text \<open>\<open>cs_streams\<close> holds, for each stream, the data sent to its channel so far.\<close>

record client_session =
  cs_id :: usize
  cs_writer :: client_writer
  cs_streams :: "(u32, bytes list) fmap"
  cs_next_stream_id :: u32
  cs_active_streams :: usize
  cs_last_used :: instant
  cs_closed :: bool

definition cs_new :: "usize \<Rightarrow> tcp_stream \<Rightarrow> bytes \<Rightarrow> instant \<Rightarrow> client_session" where
  "cs_new ident writer initial_buffer now =
     \<lparr>cs_id = ident, cs_writer = cw_new writer initial_buffer, cs_streams = fmempty,
      cs_next_stream_id = 1, cs_active_streams = 0, cs_last_used = now, cs_closed = False\<rparr>"

definition cs_close :: "client_session \<Rightarrow> client_session" where
  "cs_close s = s\<lparr>cs_closed := True\<rparr>"

definition cs_touch :: "instant \<Rightarrow> client_session \<Rightarrow> client_session" where
  "cs_touch now s = s\<lparr>cs_last_used := now\<rparr>"

definition is_idle_expired :: "duration \<Rightarrow> instant \<Rightarrow> client_session \<Rightarrow> bool" where
  "is_idle_expired idle_timeout now s \<longleftrightarrow>
     cs_active_streams s = 0 \<and> saturating_duration_since now (cs_last_used s) > idle_timeout"

definition reserve_stream :: "instant \<Rightarrow> (client_session, u32) sm" where
  "reserve_stream now s =
     (if cs_closed s then (Inl (Bail ''anytls session is closed''), s)
      else
        (let ident = cs_next_stream_id s; s = s\<lparr>cs_next_stream_id := ident + 1\<rparr> in
         if ident = 0 then (Inl (Bail ''anytls stream id overflow''), s)
         else (Inr ident, cs_touch now (s\<lparr>cs_active_streams := cs_active_streams s + 1\<rparr>))))"

definition release_stream :: "instant \<Rightarrow> client_session \<Rightarrow> client_session" where
  "release_stream now s =
     (if cs_active_streams s > 0
      then cs_touch now (s\<lparr>cs_active_streams := cs_active_streams s - 1\<rparr>) else s)"

definition cs_remove_stream :: "u32 \<Rightarrow> instant \<Rightarrow> client_session \<Rightarrow> client_session" where
  "cs_remove_stream stream_id now s =
     (if fmlookup (cs_streams s) stream_id \<noteq> None
      then release_stream now (s\<lparr>cs_streams := fmdrop stream_id (cs_streams s)\<rparr>) else s)"

definition clear_streams :: "instant \<Rightarrow> client_session \<Rightarrow> client_session" where
  "clear_streams now s =
     (let cleared = fm_len (cs_streams s); s = s\<lparr>cs_streams := fmempty\<rparr> in
      if cleared > 0 then cs_touch now (s\<lparr>cs_active_streams := 0\<rparr>) else s)"

definition cs_shutdown :: "instant \<Rightarrow> client_session \<Rightarrow> client_session" where
  "cs_shutdown now s = clear_streams now (cs_close s)"

definition cs_writer_do :: "(client_writer, 'a) sm \<Rightarrow> (client_session, 'a) sm" where
  "cs_writer_do m s = (case m (cs_writer s) of (r, w) \<Rightarrow> (r, s\<lparr>cs_writer := w\<rparr>))"

definition cs_buffer_frame :: "'f anytls_core \<Rightarrow> u8 \<Rightarrow> u32 \<Rightarrow> bytes \<Rightarrow> (client_session, unit) sm" where
  "cs_buffer_frame core command stream_id data = cs_writer_do (cw_buffer_frame core command stream_id data)"

definition cs_write_frame ::
    "'f anytls_core \<Rightarrow> ('f \<Rightarrow> u32 \<Rightarrow> int list) \<Rightarrow> 'f client_state \<Rightarrow> u8 \<Rightarrow> u32 \<Rightarrow> bytes \<Rightarrow>
     (client_session, unit) sm" where
  "cs_write_frame core draw state command stream_id data =
     cs_writer_do (cw_write_frame core draw command stream_id data (cst_padding_plan state))"

definition cs_write_connect ::
    "'f anytls_core \<Rightarrow> ('f \<Rightarrow> u32 \<Rightarrow> int list) \<Rightarrow> 'f client_state \<Rightarrow> u32 \<Rightarrow> target_addr \<Rightarrow>
     (client_session, unit) sm" where
  "cs_write_connect core draw state stream_id target =
     sm_bind (cs_buffer_frame core CMD_SYN stream_id []) (\<lambda>_.
     sm_bind (sm_lift (encode_socksaddr target)) (\<lambda>addr.
     cs_write_frame core draw state CMD_PSH stream_id addr))"

definition cs_close_stream ::
    "'f anytls_core \<Rightarrow> ('f \<Rightarrow> u32 \<Rightarrow> int list) \<Rightarrow> 'f client_state \<Rightarrow> u32 \<Rightarrow> instant \<Rightarrow>
     client_session \<Rightarrow> client_session" where
  "cs_close_stream core draw state stream_id now s =
     (case cs_write_frame core draw state CMD_FIN stream_id [] s of
        (written, s) \<Rightarrow>
          let s = cs_remove_stream stream_id now s in
          if is_ok written then s else cs_shutdown now s)"

section \<open>The reader of a session\<close>

text \<open>
  One round of \<open>run_reader\<close>, on the result of reading a frame. \<open>accepted\<close> tells whether the channel of
  the stream takes the data, that is whether its receiver is still alive. The padding state is shared by
  all sessions of the outbound.
\<close>

definition reader_step ::
    "'f anytls_core \<Rightarrow> ('f \<Rightarrow> u32 \<Rightarrow> int list) \<Rightarrow> bool \<Rightarrow> instant \<Rightarrow> frame res \<Rightarrow>
     client_session \<times> 'f client_state \<Rightarrow> (client_session \<times> 'f client_state) flow" where
  "reader_step core draw accepted now frame = (\<lambda>(s, state).
     case frame of
       Inl _ \<Rightarrow> Break
     | Inr fr \<Rightarrow>
         if fr_command fr = CMD_PSH then
           (case fmlookup (cs_streams s) (fr_stream_id fr) of
              None \<Rightarrow> Continue (s, state)
            | Some sofar \<Rightarrow>
                if accepted then
                  Continue (s\<lparr>cs_streams := fmupd (fr_stream_id fr) (sofar @ [fr_data fr]) (cs_streams s)\<rparr>, state)
                else Continue (cs_remove_stream (fr_stream_id fr) now s, state))
         else if fr_command fr = CMD_FIN then
           Continue (cs_remove_stream (fr_stream_id fr) now s, state)
         else if fr_command fr = CMD_SYNACK \<and> fr_data fr \<noteq> [] then
           Continue (cs_remove_stream (fr_stream_id fr) now s, state)
         else if fr_command fr = CMD_HEART_REQUEST then
           Continue (snd (cs_write_frame core draw state CMD_HEART_RESPONSE (fr_stream_id fr) [] s), state)
         else if fr_command fr = CMD_UPDATE_PADDING_SCHEME then
           (case from_utf8 (fr_data fr) of
              Inl _ \<Rightarrow> Continue (s, state)
            | Inr scheme \<Rightarrow>
                (case client_state_from core draw (str_lines scheme) of
                   Inl _ \<Rightarrow> Continue (s, state)
                 | Inr updated \<Rightarrow> Continue (s, updated)))
         else if fr_command fr = CMD_ALERT then Break
         else Continue (s, state))"

fun run_reader ::
    "'f anytls_core \<Rightarrow> ('f \<Rightarrow> u32 \<Rightarrow> int list) \<Rightarrow> (bool \<times> instant \<times> frame res) list \<Rightarrow>
     client_session \<times> 'f client_state \<Rightarrow> client_session \<times> 'f client_state" where
  "run_reader core draw [] st = st"
| "run_reader core draw ((accepted, now, frame) # rest) st =
     (case reader_step core draw accepted now frame st of
        Continue st' \<Rightarrow> run_reader core draw rest st'
      | _ \<Rightarrow> (clear_streams now (cs_close (fst st)), snd st))"

section \<open>The pool\<close>

record client_session_tuning =
  tuning_max_streams :: "usize option"
  tuning_max_connections :: "usize option"
  tuning_connection_idle_timeout :: duration

definition tuning_from_config :: "outbound_config \<Rightarrow> client_session_tuning" where
  "tuning_from_config cfg =
     \<lparr>tuning_max_streams = anytls_max_streams cfg, tuning_max_connections = max_connections cfg,
      tuning_connection_idle_timeout = anytls_connection_idle_timeout cfg\<rparr>"

type_synonym client_session_pool = "client_session list"

datatype client_session_removal_reason = Closed | IdleExpired

record removed_client_session =
  rm_session :: client_session
  rm_reason :: client_session_removal_reason
  rm_idle_for :: duration

fun remove_closed_and_expired ::
    "duration \<Rightarrow> instant \<Rightarrow> client_session_pool \<Rightarrow> removed_client_session list \<times> client_session_pool" where
  "remove_closed_and_expired idle_timeout now [] = ([], [])"
| "remove_closed_and_expired idle_timeout now (s # pool) =
     (case remove_closed_and_expired idle_timeout now pool of
        (removed, kept) \<Rightarrow>
          if cs_closed s then
            (\<lparr>rm_session = s, rm_reason = Closed,
              rm_idle_for = saturating_duration_since now (cs_last_used s)\<rparr> # removed, kept)
          else if is_idle_expired idle_timeout now s then
            (\<lparr>rm_session = cs_close s, rm_reason = IdleExpired,
              rm_idle_for = saturating_duration_since now (cs_last_used s)\<rparr> # removed, kept)
          else (removed, s # kept))"

text \<open>\<open>Iterator::max_by_key\<close> returns the last maximum, \<open>Iterator::min_by\<close> the first minimum.\<close>

fun max_by_key :: "('a \<Rightarrow> nat) \<Rightarrow> 'a list \<Rightarrow> 'a option" where
  "max_by_key key [] = None"
| "max_by_key key (x # xs) = Some (foldl (\<lambda>best y. if key best \<le> key y then y else best) x xs)"

fun min_by :: "('a \<Rightarrow> 'a \<Rightarrow> bool) \<Rightarrow> 'a list \<Rightarrow> 'a option" where
  "min_by lt [] = None"
| "min_by lt (x # xs) = Some (foldl (\<lambda>best y. if lt y best then y else best) x xs)"

definition freshest_idle :: "client_session_pool \<Rightarrow> client_session option" where
  "freshest_idle pool = max_by_key cs_last_used (filter (\<lambda>s. cs_active_streams s = 0) pool)"

definition freshest_session :: "client_session_pool \<Rightarrow> client_session option" where
  "freshest_session pool = max_by_key cs_last_used pool"

definition less_busy :: "client_session \<Rightarrow> client_session \<Rightarrow> bool" where
  "less_busy left right \<longleftrightarrow>
     cs_active_streams left < cs_active_streams right \<or>
     cs_active_streams left = cs_active_streams right \<and> cs_last_used right < cs_last_used left"

definition least_busy_active :: "usize option \<Rightarrow> client_session_pool \<Rightarrow> client_session option" where
  "least_busy_active limit pool =
     min_by less_busy (filter (\<lambda>s. cs_active_streams s > 0 \<and>
       (case limit of None \<Rightarrow> True | Some mx \<Rightarrow> cs_active_streams s < mx)) pool)"

definition select :: "client_session_tuning \<Rightarrow> client_session_pool \<Rightarrow> client_session option" where
  "select tuning pool =
     (case freshest_idle pool of
        Some s \<Rightarrow> Some s
      | None \<Rightarrow>
          (case tuning_max_connections tuning of
             Some limit \<Rightarrow>
               if length pool < limit then None else least_busy_active None pool
           | None \<Rightarrow>
               (case tuning_max_streams tuning of
                  Some limit \<Rightarrow> least_busy_active (Some limit) pool
                | None \<Rightarrow> freshest_session pool)))"

definition connection_cleanup_interval :: "duration \<Rightarrow> duration" where
  "connection_cleanup_interval idle_timeout =
     (let half_timeout = idle_timeout div 2 in
      if half_timeout < from_millis 10 then from_millis 10
      else if half_timeout > from_secs 30 then from_secs 30
      else half_timeout)"

section \<open>Opening streams\<close>

text \<open>
  A new connection: the TCP connection and the TLS handshake for a server name are arguments. The
  session identifiers are taken from a counter of machine words.
\<close>

definition connect_session ::
    "'f anytls_core \<Rightarrow> (bytes \<Rightarrow> bytes) \<Rightarrow> (server_addr \<Rightarrow> 'c res) \<Rightarrow> (string \<Rightarrow> 'c \<Rightarrow> tcp_stream res) \<Rightarrow>
     outbound_config \<Rightarrow> 'f client_state \<Rightarrow> instant \<Rightarrow> usize \<Rightarrow> client_session res \<times> usize" where
  "connect_session core sha256 connect_tcp connect_tls cfg state now next_session_id =
     (case
        and_then (require_server cfg) (\<lambda>server.
        and_then (connect_tcp server) (\<lambda>tcp.
        and_then (tls_server_name cfg) (\<lambda>server_name.
        and_then (connect_tls server_name tcp) (\<lambda>stream.
        and_then (ok_or (out_password cfg) (Bail ''anytls outbound requires password'')) (\<lambda>password.
        case write_client_hello_with_padding sha256 password (cst_padding0_len state) stream of
          (Inl e, _) \<Rightarrow> Inl e
        | (Inr _, stream) \<Rightarrow>
            and_then (encode_frame core CMD_SETTINGS 0
              (client_settings_with_padding_md5 (cst_padding_md5 state))) (\<lambda>settings_frame.
            Inr (stream, settings_frame))))))) of
        Inl e \<Rightarrow> (Inl e, next_session_id)
      | Inr (stream, settings_frame) \<Rightarrow>
          (Inr (cs_new next_session_id stream settings_frame now), (next_session_id + 1) mod 2 ^ 64))"

text \<open>
  One round of the loop in \<open>open_stream\<close>. Between its two critical sections other tasks may change
  the pool (\<open>between\<close>); while the connection is made they may change the sessions (\<open>during\<close>).
  A session of the pool is updated in place.
\<close>

definition update_session :: "client_session \<Rightarrow> client_session_pool \<Rightarrow> client_session_pool" where
  "update_session s pool = map (\<lambda>t. if cs_id t = cs_id s then s else t) pool"

datatype open_result = Opened usize u32 | OpenFailed error | Retry

record open_round =
  or_cleanup :: instant
  or_between :: "client_session_pool \<Rightarrow> client_session_pool"
  or_reserve :: instant
  or_discard :: instant
  or_connect :: "client_session res"
  or_during :: "client_session_pool \<Rightarrow> client_session_pool"

definition reserve_in_pool ::
    "client_session_tuning \<Rightarrow> open_round \<Rightarrow> client_session \<Rightarrow> client_session_pool \<Rightarrow>
     open_result \<times> client_session_pool" where
  "reserve_in_pool tuning r s pool =
     (case reserve_stream (or_reserve r) s of
        (Inr stream_id, s) \<Rightarrow> (Opened (cs_id s) stream_id, update_session s pool)
      | (Inl e, s) \<Rightarrow>
          if cs_closed s
          then (Retry, snd (remove_closed_and_expired (tuning_connection_idle_timeout tuning) (or_discard r)
            (update_session s pool)))
          else (OpenFailed e, update_session s pool))"

definition connect_to_pool :: "open_round \<Rightarrow> client_session_pool \<Rightarrow> open_result \<times> client_session_pool" where
  "connect_to_pool r pool =
     (case or_connect r of
        Inl e \<Rightarrow> (OpenFailed e, or_during r pool)
      | Inr s \<Rightarrow>
          (case reserve_stream (or_reserve r) s of
             (Inl e, _) \<Rightarrow> (OpenFailed e, or_during r pool)
           | (Inr stream_id, s) \<Rightarrow> (Opened (cs_id s) stream_id, or_during r pool @ [s])))"

definition open_stream_round ::
    "client_session_tuning \<Rightarrow> open_round \<Rightarrow> client_session_pool \<Rightarrow> open_result \<times> client_session_pool" where
  "open_stream_round tuning r pool =
     (let pool = or_between r (snd (remove_closed_and_expired (tuning_connection_idle_timeout tuning)
        (or_cleanup r) pool)) in
      case select tuning pool of
        Some s \<Rightarrow> reserve_in_pool tuning r s pool
      | None \<Rightarrow> connect_to_pool r pool)"

fun open_stream ::
    "client_session_tuning \<Rightarrow> open_round list \<Rightarrow> client_session_pool \<Rightarrow>
     open_result option \<times> client_session_pool" where
  "open_stream tuning [] pool = (None, pool)"
| "open_stream tuning (r # rs) pool =
     (case open_stream_round tuning r pool of
        (Retry, pool) \<Rightarrow> open_stream tuning rs pool
      | (result, pool) \<Rightarrow> (Some result, pool))"

text \<open>
  \<open>dial\<close> after a stream was reserved, and one round of the task that relays what the application
  writes: the result of a read, of which no bytes is the end.
\<close>

definition dial_stream ::
    "'f anytls_core \<Rightarrow> ('f \<Rightarrow> u32 \<Rightarrow> int list) \<Rightarrow> 'f client_state \<Rightarrow> u32 \<Rightarrow> target_addr \<Rightarrow> instant \<Rightarrow>
     (client_session, unit) sm" where
  "dial_stream core draw state stream_id target now s =
     (case cs_write_connect core draw state stream_id target
         (s\<lparr>cs_streams := fmupd stream_id [] (cs_streams s)\<rparr>) of
        (Inl e, s) \<Rightarrow> (Inl e, cs_shutdown now s)
      | (Inr _, s) \<Rightarrow> (Inr (), s))"

definition app_relay_step ::
    "'f anytls_core \<Rightarrow> ('f \<Rightarrow> u32 \<Rightarrow> int list) \<Rightarrow> 'f client_state \<Rightarrow> u32 \<Rightarrow> instant \<Rightarrow> bytes res \<Rightarrow>
     client_session \<Rightarrow> bool \<times> client_session" where
  "app_relay_step core draw state stream_id now read s =
     (case read of
        Inl _ \<Rightarrow> (False, cs_close_stream core draw state stream_id now s)
      | Inr data \<Rightarrow>
          if data = [] then (False, cs_close_stream core draw state stream_id now s)
          else
            (case cs_write_frame core draw state CMD_PSH stream_id data s of
               (Inr _, s) \<Rightarrow> (True, s)
             | (Inl _, s) \<Rightarrow> (False, cs_shutdown now s)))"

text \<open>
  The whole of \<open>dial\<close>: the session that was opened is one of the pool. With no result the loop of
  \<open>open_stream\<close> has not ended within the given rounds.
\<close>

definition anytls_dial ::
    "'f anytls_core \<Rightarrow> ('f \<Rightarrow> u32 \<Rightarrow> int list) \<Rightarrow> 'f client_state \<Rightarrow> client_session_tuning \<Rightarrow>
     open_round list \<Rightarrow> instant \<Rightarrow> session \<Rightarrow> (client_session_pool, (usize \<times> u32) option) sm" where
  "anytls_dial core draw state tuning rounds now session pool =
     (if sess_command session \<noteq> Connect
      then (Inl (Bail ''anytls outbound only supports CONNECT''), pool)
      else
        case open_stream tuning rounds pool of
          (Some (Opened session_id stream_id), pool) \<Rightarrow>
            (case dial_stream core draw state stream_id (sess_target session) now
                (the (find (\<lambda>s. cs_id s = session_id) pool)) of
               (Inl e, s) \<Rightarrow> (Inl e, update_session s pool)
             | (Inr _, s) \<Rightarrow> (Inr (Some (session_id, stream_id)), update_session s pool))
        | (Some (OpenFailed e), pool) \<Rightarrow> (Inl e, pool)
        | (_, pool) \<Rightarrow> (Inr None, pool))"

text \<open>One tick of the connection cleaner: the sessions that leave the pool are shut down.\<close>

definition shutdown_sessions :: "instant \<Rightarrow> removed_client_session list \<Rightarrow> client_session list" where
  "shutdown_sessions now removed = map (\<lambda>r. cs_shutdown now (rm_session r)) removed"

definition connection_cleaner_tick ::
    "duration \<Rightarrow> instant \<Rightarrow> instant \<Rightarrow> client_session_pool \<Rightarrow> client_session list \<times> client_session_pool" where
  "connection_cleaner_tick idle_timeout now shutdown_at pool =
     (case remove_closed_and_expired idle_timeout now pool of
        (expired, pool) \<Rightarrow> (shutdown_sessions shutdown_at expired, pool))"

section \<open>Choosing a session\<close>

lemma max_by_key_None [simp]: "max_by_key key xs = None \<longleftrightarrow> xs = []"
  by (cases xs) simp_all

lemma min_by_None [simp]: "min_by lt xs = None \<longleftrightarrow> xs = []"
  by (cases xs) simp_all

lemma max_by_key_Some:
  assumes "max_by_key key xs = Some x"
  shows "x \<in> set xs \<and> (\<forall>y \<in> set xs. key y \<le> key x)"
proof -
  have "foldl (\<lambda>best y. if key best \<le> key y then y else best) x0 xs \<in> insert x0 (set xs) \<and>
      (\<forall>y \<in> insert x0 (set xs). key y \<le> key (foldl (\<lambda>best y. if key best \<le> key y then y else best) x0 xs))"
    for x0 xs
  proof (induction xs arbitrary: x0)
    case (Cons y ys)
    let ?b = "if key x0 \<le> key y then y else x0"
    have "key x0 \<le> key ?b" "key y \<le> key ?b" by simp_all
    then show ?case using Cons [of ?b] by (auto split: if_splits intro: order_trans)
  qed simp
  with assms show ?thesis by (cases xs) auto
qed

lemma min_by_Some:
  assumes "min_by lt xs = Some x"
    and "\<And>a. \<not> lt a a" "\<And>a b c. lt a b \<Longrightarrow> lt b c \<Longrightarrow> lt a c"
  shows "x \<in> set xs \<and> (\<forall>y \<in> set xs. \<not> lt y x)"
proof -
  let ?f = "\<lambda>best y. if lt y best then y else best"
  have "foldl ?f x0 xs \<in> insert x0 (set xs) \<and> (\<forall>y \<in> insert x0 (set xs). \<not> lt y (foldl ?f x0 xs)) \<and>
      (\<forall>z. \<not> lt z x0 \<longrightarrow> \<not> lt z (foldl ?f x0 xs))" for x0 xs
  proof (induction xs arbitrary: x0)
    case Nil
    then show ?case using assms(2) by simp
  next
    case (Cons y ys)
    have "\<not> lt x0 (?f x0 y)" "\<not> lt y (?f x0 y)" "\<And>z. \<not> lt z x0 \<Longrightarrow> \<not> lt z (?f x0 y)"
      using assms(2,3) by auto
    with Cons [of "?f x0 y"] show ?case by auto
  qed
  with assms(1) show ?thesis by (cases xs) auto
qed

lemma less_busy_order:
  "\<not> less_busy a a" "less_busy a b \<Longrightarrow> less_busy b c \<Longrightarrow> less_busy a c"
  by (auto simp: less_busy_def)

end
