(* ===== verification/Anytls_Pool.thy ===== *)
theory Anytls_Pool
  imports Anytls_Outbound
begin

text \<open>
  What the connection pool of the AnyTLS outbound guarantees: which session \<open>select\<close> returns, that the
  configured limits hold whatever other tasks do between the critical sections, when the loop of
  \<open>open_stream\<close> ends, what the cleaner removes and when, and that the count of active streams is exact.
\<close>

section \<open>Selection\<close>

definition idle :: "client_session \<Rightarrow> bool" where
  "idle s \<longleftrightarrow> cs_active_streams s = 0"

lemma freshest_idle_Some:
  "freshest_idle pool = Some s \<Longrightarrow>
     s \<in> set pool \<and> idle s \<and> (\<forall>t \<in> set pool. idle t \<longrightarrow> cs_last_used t \<le> cs_last_used s)"
  unfolding freshest_idle_def by (drule max_by_key_Some) (auto simp: idle_def)

lemma freshest_idle_None: "freshest_idle pool = None \<longleftrightarrow> (\<forall>t \<in> set pool. \<not> idle t)"
  by (auto simp: freshest_idle_def idle_def filter_empty_conv)

lemma least_busy_active_Some:
  assumes "least_busy_active limit pool = Some s"
  shows "s \<in> set pool \<and> 0 < cs_active_streams s \<and>
    (\<forall>m. limit = Some m \<longrightarrow> cs_active_streams s < m) \<and>
    (\<forall>t \<in> set pool. \<not> idle t \<longrightarrow> cs_active_streams s \<le> cs_active_streams t \<and>
       (cs_active_streams s = cs_active_streams t \<longrightarrow> cs_last_used t \<le> cs_last_used s))"
proof -
  let ?usable = "\<lambda>s. cs_active_streams s > 0 \<and>
    (case limit of None \<Rightarrow> True | Some mx \<Rightarrow> cs_active_streams s < mx)"
  have s: "s \<in> set (filter ?usable pool) \<and> (\<forall>t \<in> set (filter ?usable pool). \<not> less_busy t s)"
    using min_by_Some [OF assms [unfolded least_busy_active_def]] less_busy_order by blast
  have "cs_active_streams s \<le> cs_active_streams t \<and>
      (cs_active_streams s = cs_active_streams t \<longrightarrow> cs_last_used t \<le> cs_last_used s)"
    if t: "t \<in> set pool" "\<not> idle t" for t
  proof (cases "?usable t")
    case True
    then have "\<not> less_busy t s" using s t by simp
    then show ?thesis by (auto simp: less_busy_def)
  next
    case False
    then obtain m where "limit = Some m" "m \<le> cs_active_streams t"
      using t by (cases limit) (auto simp: idle_def)
    then show ?thesis using s by auto
  qed
  with s show ?thesis by auto
qed

lemma least_busy_active_None:
  "least_busy_active limit pool = None \<longleftrightarrow>
     (\<forall>t \<in> set pool. \<not> idle t \<longrightarrow> (\<exists>m. limit = Some m \<and> m \<le> cs_active_streams t))"
  by (cases limit) (auto simp: least_busy_active_def idle_def filter_empty_conv)

text \<open>C22: The pool reuses connections as far as its limits allow. An idle session is always preferred,
  the most recently used one first. Without one, a pool limited by connections opens a new connection
  exactly while there is room, and a pool limited by streams exactly when every session is full;
  otherwise the session chosen carries the fewest streams of all, the most recently used one among
  equals.\<close>

theorem anytls_pool_select:
  assumes "tuning_max_connections tuning = None \<longrightarrow> tuning_max_streams tuning \<noteq> None"
  shows "case select tuning pool of
      None \<Rightarrow> (\<forall>t \<in> set pool. \<not> idle t) \<and>
        (case tuning_max_connections tuning of
           Some c \<Rightarrow> length pool < c \<or> pool = []
         | None \<Rightarrow> \<forall>t \<in> set pool. the (tuning_max_streams tuning) \<le> cs_active_streams t)
    | Some s \<Rightarrow> s \<in> set pool \<and>
        (if \<exists>t \<in> set pool. idle t then
           idle s \<and> (\<forall>t \<in> set pool. idle t \<longrightarrow> cs_last_used t \<le> cs_last_used s)
         else
           (case tuning_max_connections tuning of
              Some c \<Rightarrow> c \<le> length pool
            | None \<Rightarrow> cs_active_streams s < the (tuning_max_streams tuning)) \<and>
           (\<forall>t \<in> set pool. cs_active_streams s \<le> cs_active_streams t \<and>
              (cs_active_streams s = cs_active_streams t \<longrightarrow> cs_last_used t \<le> cs_last_used s)))"
proof (cases "freshest_idle pool")
  case (Some s)
  with freshest_idle_Some [OF Some] show ?thesis by (auto simp: select_def)
next
  case None
  then have busy: "\<forall>t \<in> set pool. \<not> idle t" by (simp add: freshest_idle_None)
  let ?limit = "case tuning_max_connections tuning of Some _ \<Rightarrow> None | None \<Rightarrow> tuning_max_streams tuning"
  have select: "select tuning pool =
      (case tuning_max_connections tuning of
         Some c \<Rightarrow> if length pool < c then None else least_busy_active None pool
       | None \<Rightarrow> least_busy_active (tuning_max_streams tuning) pool)"
    using None assms by (auto simp: select_def split: option.splits)
  show ?thesis
  proof (cases "select tuning pool")
    case None
    then show ?thesis
      using busy select assms
      by (auto simp: least_busy_active_None split: option.splits if_splits)
  next
    case (Some s)
    then have "least_busy_active ?limit pool = Some s" "\<forall>c. tuning_max_connections tuning = Some c \<longrightarrow> c \<le> length pool"
      using select by (auto split: option.splits if_splits)
    with least_busy_active_Some [OF this(1)] Some busy assms show ?thesis
      by (auto split: option.splits)
  qed
qed

definition demo_writer :: tcp_stream where
  "demo_writer = \<lparr>rd = [], wr = [], fault = None\<rparr>"

definition demo_session_with :: "usize \<Rightarrow> usize \<Rightarrow> instant \<Rightarrow> client_session" where
  "demo_session_with ident active used =
     (cs_new ident demo_writer [] used)\<lparr>cs_active_streams := active\<rparr>"

definition demo_tuning :: client_session_tuning where
  "demo_tuning = \<lparr>tuning_max_streams = Some 2, tuning_max_connections = None,
     tuning_connection_idle_timeout = 10\<rparr>"

theorem anytls_pool_select_witness:
  "select demo_tuning [demo_session_with 1 2 5, demo_session_with 2 1 3, demo_session_with 3 1 4] =
     Some (demo_session_with 3 1 4) \<and> cs_active_streams (demo_session_with 3 1 4) < 2"
proof -
  let ?pool = "[demo_session_with 1 2 5, demo_session_with 2 1 3, demo_session_with 3 1 4]"
  have s: "select demo_tuning ?pool = Some (demo_session_with 3 1 4)"
    by (simp add: select_def freshest_idle_def least_busy_active_def less_busy_def demo_tuning_def
        demo_session_with_def cs_new_def)
  have "\<not> idle (demo_session_with 1 2 5)" "\<not> idle (demo_session_with 2 1 3)" "\<not> idle (demo_session_with 3 1 4)"
    by (simp_all add: idle_def demo_session_with_def)
  with anytls_pool_select [of demo_tuning ?pool] s show ?thesis by (simp add: demo_tuning_def)
qed

section \<open>Removal\<close>

definition usable :: "duration \<Rightarrow> instant \<Rightarrow> client_session \<Rightarrow> bool" where
  "usable timeout now s \<longleftrightarrow>
     \<not> cs_closed s \<and> (cs_active_streams s > 0 \<or> now \<le> cs_last_used s + timeout)"

lemma usable_iff: "usable timeout now s \<longleftrightarrow> \<not> cs_closed s \<and> \<not> is_idle_expired timeout now s"
  by (auto simp: usable_def is_idle_expired_def saturating_duration_since_def)

lemma remove_kept:
  "snd (remove_closed_and_expired timeout now pool) = filter (usable timeout now) pool"
  by (induction pool) (auto simp: usable_iff split: prod.splits)

lemma remove_removed:
  "map (cs_id \<circ> rm_session) (fst (remove_closed_and_expired timeout now pool)) =
     map cs_id (filter (\<lambda>s. \<not> usable timeout now s) pool)"
  by (induction pool) (auto simp: usable_iff cs_close_def split: prod.splits)

lemma remove_closes: "list_all (cs_closed \<circ> rm_session) (fst (remove_closed_and_expired timeout now pool))"
  by (induction pool) (auto simp: cs_close_def split: prod.splits)

text \<open>The cleaner is exact. It keeps, in order, the sessions that are open and either carry a
  stream or were used within the idle timeout, and it shuts down all others: they are closed and
  without streams, and no stream can be opened on them any more.\<close>

theorem anytls_cleanup_exact:
  "case connection_cleaner_tick timeout now later pool of (down, kept) \<Rightarrow>
     kept = filter (usable timeout now) pool \<and>
     map cs_id down = map cs_id (filter (\<lambda>s. \<not> usable timeout now s) pool) \<and>
     list_all (\<lambda>s. cs_streams s = fmempty \<and> (\<exists>e s'. reserve_stream t s = (Inl e, s'))) down"
proof -
  obtain removed kept where r: "remove_closed_and_expired timeout now pool = (removed, kept)"
    by (cases "remove_closed_and_expired timeout now pool")
  have "cs_closed (cs_shutdown later s) \<and> cs_streams (cs_shutdown later s) = fmempty \<and>
      cs_id (cs_shutdown later s) = cs_id s" for s
    by (simp add: cs_shutdown_def clear_streams_def cs_close_def cs_touch_def Let_def)
  with r remove_kept [of timeout now pool] remove_removed [of timeout now pool] show ?thesis
    by (simp add: connection_cleaner_tick_def shutdown_sessions_def list_all_iff reserve_stream_def comp_def)
qed

text \<open>The cleaner runs every 10 milliseconds to 30 seconds, and often enough for the idle timeout:
  of its ticks, started at any time, one falls after a session has been idle for the timeout and no
  later than one interval after that; at that tick the session, if still idle, is removed. Where half
  the timeout is between the bounds, the interval is half the timeout.\<close>

theorem anytls_idle_session_removed:
  assumes "start \<le> cs_last_used s + timeout" "idle s"
  shows "from_millis 10 \<le> connection_cleanup_interval timeout \<and>
    connection_cleanup_interval timeout \<le> from_secs 30 \<and>
    (from_millis 20 \<le> timeout \<and> timeout \<le> from_secs 60 \<longrightarrow> connection_cleanup_interval timeout = timeout div 2) \<and>
    (\<exists>k. let tick = start + k * connection_cleanup_interval timeout in
       cs_last_used s + timeout < tick \<and> tick \<le> cs_last_used s + timeout + connection_cleanup_interval timeout \<and>
       s \<notin> set (snd (remove_closed_and_expired timeout tick pool)))"
proof -
  let ?i = "connection_cleanup_interval timeout"
  let ?d = "cs_last_used s + timeout - start"
  have i: "from_millis 10 \<le> ?i" "?i \<le> from_secs 30"
      "from_millis 20 \<le> timeout \<and> timeout \<le> from_secs 60 \<longrightarrow> ?i = timeout div 2"
    by (auto simp: connection_cleanup_interval_def Let_def from_millis_def from_secs_def)
  then have pos: "0 < ?i" by (simp add: from_millis_def)
  let ?k = "?d div ?i + 1"
  have "?d div ?i * ?i \<le> ?d" by (rule div_times_less_eq_dividend)
  moreover have "?d < ?i + ?d div ?i * ?i" using pos by (rule dividend_less_div_times)
  moreover have "?k * ?i = ?i + ?d div ?i * ?i" by simp
  ultimately have tick: "cs_last_used s + timeout < start + ?k * ?i"
      "start + ?k * ?i \<le> cs_last_used s + timeout + ?i"
    using assms(1) by linarith+
  have "\<not> usable timeout (start + ?k * ?i) s"
    using tick(1) assms(2) by (simp add: usable_def idle_def)
  then have "s \<notin> set (snd (remove_closed_and_expired timeout (start + ?k * ?i) pool))"
    by (simp add: remove_kept)
  with i tick show ?thesis unfolding Let_def by blast
qed

section \<open>Limits\<close>

definition limits_hold :: "client_session_tuning \<Rightarrow> client_session_pool \<Rightarrow> bool" where
  "limits_hold tuning pool \<longleftrightarrow>
     (case tuning_max_connections tuning of
        Some c \<Rightarrow> length pool \<le> c
      | None \<Rightarrow> \<forall>m. tuning_max_streams tuning = Some m \<longrightarrow> (\<forall>s \<in> set pool. cs_active_streams s \<le> m))"

text \<open>
  What a round relies on: other tasks keep the limits; while a connection is made they cannot add
  sessions, since the pool is locked; and a session that was just connected carries no stream.
\<close>

definition rely :: "client_session_tuning \<Rightarrow> open_round \<Rightarrow> bool" where
  "rely tuning r \<longleftrightarrow>
     (\<forall>pool. limits_hold tuning pool \<longrightarrow> limits_hold tuning (or_between r pool) \<and> limits_hold tuning (or_during r pool)) \<and>
     (\<forall>pool. length (or_during r pool) = length pool) \<and>
     (\<forall>s. or_connect r = Inr s \<longrightarrow> cs_active_streams s = 0)"

definition positive :: "client_session_tuning \<Rightarrow> bool" where
  "positive tuning \<longleftrightarrow>
     (case tuning_max_connections tuning of
        Some c \<Rightarrow> 0 < c | None \<Rightarrow> \<exists>m > 0. tuning_max_streams tuning = Some m)"

lemma positive_config:
  "validate_outbound cfg = Inr () \<Longrightarrow> out_protocol cfg = Anytls \<Longrightarrow> positive (tuning_from_config cfg)"
  by (auto simp: validate_outbound_iff pool_ok_def positive_def tuning_from_config_def anytls_max_streams_def
      split: option.splits if_splits)

lemma limits_filter: "limits_hold tuning pool \<Longrightarrow> limits_hold tuning (filter P pool)"
  by (auto simp: limits_hold_def split: option.splits intro: le_trans [OF length_filter_le])

lemma reserve_stream_Inr:
  "reserve_stream now s = (Inr i, s') \<Longrightarrow>
     \<not> cs_closed s \<and> i = cs_next_stream_id s \<and> i \<noteq> 0 \<and> cs_id s' = cs_id s \<and> \<not> cs_closed s' \<and>
     cs_active_streams s' = cs_active_streams s + 1 \<and> cs_streams s' = cs_streams s \<and>
     cs_next_stream_id s' = i + 1"
  by (auto simp: reserve_stream_def Let_def cs_touch_def split: if_splits)

lemma reserve_stream_Inl:
  "reserve_stream now s = (Inl e, s') \<Longrightarrow>
     cs_id s' = cs_id s \<and> cs_closed s' = cs_closed s \<and> cs_active_streams s' = cs_active_streams s"
  by (auto simp: reserve_stream_def Let_def split: if_splits)

lemma select_member: "select tuning pool = Some s \<Longrightarrow> s \<in> set pool"
  by (auto simp: select_def freshest_session_def dest!: freshest_idle_Some least_busy_active_Some max_by_key_Some
      split: option.splits if_splits)

lemma select_room:
  assumes "positive tuning" "select tuning pool = Some s" "tuning_max_connections tuning = None"
    and "tuning_max_streams tuning = Some m"
  shows "cs_active_streams s < m"
  using assms
  by (auto simp: select_def positive_def idle_def dest!: freshest_idle_Some least_busy_active_Some
      split: option.splits)

lemma limits_update:
  assumes "limits_hold tuning pool"
    and "\<And>m. tuning_max_connections tuning = None \<Longrightarrow> tuning_max_streams tuning = Some m \<Longrightarrow> cs_active_streams s \<le> m"
  shows "limits_hold tuning (update_session s pool)"
  using assms by (auto simp: limits_hold_def update_session_def split: option.splits)

lemma select_None_room:
  assumes "select tuning pool = None" "tuning_max_connections tuning = Some c" "positive tuning"
  shows "length pool < c"
  using assms
  by (cases pool)
    (auto simp: select_def positive_def least_busy_active_None freshest_idle_None split: option.splits if_splits)

definition opened_in :: "open_result \<Rightarrow> client_session_pool \<Rightarrow> bool" where
  "opened_in result pool \<longleftrightarrow>
     (case result of
        Opened ident stream_id \<Rightarrow> stream_id \<noteq> 0 \<and>
          (\<exists>s \<in> set pool. cs_id s = ident \<and> \<not> cs_closed s \<and> 0 < cs_active_streams s)
      | _ \<Rightarrow> True)"

lemma reserve_in_pool_limits:
  assumes "positive tuning" "limits_hold tuning pool" "select tuning pool = Some s"
    and "reserve_in_pool tuning r s pool = (result, pool')"
  shows "limits_hold tuning pool' \<and> opened_in result pool'"
proof -
  obtain res s' where rs: "reserve_stream (or_reserve r) s = (res, s')"
    by (cases "reserve_stream (or_reserve r) s")
  show ?thesis
  proof (cases res)
    case (Inl e)
    note s' = reserve_stream_Inl [OF rs [unfolded Inl]]
    have "limits_hold tuning (update_session s' pool)"
      using select_room [OF assms(1,3)] s' by (intro limits_update [OF assms(2)]) fastforce
    then show ?thesis
      using assms(4) rs Inl limits_filter
      by (auto simp: reserve_in_pool_def remove_kept opened_in_def split: if_splits)
  next
    case (Inr i)
    note s' = reserve_stream_Inr [OF rs [unfolded Inr]]
    have "limits_hold tuning (update_session s' pool)"
      using select_room [OF assms(1,3)] s' by (intro limits_update [OF assms(2)]) (auto simp: Suc_le_eq)
    moreover have "s' \<in> set (update_session s' pool)"
      using select_member [OF assms(3)] s' by (force simp: update_session_def)
    ultimately show ?thesis
      using assms(4) rs Inr s' by (auto simp: reserve_in_pool_def opened_in_def intro!: bexI [of _ s'])
  qed
qed

lemma connect_to_pool_limits:
  assumes "positive tuning" "rely tuning r" "limits_hold tuning pool" "select tuning pool = None"
    and "connect_to_pool r pool = (result, pool')"
  shows "limits_hold tuning pool' \<and> opened_in result pool'"
proof -
  have d: "limits_hold tuning (or_during r pool)" "length (or_during r pool) = length pool"
    using assms(2,3) by (simp_all add: rely_def)
  show ?thesis
  proof (cases "or_connect r")
    case (Inl e)
    then show ?thesis using assms(5) d by (auto simp: connect_to_pool_def opened_in_def)
  next
    case (Inr s)
    then have zero: "cs_active_streams s = 0" using assms(2) by (simp add: rely_def)
    obtain res s' where rs: "reserve_stream (or_reserve r) s = (res, s')"
      by (cases "reserve_stream (or_reserve r) s")
    show ?thesis
    proof (cases res)
      case fails: (Inl e)
      then show ?thesis using assms(5) d Inr rs by (auto simp: connect_to_pool_def opened_in_def)
    next
      case ok: (Inr i)
      note s' = reserve_stream_Inr [OF rs [unfolded ok]]
      have "limits_hold tuning (or_during r pool @ [s'])"
        using d select_None_room [OF assms(4) _ assms(1)] zero s' assms(1)
        by (auto simp: limits_hold_def positive_def Suc_le_eq split: option.splits)
      then show ?thesis
        using assms(5) Inr rs ok s' by (auto simp: connect_to_pool_def opened_in_def intro!: bexI [of _ s'])
    qed
  qed
qed

lemma open_stream_round_limits:
  assumes "positive tuning" "rely tuning r" "limits_hold tuning pool"
    and "open_stream_round tuning r pool = (result, pool')"
  shows "limits_hold tuning pool' \<and> opened_in result pool'"
proof -
  let ?kept = "filter (usable (tuning_connection_idle_timeout tuning) (or_cleanup r)) pool"
  obtain p where p: "p = or_between r ?kept" by blast
  have "limits_hold tuning ?kept" using assms(3) by (rule limits_filter)
  then have inv: "limits_hold tuning p" using assms(2) p by (simp add: rely_def)
  have r: "(case select tuning p of Some s \<Rightarrow> reserve_in_pool tuning r s p | None \<Rightarrow> connect_to_pool r p) =
      (result, pool')"
    using assms(4) unfolding open_stream_round_def remove_kept Let_def p .
  show ?thesis
  proof (cases "select tuning p")
    case None
    with r connect_to_pool_limits [OF assms(1,2) inv None] show ?thesis by simp
  next
    case (Some s)
    with r reserve_in_pool_limits [OF assms(1) inv Some] show ?thesis by simp
  qed
qed

text \<open>C23: The limits of a validated configuration hold at all times. Whatever other tasks do between
  and during the critical sections, as long as they keep the limits themselves, opening a stream leaves
  at most \<open>max_connections\<close> connections, or at most \<open>max_streams\<close> streams on each connection; and a
  stream it returns has a nonzero id on an open session of the pool that counts it.\<close>

theorem anytls_pool_limits:
  assumes "validate_outbound cfg = Inr ()" "out_protocol cfg = Anytls"
    and "limits_hold (tuning_from_config cfg) pool" "list_all (rely (tuning_from_config cfg)) rounds"
    and "open_stream (tuning_from_config cfg) rounds pool = (result, pool')"
  shows "limits_hold (tuning_from_config cfg) pool' \<and> (\<forall>res. result = Some res \<longrightarrow> opened_in res pool')"
  using assms(3-5)
proof (induction rounds arbitrary: pool)
  case (Cons r rounds)
  obtain res p where p: "open_stream_round (tuning_from_config cfg) r pool = (res, p)"
    by (cases "open_stream_round (tuning_from_config cfg) r pool")
  from open_stream_round_limits [OF positive_config [OF assms(1,2)] _ Cons.prems(1) p] Cons.prems(2)
  have "limits_hold (tuning_from_config cfg) p \<and> opened_in res p" by simp
  with Cons p show ?case by (cases res) auto
qed simp

section \<open>Retrying\<close>

lemma round_not_retry:
  assumes "open_stream_round tuning r pool = (Retry, pool')"
  shows "\<exists>s \<in> set (or_between r (filter (usable (tuning_connection_idle_timeout tuning) (or_cleanup r)) pool)).
    cs_closed s"
  using assms
  by (auto simp: open_stream_round_def remove_kept reserve_in_pool_def connect_to_pool_def Let_def
      dest!: select_member reserve_stream_Inl split: option.splits prod.splits sum.splits if_splits)

text \<open>C24: Opening a stream ends. The loop goes round again only when another task has closed a session
  between the two critical sections of the round; in particular, as soon as one round is not disturbed
  in that way, it returns a stream or an error.\<close>

theorem anytls_open_stream_returns:
  assumes "r \<in> set rounds" "\<And>pool. list_all (\<lambda>s. \<not> cs_closed s) pool \<Longrightarrow> list_all (\<lambda>s. \<not> cs_closed s) (or_between r pool)"
  shows "\<exists>result pool'. open_stream tuning rounds pool = (Some result, pool') \<and> result \<noteq> Retry"
  using assms(1)
proof (induction rounds arbitrary: pool)
  case (Cons r' rounds)
  obtain res p where p: "open_stream_round tuning r' pool = (res, p)" by (cases "open_stream_round tuning r' pool")
  show ?case
  proof (cases "res = Retry")
    case True
    have "list_all (\<lambda>s. \<not> cs_closed s) (filter (usable (tuning_connection_idle_timeout tuning) (or_cleanup r)) pool)"
      by (auto simp: list_all_iff usable_def)
    from assms(2) [OF this] round_not_retry [of tuning r' pool p] True p
    have "r' \<noteq> r" by (auto simp: list_all_iff)
    with Cons.IH [of p] Cons.prems True p show ?thesis by auto
  next
    case False
    with p show ?thesis by (cases res) auto
  qed
qed simp

definition demo_round :: open_round where
  "demo_round = \<lparr>or_cleanup = 0, or_between = (\<lambda>pool. pool), or_reserve = 1, or_discard = 2,
     or_connect = Inr (demo_session_with 1 0 0), or_during = (\<lambda>pool. pool)\<rparr>"

theorem anytls_pool_limits_witness:
  "\<exists>pool'. open_stream (tuning_from_config demo_pool) [demo_round] [] = (Some (Opened 1 1), pool') \<and>
     limits_hold (tuning_from_config demo_pool) pool' \<and> opened_in (Opened 1 1) pool'"
proof -
  have v: "validate_outbound demo_pool = Inr ()" "out_protocol demo_pool = Anytls"
    by (simp_all add: validate_outbound_def demo_pool_def)
  have e: "limits_hold (tuning_from_config demo_pool) []" by (simp add: limits_hold_def split: option.split)
  have r: "list_all (rely (tuning_from_config demo_pool)) [demo_round]"
    by (simp add: rely_def demo_round_def demo_session_with_def)
  have o1: "open_stream (tuning_from_config demo_pool) [demo_round] [] =
      (Some (Opened 1 1), [snd (reserve_stream 1 (demo_session_with 1 0 0))])"
    by (simp add: open_stream_round_def Let_def demo_round_def select_def freshest_idle_def tuning_from_config_def
        demo_pool_def connect_to_pool_def reserve_stream_def demo_session_with_def cs_new_def cs_touch_def)
  from anytls_pool_limits [OF v e r o1] o1 show ?thesis by blast
qed

theorem anytls_open_stream_returns_witness:
  "\<exists>result pool'. open_stream demo_tuning [demo_round] [demo_session_with 5 0 0] = (Some result, pool') \<and>
     result \<noteq> Retry"
  by (rule anytls_open_stream_returns [of demo_round]) (simp_all add: demo_round_def)

section \<open>Counting streams\<close>

text \<open>
  The life of one session as a sequence of the atomic steps that tasks perform on it. The first index
  counts the ids taken so far, the last one holds the ids that were reserved by a dial which has not
  registered its stream yet. Streams are cleared only after the session was closed, by its reader or
  by a shutdown.
\<close>

inductive session_run :: "nat \<Rightarrow> client_session \<Rightarrow> u32 set \<Rightarrow> bool" where
  new: "session_run 0 (cs_new ident writer buffer now) {}"
| reserve: "session_run n s pending \<Longrightarrow> reserve_stream now s = (Inr i, s') \<Longrightarrow>
    session_run (Suc n) s' (insert i pending)"
| register: "session_run n s pending \<Longrightarrow> i \<in> pending \<Longrightarrow>
    session_run n (s\<lparr>cs_streams := fmupd i [] (cs_streams s)\<rparr>) (pending - {i})"
| deliver: "session_run n s pending \<Longrightarrow> fmlookup (cs_streams s) i = Some sofar \<Longrightarrow>
    session_run n (s\<lparr>cs_streams := fmupd i (sofar @ [data]) (cs_streams s)\<rparr>) pending"
| remove: "session_run n s pending \<Longrightarrow> session_run n (cs_remove_stream i now s) pending"
| close: "session_run n s pending \<Longrightarrow> session_run n (cs_close s) pending"
| clear: "session_run n s pending \<Longrightarrow> cs_closed s \<Longrightarrow> session_run n (clear_streams now s) pending"

definition numbered :: "nat \<Rightarrow> client_session \<Rightarrow> u32 set \<Rightarrow> bool" where
  "numbered n s pending \<longleftrightarrow>
     cs_next_stream_id s = of_nat (n + 1) \<and> finite pending \<and>
     (\<forall>i \<in> pending. unat i \<le> n \<and> fmlookup (cs_streams s) i = None) \<and>
     (\<forall>i. fmlookup (cs_streams s) i \<noteq> None \<longrightarrow> unat i \<le> n)"

definition counted :: "client_session \<Rightarrow> u32 set \<Rightarrow> bool" where
  "counted s pending \<longleftrightarrow>
     (if cs_closed s then cs_active_streams s \<le> fm_len (cs_streams s) + card pending
      else cs_active_streams s = fm_len (cs_streams s) + card pending)"

lemma session_run_counted:
  assumes "session_run n s pending" "n < 2 ^ 32 - 1"
  shows "numbered n s pending \<and> counted s pending"
  using assms
proof (induction rule: session_run.induct)
  case (new ident writer buffer now)
  then show ?case by (simp add: numbered_def counted_def cs_new_def)
next
  case (reserve n s pending now i s')
  have r: "i = of_nat (n + 1)" "cs_next_stream_id s' = i + 1" "cs_streams s' = cs_streams s"
      "cs_active_streams s' = cs_active_streams s + 1" "\<not> cs_closed s" "\<not> cs_closed s'"
    using reserve_stream_Inr [OF reserve.hyps(2)] reserve.IH reserve.prems by (auto simp: numbered_def)
  have u: "unat i = n + 1"
    using reserve.prems unfolding r(1) by (subst unat_of_nat) (simp add: nat_less_iff mod_less)
  have num: "numbered n s pending" and cnt: "counted s pending" using reserve by auto
  have fresh: "i \<notin> pending" "fmlookup (cs_streams s) i = None" "finite pending"
    using num u by (fastforce simp: numbered_def)+
  have nxt: "cs_next_stream_id s' = of_nat (Suc n + 1)" unfolding r(1,2) by simp
  have bounds: "unat j \<le> Suc n \<and> fmlookup (cs_streams s') j = None" if "j \<in> insert i pending" for j
    using that num u fresh(2) unfolding numbered_def r(3) by (cases "j = i") (auto intro: le_SucI)
  have old: "unat j \<le> Suc n" if "fmlookup (cs_streams s') j \<noteq> None" for j
    using that num unfolding numbered_def r(3) by (auto intro: le_SucI)
  have "numbered (Suc n) s' (insert i pending)"
    unfolding numbered_def
    by (intro conjI ballI allI impI nxt bounds [THEN conjunct1] bounds [THEN conjunct2] old finite.insertI fresh(3))
  moreover have "counted s' (insert i pending)"
    using cnt r fresh by (simp add: counted_def)
  ultimately show ?case by blast
next
  case (register n s pending i)
  then have num: "numbered n s pending" and cnt: "counted s pending" by auto
  have "numbered n (s\<lparr>cs_streams := fmupd i [] (cs_streams s)\<rparr>) (pending - {i})"
    using num register.hyps(2) by (auto simp: numbered_def)
  moreover have "fm_len (fmupd i [] (cs_streams s)) + card (pending - {i}) = fm_len (cs_streams s) + card pending"
    using num register.hyps(2) card.remove [of pending i] by (simp add: numbered_def fm_len_upd)
  ultimately show ?case using cnt by (simp add: counted_def)
next
  case (deliver n s pending i sofar data)
  then show ?case by (auto simp: numbered_def counted_def fm_len_upd)
next
  case (remove n s pending i now)
  show ?case
  proof (cases "fmlookup (cs_streams s) i")
    case None
    with remove show ?thesis by (simp add: cs_remove_stream_def)
  next
    case (Some v)
    let ?s = "s\<lparr>cs_streams := fmdrop i (cs_streams s)\<rparr>"
    have r: "cs_remove_stream i now s = release_stream now ?s" using Some by (simp add: cs_remove_stream_def)
    have keep: "cs_streams (release_stream now t) = cs_streams t"
        "cs_next_stream_id (release_stream now t) = cs_next_stream_id t"
        "cs_closed (release_stream now t) = cs_closed t"
        "cs_active_streams (release_stream now t) = cs_active_streams t - 1" for t
      by (simp_all add: release_stream_def cs_touch_def)
    have "numbered n (release_stream now ?s) pending"
      using remove by (auto simp: numbered_def keep split: if_splits)
    moreover have "counted (release_stream now ?s) pending"
      using remove fm_len_remove [OF Some] by (auto simp: counted_def keep split: if_splits)
    ultimately show ?thesis unfolding r by blast
  qed
next
  case (close n s pending)
  then show ?case by (auto simp: cs_close_def numbered_def counted_def split: if_splits)
next
  case (clear n s pending now)
  then show ?case
    by (auto simp: clear_streams_def Let_def cs_touch_def numbered_def counted_def)
qed



text \<open>The id of a stream is not protected against overflow as intended. When the ids of a session
  have run out, one reservation fails, but the counter has moved on and the next reservation succeeds
  with id 1 again, even when a stream with id 1 is still registered.\<close>

theorem anytls_stream_id_reused:
  assumes "\<not> cs_closed s" "cs_next_stream_id s = - 1"
  shows "\<exists>s1 e s2 s3. reserve_stream t1 s = (Inr (- 1), s1) \<and> reserve_stream t2 s1 = (Inl e, s2) \<and>
    reserve_stream t3 s2 = (Inr 1, s3) \<and> cs_streams s3 = cs_streams s"
  using assms by (simp add: reserve_stream_def Let_def cs_touch_def)

end
