(* ===== verification/Anytls_Chunk_Reader.thy ===== *)
theory Anytls_Chunk_Reader
  imports Anytls_Codec
begin

text \<open>
  \<open>ChunkReader\<close> of \<open>protocol/anytls/inbound.rs\<close>: the bytes of a UDP over TCP stream, which arrive
  as the data of separate frames, read as one byte sequence. It is the second provider of the
  interface \<open>byte_source\<close> (interpretation \<open>uot\<close>), so that what it reads depends on the bytes only
  and not on how they were cut into frames.
\<close>

section \<open>The reader\<close>

text \<open>\<open>cr_rx\<close> holds the chunks the channel delivers before its sender is dropped.\<close>

record chunk_reader =
  cr_rx :: "bytes list"
  cr_chunks :: "bytes list"
  cr_front_offset :: usize
  cr_buffered :: usize

definition cr_new :: "bytes list \<Rightarrow> chunk_reader" where
  "cr_new rx = \<lparr>cr_rx = rx, cr_chunks = [], cr_front_offset = 0, cr_buffered = 0\<rparr>"

function cr_fill :: "usize \<Rightarrow> (chunk_reader, unit) sm" where
  "cr_fill len r =
     (if cr_buffered r < len then
        (case cr_rx r of
           [] \<Rightarrow> (Inl (Bail ''uot stream closed''), r)
         | chunk # rx \<Rightarrow>
             cr_fill len (r\<lparr>cr_rx := rx, cr_buffered := cr_buffered r + length chunk,
               cr_chunks := (if chunk \<noteq> [] then cr_chunks r @ [chunk] else cr_chunks r)\<rparr>))
      else (Inr (), r))"
  by pat_completeness auto

termination cr_fill
  by (relation "measure (\<lambda>(len, r). length (cr_rx r))") auto

text \<open>
  The second loop. The subtraction of the offset is the only place where it could panic; the
  branch is written out and is unreachable under the invariant below.
\<close>

function cr_drain :: "usize \<Rightarrow> bytes \<Rightarrow> (chunk_reader, bytes) sm" where
  "cr_drain remaining output r =
     (if remaining > 0 then
        (case cr_chunks r of
           [] \<Rightarrow> (Inr output, r)
         | front # rest \<Rightarrow>
             if cr_front_offset r > length front then
               (Inl (Bail ''attempt to subtract with overflow''), r)
             else
               let available = length front - cr_front_offset r;
                   n = min remaining available;
                   output = output @ take n (drop (cr_front_offset r) front);
                   r = r\<lparr>cr_front_offset := cr_front_offset r + n, cr_buffered := cr_buffered r - n\<rparr>
               in
               if cr_front_offset r = length front then
                 cr_drain (remaining - n) output (r\<lparr>cr_chunks := rest, cr_front_offset := 0\<rparr>)
               else cr_drain (remaining - n) output r)
      else (Inr output, r))"
  by pat_completeness auto

termination cr_drain
  by (relation "measure (\<lambda>(remaining, output, r). remaining + length (cr_chunks r))")
    (auto simp: min_def split: if_splits)

declare cr_fill.simps [simp del] cr_drain.simps [simp del]

definition cr_read_exact :: "usize \<Rightarrow> (chunk_reader, bytes) sm" where
  "cr_read_exact len = sm_bind (cr_fill len) (\<lambda>_. cr_drain len [])"

definition cr_read_u8 :: "(chunk_reader, u8) sm" where
  "cr_read_u8 = sm_bind (cr_read_exact 1) (\<lambda>bs. sm_return (bs ! 0))"

definition cr_read_u16 :: "(chunk_reader, u16) sm" where
  "cr_read_u16 = sm_bind (cr_read_exact 2) (\<lambda>bs. sm_return (of_nat (of_be bs)))"

definition cr_read_len_payload :: "(chunk_reader, bytes) sm" where
  "cr_read_len_payload = sm_bind cr_read_u16 (\<lambda>len. cr_read_exact (unat len))"

text \<open>The three address bodies, each read as one block of bytes.\<close>

definition cr_ipv4_body :: "(chunk_reader, target_addr) sm" where
  "cr_ipv4_body = sm_bind (cr_read_exact 6) (\<lambda>bs.
     sm_return (TIp (sock_new (V4 (v4_from (take 4 bs))) (of_nat (of_be (drop 4 bs))))))"

definition cr_ipv6_body :: "(chunk_reader, target_addr) sm" where
  "cr_ipv6_body = sm_bind (cr_read_exact 18) (\<lambda>bs.
     sm_return (TIp (sock_new (V6 (v6_from (take 16 bs))) (of_nat (of_be (drop 16 bs))))))"

definition cr_domain_body :: "(chunk_reader, target_addr) sm" where
  "cr_domain_body = sm_bind cr_read_u8 (\<lambda>len.
     sm_bind (cr_read_exact (unat len + 2)) (\<lambda>bs.
     sm_bind (sm_lift (from_utf8 (take (unat len) bs))) (\<lambda>host.
     sm_return (TDomain host (of_nat (of_be (drop (unat len) bs)))))))"

definition cr_read_socks_target :: "(chunk_reader, target_addr) sm" where
  "cr_read_socks_target = sm_bind cr_read_u8 (\<lambda>atyp.
     if atyp = 0x01 then cr_ipv4_body
     else if atyp = 0x02 then cr_domain_body
     else if atyp = 0x03 then cr_domain_body
     else if atyp = 0x04 then cr_ipv6_body
     else sm_fail (Bail ''unsupported uot request address type''))"

definition cr_read_uot_packet_target :: "(chunk_reader, target_addr) sm" where
  "cr_read_uot_packet_target = sm_bind cr_read_u8 (\<lambda>atyp.
     if atyp = 0x00 then cr_ipv4_body
     else if atyp = 0x01 then cr_ipv6_body
     else if atyp = 0x02 then cr_domain_body
     else sm_fail (Bail ''unsupported uot packet address type''))"

definition cr_read_packet :: "(chunk_reader, target_addr \<times> bytes) sm" where
  "cr_read_packet = sm_bind cr_read_uot_packet_target (\<lambda>target.
     sm_bind cr_read_len_payload (\<lambda>payload.
     sm_return (target, payload)))"

section \<open>The reader is a byte source\<close>

definition cr_pending :: "chunk_reader \<Rightarrow> bytes" where
  "cr_pending r = drop (cr_front_offset r) (concat (cr_chunks r))"

definition cr_view :: "chunk_reader \<Rightarrow> bytes" where
  "cr_view r = cr_pending r @ concat (cr_rx r)"

definition cr_ok :: "chunk_reader \<Rightarrow> bool" where
  "cr_ok r \<longleftrightarrow> [] \<notin> set (cr_chunks r) \<and> cr_buffered r = length (cr_pending r) \<and>
     (case cr_chunks r of [] \<Rightarrow> cr_front_offset r = 0 | front # _ \<Rightarrow> cr_front_offset r < length front)"

lemma cr_new_ok: "cr_ok (cr_new rx)" "cr_view (cr_new rx) = concat rx"
  by (simp_all add: cr_new_def cr_ok_def cr_view_def cr_pending_def)

lemma cr_push_ok:
  assumes "cr_ok r" "cr_rx r = chunk # rx"
    and "r' = r\<lparr>cr_rx := rx, cr_buffered := cr_buffered r + length chunk,
      cr_chunks := (if chunk \<noteq> [] then cr_chunks r @ [chunk] else cr_chunks r)\<rparr>"
  shows "cr_ok r'" "cr_view r' = cr_view r"
  using assms by (auto simp: cr_ok_def cr_view_def cr_pending_def split: list.splits)

lemma cr_fill_spec:
  assumes "cr_ok r"
  shows "if len \<le> length (cr_view r)
    then \<exists>r'. cr_fill len r = (Inr (), r') \<and> cr_ok r' \<and> cr_view r' = cr_view r \<and> len \<le> cr_buffered r'
    else \<exists>e r'. cr_fill len r = (Inl e, r')"
  using assms
proof (induction len r rule: cr_fill.induct)
  case (1 len r)
  have len: "length (cr_view r) = cr_buffered r + length (concat (cr_rx r))"
    using "1.prems" by (simp add: cr_view_def cr_ok_def)
  show ?case
  proof (cases "cr_buffered r < len")
    case False
    then show ?thesis using len "1.prems" by (simp add: cr_fill.simps [of len r])
  next
    case True
    show ?thesis
    proof (cases "cr_rx r")
      case Nil
      then show ?thesis using True len by (simp add: cr_fill.simps [of len r])
    next
      case (Cons chunk rx)
      let ?r = "r\<lparr>cr_rx := rx, cr_buffered := cr_buffered r + length chunk,
        cr_chunks := (if chunk \<noteq> [] then cr_chunks r @ [chunk] else cr_chunks r)\<rparr>"
      have ok: "cr_ok ?r" "cr_view ?r = cr_view r" using cr_push_ok [OF "1.prems" Cons refl] by simp_all
      have step: "cr_fill len r = cr_fill len ?r"
        using True Cons by (subst cr_fill.simps) simp
      show ?thesis unfolding step using "1.IH" [OF True Cons ok(1)] unfolding ok(2) .
    qed
  qed
qed

lemma cr_drain_spec:
  assumes "cr_ok r" "remaining \<le> cr_buffered r"
  shows "\<exists>r'. cr_drain remaining acc r = (Inr (acc @ take remaining (cr_pending r)), r') \<and>
    cr_ok r' \<and> cr_pending r' = drop remaining (cr_pending r) \<and> cr_rx r' = cr_rx r"
  using assms
proof (induction "length (cr_chunks r)" arbitrary: remaining acc r rule: less_induct)
  case less
  show ?case
  proof (cases "remaining = 0")
    case True
    then show ?thesis using less.prems by (simp add: cr_drain.simps)
  next
    case False
    then have "cr_pending r \<noteq> []" using less.prems by (auto simp: cr_ok_def)
    then obtain front rest where ch: "cr_chunks r = front # rest"
      by (cases "cr_chunks r") (auto simp: cr_pending_def)
    let ?o = "cr_front_offset r"
    have o: "?o < length front" using less.prems(1) ch by (simp add: cr_ok_def)
    have pend: "cr_pending r = drop ?o front @ concat rest" using o by (simp add: cr_pending_def ch)
    show ?thesis
    proof (cases "length front - ?o \<le> remaining")
      case True
      let ?n = "length front - ?o"
      let ?r = "r\<lparr>cr_buffered := cr_buffered r - ?n, cr_chunks := rest, cr_front_offset := 0\<rparr>"
      have step: "cr_drain remaining acc r = cr_drain (remaining - ?n) (acc @ drop ?o front) ?r"
        using False ch o True by (subst cr_drain.simps) (simp add: min_def Let_def)
      have ok: "cr_ok ?r" "remaining - ?n \<le> cr_buffered ?r" "cr_pending ?r = concat rest"
        using less.prems ch o pend by (auto simp: cr_ok_def cr_pending_def split: list.splits)
      have "\<exists>r'. cr_drain (remaining - ?n) (acc @ drop ?o front) ?r =
          (Inr ((acc @ drop ?o front) @ take (remaining - ?n) (cr_pending ?r)), r') \<and>
          cr_ok r' \<and> cr_pending r' = drop (remaining - ?n) (cr_pending ?r) \<and> cr_rx r' = cr_rx ?r"
        using ok(1,2) ch by (intro less.hyps) simp_all
      then show ?thesis unfolding step using ok(3) pend True by simp
    next
      case short: False
      let ?r = "r\<lparr>cr_front_offset := ?o + remaining, cr_buffered := cr_buffered r - remaining\<rparr>"
      have "cr_drain remaining acc r = cr_drain 0 (acc @ take remaining (drop ?o front)) ?r"
      proof -
        have "min remaining (length front - ?o) = remaining" "?o + remaining \<noteq> length front"
          using short by simp_all
        then show ?thesis using False ch o by (subst cr_drain.simps) (simp add: Let_def)
      qed
      then have "cr_drain remaining acc r = (Inr (acc @ take remaining (drop ?o front)), ?r)"
        by (simp add: cr_drain.simps)
      moreover have "cr_ok ?r" using less.prems ch o short by (auto simp: cr_ok_def cr_pending_def)
      moreover have "cr_pending ?r = drop remaining (cr_pending r)"
        by (simp add: cr_pending_def add.commute)
      ultimately show ?thesis using pend short by simp
    qed
  qed
qed

lemma cr_read_exact_implements: "implements cr_ok cr_view (cr_read_exact n) (p_exact n)"
proof (rule implementsI)
  fix r x rest
  assume r: "cr_ok r" and "p_exact n (cr_view r) = Inr (x, rest)"
  then have x: "cr_view r = x @ rest" "length x = n" by (simp_all add: p_exact_Inr_iff)
  then obtain r1 where r1: "cr_fill n r = (Inr (), r1)" "cr_ok r1" "cr_view r1 = x @ rest" "n \<le> cr_buffered r1"
    using cr_fill_spec [OF r, of n] by auto
  obtain r2 where r2: "cr_drain n [] r1 = (Inr (take n (cr_pending r1)), r2)" "cr_ok r2"
      "cr_pending r2 = drop n (cr_pending r1)" "cr_rx r2 = cr_rx r1"
    using cr_drain_spec [OF r1(2,4), of "[]"] by auto
  have n: "n \<le> length (cr_pending r1)" using r1(2,4) by (simp add: cr_ok_def)
  then have "take n (cr_pending r1) = take n (cr_view r1)" "cr_view r2 = drop n (cr_view r1)"
    using r2(3,4) by (simp_all add: cr_view_def)
  with r1 r2 x show "\<exists>r'. cr_read_exact n r = (Inr x, r') \<and> cr_ok r' \<and> cr_view r' = rest"
    by (simp add: cr_read_exact_def)
next
  fix r e
  assume r: "cr_ok r" and "p_exact n (cr_view r) = Inl e"
  then obtain e' r1 where "cr_fill n r = (Inl e', r1)"
    using cr_fill_spec [OF r, of n] by (auto simp: p_exact_def split: if_splits)
  then show "\<exists>e' r'. cr_read_exact n r = (Inl e', r')" by (simp add: cr_read_exact_def)
qed

interpretation uot: byte_source cr_read_exact cr_ok cr_view
  by unfold_locales (rule cr_read_exact_implements)

section \<open>Parsing over chunks\<close>

lemma implements_cong:
  assumes "implements ok view m p" "\<And>bs x rest. p bs = Inr (x, rest) \<longleftrightarrow> q bs = Inr (x, rest)"
  shows "implements ok view m q"
proof (rule implementsI)
  fix s x rest
  assume "ok s" "q (view s) = Inr (x, rest)"
  then show "\<exists>s'. m s = (Inr x, s') \<and> ok s' \<and> view s' = rest"
    using implements_Inr [OF assms(1)] assms(2) by blast
next
  fix s e
  assume s: "ok s" and e: "q (view s) = Inl e"
  then have "\<nexists>x rest. p (view s) = Inr (x, rest)" using assms(2) by fastforce
  then obtain e' where "p (view s) = Inl e'" by (cases "p (view s)") auto
  then show "\<exists>e' s'. m s = (Inl e', s')" using implements_Inl [OF assms(1) s] by blast
qed

lemma p_bind_assoc: "p_bind (p_bind p f) g = p_bind p (\<lambda>x. p_bind (f x) g)"
proof
  show "p_bind (p_bind p f) g bs = p_bind p (\<lambda>x. p_bind (f x) g) bs" for bs
    by (cases "p bs") (auto simp: p_bind_def)
qed

lemma p_bind_return: "p_bind (p_return x) f = f x"
  by (rule ext) (simp add: p_bind_def p_return_def)

text \<open>Reading two fields as one block gives the same results as reading one after the other.\<close>

lemma p_exact_block:
  "p_bind (p_exact (m + k)) (\<lambda>b. f (take m b) (drop m b)) bs = Inr (x, rest) \<longleftrightarrow>
   p_bind (p_exact m) (\<lambda>a. p_bind (p_exact k) (f a)) bs = Inr (x, rest)"
proof
  assume "p_bind (p_exact (m + k)) (\<lambda>b. f (take m b) (drop m b)) bs = Inr (x, rest)"
  then obtain b mid where "bs = b @ mid" "length b = m + k" "f (take m b) (drop m b) mid = Inr (x, rest)"
    by (auto simp: p_bind_Inr_iff p_exact_Inr_iff)
  then show "p_bind (p_exact m) (\<lambda>a. p_bind (p_exact k) (f a)) bs = Inr (x, rest)"
    by (simp add: p_bind_def p_exact_def)
next
  assume "p_bind (p_exact m) (\<lambda>a. p_bind (p_exact k) (f a)) bs = Inr (x, rest)"
  then obtain a c mid where "bs = (a @ c) @ mid" "length a = m" "length c = k" "f a c mid = Inr (x, rest)"
    by (auto simp: p_bind_Inr_iff p_exact_Inr_iff)
  then show "p_bind (p_exact (m + k)) (\<lambda>b. f (take m b) (drop m b)) bs = Inr (x, rest)"
    by (simp add: p_bind_def p_exact_def)
qed

lemma cr_block_implements:
  assumes "\<And>a c. implements cr_ok cr_view (g a c) (f a c)"
  shows "implements cr_ok cr_view (sm_bind (cr_read_exact (m + k)) (\<lambda>b. g (take m b) (drop m b)))
    (p_bind (p_exact m) (\<lambda>a. p_bind (p_exact k) (f a)))"
proof (rule implements_cong)
  show "implements cr_ok cr_view (sm_bind (cr_read_exact (m + k)) (\<lambda>b. g (take m b) (drop m b)))
      (p_bind (p_exact (m + k)) (\<lambda>b. f (take m b) (drop m b)))"
    by (intro implements_bind cr_read_exact_implements assms)
qed (rule p_exact_block)

lemma cr_read_u8_implements: "implements cr_ok cr_view cr_read_u8 p_u8"
  unfolding cr_read_u8_def by (rule uot.read_u8_implements)

lemma cr_read_u16_implements: "implements cr_ok cr_view cr_read_u16 p_u16"
  unfolding cr_read_u16_def by (rule uot.read_u16_implements)

lemmas cr_implements = implements_bind cr_read_u8_implements cr_read_u16_implements
  cr_read_exact_implements implements_return implements_lift

lemmas parse_blocks = parse_v4_def parse_v6_def parse_domain_def p_u16_def p_bind_assoc p_bind_return

lemma cr_ipv4_implements: "implements cr_ok cr_view cr_ipv4_body parse_v4"
  using cr_block_implements [where m = 4 and k = 2, OF implements_return]
  by (simp add: cr_ipv4_body_def parse_blocks)

lemma cr_ipv6_implements: "implements cr_ok cr_view cr_ipv6_body parse_v6"
  using cr_block_implements [where m = 16 and k = 2, OF implements_return]
  by (simp add: cr_ipv6_body_def parse_blocks)

lemma cr_domain_implements: "implements cr_ok cr_view cr_domain_body parse_domain"
  unfolding cr_domain_body_def parse_blocks
  by (intro implements_bind cr_read_u8_implements cr_block_implements implements_lift implements_return)

lemma cr_read_uot_packet_target_implements:
  "implements cr_ok cr_view cr_read_uot_packet_target
     (parse_addr 0x00 0x02 0x01 (Bail ''unsupported uot packet address type''))"
  unfolding cr_read_uot_packet_target_def parse_addr_def
  by (intro implements_bind cr_read_u8_implements)
    (auto intro: cr_ipv4_implements cr_ipv6_implements cr_domain_implements)

text \<open>The request address has a second tag for domains.\<close>

definition p_request_addr :: "target_addr parser" where
  "p_request_addr = p_bind p_u8 (\<lambda>atyp.
     if atyp = 0x01 then parse_v4
     else if atyp = 0x02 then parse_domain
     else if atyp = 0x03 then parse_domain
     else if atyp = 0x04 then parse_v6
     else p_fail (Bail ''unsupported uot request address type''))"

lemma cr_read_socks_target_implements: "implements cr_ok cr_view cr_read_socks_target p_request_addr"
  unfolding cr_read_socks_target_def p_request_addr_def
  by (intro implements_bind cr_read_u8_implements implements_if cr_ipv4_implements cr_ipv6_implements
      cr_domain_implements implements_fail)

lemma p_request_addr_format:
  assumes "fits t" "valid_target t"
  shows "p_request_addr (format_addr 0x01 0x03 0x04 t @ rest) = Inr (wire_form t, rest)"
proof -
  obtain a bs where bs: "format_addr 0x01 0x03 0x04 t @ rest = a # bs" "a = 1 \<or> a = 3 \<or> a = 4"
    by (cases t rule: wire_form.cases) auto
  have "parse_addr 0x01 0x03 0x04 UnexpectedEof (a # bs) = Inr (wire_form t, rest)"
    unfolding bs(1) [symmetric] using assms by (rule socksaddr.parse_format)
  with bs show ?thesis by (auto simp: p_request_addr_def parse_addr_def)
qed

lemma cr_read_len_payload_implements:
  "implements cr_ok cr_view cr_read_len_payload (p_bind p_u16 (\<lambda>len. p_exact (unat len)))"
  unfolding cr_read_len_payload_def
  by (intro implements_bind cr_read_u16_implements cr_read_exact_implements)

lemma cr_read_packet_implements:
  "implements cr_ok cr_view cr_read_packet
     (p_bind (parse_addr 0x00 0x02 0x01 (Bail ''unsupported uot packet address type'')) (\<lambda>target.
      p_bind (p_bind p_u16 (\<lambda>len. p_exact (unat len))) (\<lambda>payload.
      p_return (target, payload))))"
  unfolding cr_read_packet_def
  by (intro implements_bind cr_read_uot_packet_target_implements cr_read_len_payload_implements
      implements_return)

lemma cr_read_packet_encoded:
  assumes "cr_ok r" "encode_uot_packet t payload = Inr bs" "valid_target t" "cr_view r = bs @ rest"
  shows "\<exists>r'. cr_read_packet r = (Inr (wire_form t, payload), r') \<and> cr_ok r' \<and> cr_view r' = rest"
proof -
  have bs: "bs = format_addr 0x00 0x02 0x01 t @ be16 (of_nat (length payload)) @ payload" "fits t"
      "length payload \<le> 65535"
    using assms(2) by (auto simp: encode_uot_packet_def and_then_Inr_iff encode_uot_packet_addr_spec split: if_splits)
  then have "unat (of_nat (length payload) :: u16) = length payload" by (simp add: unat_of_nat_u16)
  then show ?thesis
    using bs assms(3,4) by (intro implements_Inr [OF cr_read_packet_implements assms(1)])
      (simp add: uot_addr.parse_format p_return_def)
qed

end
