(* ===== verification/Anytls_Inbound.thy ===== *)
theory Anytls_Inbound
  imports Anytls_Chunk_Reader
begin

text \<open>
  The AnyTLS inbound of \<open>protocol/anytls/inbound.rs\<close>: the hello, the fallback for clients that do
  not authenticate, the frame loop with its table of streams, the tasks it spawns, and the two UDP
  over TCP loops. The TLS handshake, the HTTP server of the static fallback and the router are not
  modelled; what they return is an argument.
\<close>

section \<open>Hello and fallback\<close>

datatype hello_outcome = ServeSession string | ServeFallback bytes

definition serve_hello ::
    "(bytes \<Rightarrow> bytes) \<Rightarrow> inbound_config \<Rightarrow> (tcp_stream, hello_outcome) sm" where
  "serve_hello sha256 cfg =
     sm_bind (sm_lift (ok_or (in_users cfg) (Bail ''anytls inbound requires users''))) (\<lambda>users.
     sm_bind (read_client_hello_or_fallback sha256 users) (\<lambda>auth.
     case auth of
       Authenticated username \<Rightarrow> sm_return (ServeSession username)
     | Rejected prefix \<Rightarrow> sm_return (ServeFallback prefix)))"

text \<open>
  A stream with a prefix that was already taken off it. \<open>pio_inner\<close> holds what the inner stream
  delivers, read by read; a read has the capacity of the caller's buffer.
\<close>

record prefixed_io =
  pio_prefix :: bytes
  pio_position :: usize
  pio_inner :: bytes

definition pio_new :: "bytes \<Rightarrow> bytes \<Rightarrow> prefixed_io" where
  "pio_new prefix inner = \<lparr>pio_prefix = prefix, pio_position = 0, pio_inner = inner\<rparr>"

definition pio_poll_read :: "(bytes \<Rightarrow> usize) \<Rightarrow> usize \<Rightarrow> prefixed_io \<Rightarrow> bytes \<times> prefixed_io" where
  "pio_poll_read available remaining io =
     (if pio_position io < length (pio_prefix io) then
        (let len = min remaining (length (pio_prefix io) - pio_position io) in
         (take len (drop (pio_position io) (pio_prefix io)), io\<lparr>pio_position := pio_position io + len\<rparr>))
      else
        (let len = min remaining (available (pio_inner io)) in
         (take len (pio_inner io), io\<lparr>pio_inner := drop len (pio_inner io)\<rparr>)))"

text \<open>
  The fallback: a connection to the configured server that is given the prefix first, or the HTTP
  server on the prefixed stream, in version 2 if the client negotiated that.
\<close>

datatype fallback_served = ProxyFallback tcp_stream | StaticFallback bool prefixed_io

definition serve_fallback ::
    "(server_addr \<Rightarrow> tcp_stream res) \<Rightarrow> bytes option \<Rightarrow> inbound_config \<Rightarrow> bytes \<Rightarrow> bytes \<Rightarrow>
     fallback_served res" where
  "serve_fallback connect_tcp alpn cfg prefix inner =
     (case fallback cfg of
        Some server \<Rightarrow>
          and_then (connect_tcp server) (\<lambda>upstream.
          case tcp_write_all prefix upstream of
            (Inl e, _) \<Rightarrow> Inl e
          | (Inr _, upstream) \<Rightarrow> Inr (ProxyFallback upstream))
      | None \<Rightarrow> Inr (StaticFallback (alpn = Some (as_bytes ''h2'')) (pio_new prefix inner)))"

section \<open>Sessions\<close>

text \<open>
  A TCP stream holds the outbound and what was written to it, a UDP stream the chunks that were
  sent to its task. The two tables, the two flags and the writer are the variables of the loop.
\<close>

datatype 's inbound_stream = InTcp 's bytes | InUdp "bytes list"

datatype 's spawned = SpawnOutboundReader u32 's | SpawnUotReader u32

record 's anytls_session =
  as_streams :: "(u32, 's inbound_stream) fmap"
  as_synacked :: "u32 set"
  as_settings_seen :: bool
  as_client_v2 :: bool
  as_writer :: tcp_stream
  as_spawned :: "'s spawned list"

definition session_start :: "tcp_stream \<Rightarrow> 's anytls_session" where
  "session_start w =
     \<lparr>as_streams = fmempty, as_synacked = {}, as_settings_seen = False, as_client_v2 = False,
      as_writer = w, as_spawned = []\<rparr>"

definition session_write_frame ::
    "'f anytls_core \<Rightarrow> u8 \<Rightarrow> u32 \<Rightarrow> bytes \<Rightarrow> ('s anytls_session, unit) sm" where
  "session_write_frame core command stream_id data st =
     (case write_frame core command stream_id data (as_writer st) of
        (r, w) \<Rightarrow> (r, st\<lparr>as_writer := w\<rparr>))"

definition write_alert :: "'f anytls_core \<Rightarrow> string \<Rightarrow> ('s anytls_session, unit) sm" where
  "write_alert core message = session_write_frame core CMD_ALERT 0 (as_bytes message)"

definition synack :: "'f anytls_core \<Rightarrow> u32 \<Rightarrow> ('s anytls_session, unit) sm" where
  "synack core stream_id st =
     (if as_client_v2 st \<and> stream_id \<notin> as_synacked st then
        session_write_frame core CMD_SYNACK stream_id []
          (st\<lparr>as_synacked := insert stream_id (as_synacked st)\<rparr>)
      else (Inr (), st))"

definition handle_settings ::
    "'f anytls_core \<Rightarrow> string \<Rightarrow> bytes \<Rightarrow> bytes \<Rightarrow> ('s anytls_session, unit) sm" where
  "handle_settings core server_padding_md5 server_padding_scheme data =
     (let v2 = (case settings_version data of None \<Rightarrow> False | Some v \<Rightarrow> v \<ge> 2) in
      sm_bind (sm_modify (\<lambda>st. st\<lparr>as_settings_seen := True, as_client_v2 := v2\<rparr>)) (\<lambda>_.
      sm_bind (if v2 then session_write_frame core CMD_SERVER_SETTINGS 0 settings
               else sm_return ()) (\<lambda>_.
      if settings_value data ''padding-md5'' \<noteq> Some server_padding_md5 then
        session_write_frame core CMD_UPDATE_PADDING_SCHEME 0 server_padding_scheme
      else sm_return ())))"

definition handle_syn :: "'f anytls_core \<Rightarrow> u32 \<Rightarrow> ('s anytls_session, unit) sm" where
  "handle_syn core stream_id st =
     (if \<not> as_settings_seen st then
        sm_bind (write_alert core ''cmdSettings is required before cmdSYN'') (\<lambda>_.
        sm_fail (Bail ''anytls stream opened before settings'')) st
      else synack core stream_id st)"

text \<open>\<open>written\<close> is the result of the write to the outbound of the stream.\<close>

definition push_stream ::
    "'f anytls_core \<Rightarrow> unit res \<Rightarrow> u32 \<Rightarrow> bytes \<Rightarrow> 's inbound_stream \<Rightarrow> ('s anytls_session, unit) sm" where
  "push_stream core written stream_id data stream =
     (case stream of
        InTcp outbound sofar \<Rightarrow>
          (case written of
             Inr _ \<Rightarrow> sm_modify (\<lambda>st.
               st\<lparr>as_streams := fmupd stream_id (InTcp outbound (sofar @ data)) (as_streams st)\<rparr>)
           | Inl _ \<Rightarrow>
               sm_bind (sm_modify (\<lambda>st. st\<lparr>as_streams := fmdrop stream_id (as_streams st)\<rparr>)) (\<lambda>_.
               session_write_frame core CMD_FIN stream_id []))
      | InUdp sofar \<Rightarrow> sm_modify (\<lambda>st.
          st\<lparr>as_streams := fmupd stream_id (InUdp (sofar @ [data])) (as_streams st)\<rparr>))"

definition open_uot ::
    "'f anytls_core \<Rightarrow> u32 \<Rightarrow> bytes \<Rightarrow> ('s anytls_session, unit) sm" where
  "open_uot core stream_id rest =
     sm_bind (sm_modify (\<lambda>st. st\<lparr>as_streams :=
       fmupd stream_id (InUdp (if rest \<noteq> [] then [rest] else [])) (as_streams st)\<rparr>)) (\<lambda>_.
     sm_bind (synack core stream_id) (\<lambda>_.
     sm_modify (\<lambda>st. st\<lparr>as_spawned := as_spawned st @ [SpawnUotReader stream_id]\<rparr>)))"

definition open_tcp ::
    "'f anytls_core \<Rightarrow> unit res \<Rightarrow> u32 \<Rightarrow> 's \<Rightarrow> bytes \<Rightarrow> ('s anytls_session, unit) sm" where
  "open_tcp core written stream_id outbound rest =
     (if rest \<noteq> [] \<and> \<not> is_ok written then session_write_frame core CMD_FIN stream_id []
      else
        sm_bind (sm_modify (\<lambda>st. st\<lparr>as_streams :=
          fmupd stream_id (InTcp outbound rest) (as_streams st)\<rparr>)) (\<lambda>_.
        sm_bind (synack core stream_id) (\<lambda>_.
        sm_modify (\<lambda>st. st\<lparr>as_spawned :=
          as_spawned st @ [SpawnOutboundReader stream_id outbound]\<rparr>))))"

definition handle_psh ::
    "'f anytls_core \<Rightarrow> string \<Rightarrow> (session \<Rightarrow> 's res) \<Rightarrow> unit res \<Rightarrow> u32 \<Rightarrow> bytes \<Rightarrow>
     ('s anytls_session, unit) sm" where
  "handle_psh core tag dial written stream_id data st =
     (if \<not> as_settings_seen st then
        sm_bind (write_alert core ''cmdSettings is required before cmdPSH'') (\<lambda>_.
        sm_fail (Bail ''anytls data sent before settings'')) st
      else
        (case fmlookup (as_streams st) stream_id of
           Some stream \<Rightarrow> push_stream core written stream_id data stream st
         | None \<Rightarrow>
             (case decode_socksaddr data of
                Inl _ \<Rightarrow> session_write_frame core CMD_FIN stream_id [] st
              | Inr (target, consumed) \<Rightarrow>
                  if is_uot_v2_magic_target target then
                    open_uot core stream_id (drop consumed data) st
                  else
                    (case dial \<lparr>sess_inbound = tag, sess_command = Connect, sess_target = target\<rparr> of
                       Inl _ \<Rightarrow> session_write_frame core CMD_FIN stream_id [] st
                     | Inr outbound \<Rightarrow>
                         open_tcp core written stream_id outbound (drop consumed data) st))))"

definition handle_frame ::
    "'f anytls_core \<Rightarrow> string \<Rightarrow> string \<Rightarrow> bytes \<Rightarrow> (session \<Rightarrow> 's res) \<Rightarrow> unit res \<Rightarrow> frame \<Rightarrow>
     ('s anytls_session, unit) sm" where
  "handle_frame core tag md5 scheme dial written fr =
     (if fr_command fr = CMD_SETTINGS then handle_settings core md5 scheme (fr_data fr)
      else if fr_command fr = CMD_SYN then handle_syn core (fr_stream_id fr)
      else if fr_command fr = CMD_PSH then
        handle_psh core tag dial written (fr_stream_id fr) (fr_data fr)
      else if fr_command fr = CMD_FIN then
        sm_modify (\<lambda>st. st\<lparr>as_streams := fmdrop (fr_stream_id fr) (as_streams st),
          as_synacked := as_synacked st - {fr_stream_id fr}\<rparr>)
      else if fr_command fr = CMD_WASTE then sm_return ()
      else if fr_command fr = CMD_HEART_REQUEST then
        session_write_frame core CMD_HEART_RESPONSE (fr_stream_id fr) []
      else sm_return ())"

text \<open>
  The loop, on the frames that are read and what the environment answers to each: the router's
  dial and the write to an outbound. It ends at the first error.
\<close>

type_synonym 's answer = "(session \<Rightarrow> 's res) \<times> unit res"

fun session_loop ::
    "'f anytls_core \<Rightarrow> string \<Rightarrow> string \<Rightarrow> bytes \<Rightarrow> (frame \<times> 's answer) list \<Rightarrow>
     ('s anytls_session, unit) sm" where
  "session_loop core tag md5 scheme [] = sm_return ()"
| "session_loop core tag md5 scheme ((fr, dial, written) # frames) =
     sm_bind (handle_frame core tag md5 scheme dial written fr) (\<lambda>_.
     session_loop core tag md5 scheme frames)"

section \<open>Spawned tasks\<close>

text \<open>
  The task that reads an outbound, on the results of its reads and of the frame writes they lead
  to; it returns the frames it tries to write.
\<close>

fun outbound_reader :: "u32 \<Rightarrow> (bytes res \<times> unit res) list \<Rightarrow> frame list" where
  "outbound_reader stream_id [] = []"
| "outbound_reader stream_id ((read, written) # rest) =
     (case read of
        Inl _ \<Rightarrow> [\<lparr>fr_command = CMD_FIN, fr_stream_id = stream_id, fr_data = []\<rparr>]
      | Inr buf \<Rightarrow>
          if buf = [] then [\<lparr>fr_command = CMD_FIN, fr_stream_id = stream_id, fr_data = []\<rparr>]
          else \<lparr>fr_command = CMD_PSH, fr_stream_id = stream_id, fr_data = buf\<rparr>
            # (if is_ok written then outbound_reader stream_id rest else []))"

definition run_uot_request :: "(chunk_reader, bool \<times> target_addr) sm" where
  "run_uot_request =
     sm_bind cr_read_u8 (\<lambda>b.
     sm_bind cr_read_socks_target (\<lambda>target.
     sm_return (b = 1, target)))"

definition run_uot_dial ::
    "string \<Rightarrow> (session \<Rightarrow> 'd res) \<Rightarrow> (chunk_reader, bool \<times> target_addr \<times> 'd) sm" where
  "run_uot_dial inbound dial_udp =
     sm_bind run_uot_request (\<lambda>(connect, target).
     sm_bind (sm_lift (dial_udp
       \<lparr>sess_inbound = inbound, sess_command = UdpAssociate, sess_target = target\<rparr>)) (\<lambda>outbound.
     sm_return (connect, target, outbound)))"

text \<open>
  One round of a UDP over TCP loop: either the pinned framing read completes, and the send it leads
  to has the given result, or the outbound delivered a datagram.
\<close>

datatype uot_event = UotInput "unit res" | UotReceived "(target_addr \<times> bytes) res" "unit res"

datatype uot_action = UotSendTo target_addr bytes | UotWrite frame

fun uot_connect_step ::
    "u32 \<Rightarrow> target_addr \<Rightarrow> chunk_reader \<Rightarrow> uot_event \<Rightarrow> uot_action list \<times> chunk_reader flow" where
  "uot_connect_step stream_id target r (UotInput sent) =
     (case cr_read_len_payload r of
        (Inl e, _) \<Rightarrow> ([], Failed e)
      | (Inr payload, r) \<Rightarrow>
          ([UotSendTo target payload], case sent of Inl e \<Rightarrow> Failed e | Inr _ \<Rightarrow> Continue r))"
| "uot_connect_step stream_id target r (UotReceived received written) =
     (case and_then received (\<lambda>(_, payload). encode_uot_payload payload) of
        Inl e \<Rightarrow> ([], Failed e)
      | Inr data \<Rightarrow>
          ([UotWrite \<lparr>fr_command = CMD_PSH, fr_stream_id = stream_id, fr_data = data\<rparr>],
           case written of Inl e \<Rightarrow> Failed e | Inr _ \<Rightarrow> Continue r))"

fun uot_packet_step ::
    "u32 \<Rightarrow> chunk_reader \<Rightarrow> uot_event \<Rightarrow> uot_action list \<times> chunk_reader flow" where
  "uot_packet_step stream_id r (UotInput sent) =
     (case cr_read_packet r of
        (Inl e, _) \<Rightarrow> ([], Failed e)
      | (Inr (target, payload), r) \<Rightarrow>
          ([UotSendTo target payload], case sent of Inl e \<Rightarrow> Failed e | Inr _ \<Rightarrow> Continue r))"
| "uot_packet_step stream_id r (UotReceived received written) =
     (case and_then received (\<lambda>(source, payload). encode_uot_packet source payload) of
        Inl e \<Rightarrow> ([], Failed e)
      | Inr data \<Rightarrow>
          ([UotWrite \<lparr>fr_command = CMD_PSH, fr_stream_id = stream_id, fr_data = data\<rparr>],
           case written of Inl e \<Rightarrow> Failed e | Inr _ \<Rightarrow> Continue r))"

fun uot_run ::
    "(chunk_reader \<Rightarrow> uot_event \<Rightarrow> uot_action list \<times> chunk_reader flow) \<Rightarrow> chunk_reader \<Rightarrow>
     uot_event list \<Rightarrow> uot_action list" where
  "uot_run step r [] = []"
| "uot_run step r (ev # evs) =
     fst (step r ev) @ (case snd (step r ev) of Continue r' \<Rightarrow> uot_run step r' evs | _ \<Rightarrow> [])"

section \<open>What the handlers change\<close>

text \<open>A frame write changes the writer only, and by that frame or not at all.\<close>

lemma session_write_frame_only:
  assumes "frame_format core"
  shows "\<exists>w fs. snd (session_write_frame core cmd sid data st) = st\<lparr>as_writer := w\<rparr> \<and>
    wr w = wr (as_writer st) @ concat (map frame_bytes fs) \<and>
    (fs = [] \<or> fs = [\<lparr>fr_command = cmd, fr_stream_id = sid, fr_data = data\<rparr>])"
proof -
  obtain r w where w: "write_frame core cmd sid data (as_writer st) = (r, w)"
    by (cases "write_frame core cmd sid data (as_writer st)")
  let ?fr = "\<lparr>fr_command = cmd, fr_stream_id = sid, fr_data = data\<rparr>"
  have "wr w = wr (as_writer st) \<or> wr w = wr (as_writer st) @ frame_bytes ?fr"
    using w assms
    by (cases "length data \<le> 65535")
      (auto simp: write_frame_def sm_bind_def sm_lift_def encode_frame_def frame_format_def
        tcp_write_all_def frame_bytes_def split: if_splits option.splits nat.splits)
  then obtain fs where "wr w = wr (as_writer st) @ concat (map frame_bytes fs)" "fs = [] \<or> fs = [?fr]"
    by (metis append_Nil2 concat.simps list.simps(8,9))
  moreover have "snd (session_write_frame core cmd sid data st) = st\<lparr>as_writer := w\<rparr>"
    using w by (simp add: session_write_frame_def)
  ultimately show ?thesis by blast
qed

lemma session_write_frame_state:
  "\<exists>w. snd (session_write_frame core cmd sid data st) = st\<lparr>as_writer := w\<rparr>"
  by (auto simp: session_write_frame_def split: prod.split)

section \<open>Settings come first\<close>

definition unopened :: "'s anytls_session \<Rightarrow> bool" where
  "unopened st \<longleftrightarrow> \<not> as_settings_seen st \<and> as_streams st = fmempty \<and> as_spawned st = []"

lemma unopened_write:
  "unopened st \<Longrightarrow> session_write_frame core cmd sid data st = (r, st') \<Longrightarrow> unopened st'"
  using session_write_frame_state [of core cmd sid data st] by (auto simp: unopened_def)

lemma unopened_refuse:
  assumes "unopened st" "sm_bind (write_alert core msg) (\<lambda>_. sm_fail e) st = (r, st')"
  shows "unopened st' \<and> (\<exists>e'. r = Inl e')"
proof -
  obtain r1 st1 where w: "write_alert core msg st = (r1, st1)" by (cases "write_alert core msg st")
  then have "unopened st1" using unopened_write [OF assms(1)] by (simp add: write_alert_def)
  with w assms(2) show ?thesis by (cases r1) (auto simp: sm_fail_def)
qed

lemma unopened_frame:
  assumes "unopened st" "fr_command fr \<noteq> CMD_SETTINGS"
    and "handle_frame core tag md5 scheme dial written fr st = (r, st')"
  shows "unopened st' \<and> (fr_command fr \<in> {CMD_SYN, CMD_PSH} \<longrightarrow> (\<exists>e. r = Inl e))"
proof -
  have seen: "\<not> as_settings_seen st" using assms(1) by (simp add: unopened_def)
  consider "fr_command fr = CMD_SYN" | "fr_command fr = CMD_PSH" | "fr_command fr = CMD_FIN"
    | "fr_command fr \<notin> {CMD_SYN, CMD_PSH, CMD_FIN, CMD_SETTINGS}"
    using assms(2) by blast
  then show ?thesis
  proof cases
    case 1
    then show ?thesis using assms seen
      by (auto simp: handle_frame_def handle_syn_def anytls_cmds dest: unopened_refuse [OF assms(1)])
  next
    case 2
    then show ?thesis using assms seen
      by (auto simp: handle_frame_def handle_psh_def anytls_cmds dest: unopened_refuse [OF assms(1)])
  next
    case 3
    then show ?thesis using assms(1,3)
      by (auto simp: handle_frame_def sm_modify_def unopened_def anytls_cmds)
  next
    case 4
    then show ?thesis using assms unopened_write [OF assms(1)]
      by (auto simp: handle_frame_def sm_return_def split: if_splits)
  qed
qed

text \<open>C14: A client must send its settings before anything else. Of a session in which no settings
  frame arrives, no stream is opened and no task is spawned, and the session fails as soon as the
  client opens a stream or sends data.\<close>

theorem anytls_settings_first:
  assumes "list_all (\<lambda>(fr, _). fr_command fr \<noteq> CMD_SETTINGS) frames"
    and "session_loop core tag md5 scheme frames (session_start w) = (r, st)"
  shows "as_streams st = fmempty \<and> as_spawned st = [] \<and>
    (list_ex (\<lambda>(fr, _). fr_command fr \<in> {CMD_SYN, CMD_PSH}) frames \<longrightarrow> (\<exists>e. r = Inl e))"
proof -
  have "unopened st \<and> (list_ex (\<lambda>(fr, _). fr_command fr \<in> {CMD_SYN, CMD_PSH}) frames \<longrightarrow> (\<exists>e. r = Inl e))"
    if "unopened st0" "session_loop core tag md5 scheme frames st0 = (r, st)" for st0
    using assms(1) that
  proof (induction core tag md5 scheme frames arbitrary: st0 rule: session_loop.induct)
    case (2 core tag md5 scheme fr dial written frames)
    obtain r1 st1 where h: "handle_frame core tag md5 scheme dial written fr st0 = (r1, st1)"
      by (cases "handle_frame core tag md5 scheme dial written fr st0")
    have u: "unopened st1 \<and> (fr_command fr \<in> {CMD_SYN, CMD_PSH} \<longrightarrow> (\<exists>e. r1 = Inl e))"
      using unopened_frame [OF "2.prems"(2) _ h] "2.prems"(1) by simp
    show ?case
      using h u "2.prems" "2.IH" [of st1] by (cases r1) auto
  qed (simp add: sm_return_def)
  then show ?thesis
    using assms(2) by (force simp: unopened_def session_start_def)
qed

theorem anytls_settings_first_witness:
  "\<exists>r st. session_loop demo_core ''in'' ''md5'' []
      [(\<lparr>fr_command = 0, fr_stream_id = 0, fr_data = [0]\<rparr>, Inr, Inr ()),
       (\<lparr>fr_command = 1, fr_stream_id = 1, fr_data = []\<rparr>, Inr, Inr ())]
      (session_start \<lparr>rd = [], wr = [], fault = None\<rparr>) = (r, st) \<and>
    as_streams st = fmempty \<and> (\<exists>e. r = Inl e)"
proof -
  let ?frames = "[(\<lparr>fr_command = 0, fr_stream_id = 0, fr_data = [0]\<rparr>, Inr :: session \<Rightarrow> session res, Inr ()),
       (\<lparr>fr_command = 1, fr_stream_id = 1, fr_data = []\<rparr>, Inr, Inr ())]"
  let ?w = "\<lparr>rd = [], wr = [], fault = None\<rparr>"
  obtain r st where l: "session_loop demo_core ''in'' ''md5'' [] ?frames (session_start ?w) = (r, st)"
    by (cases "session_loop demo_core ''in'' ''md5'' [] ?frames (session_start ?w)")
  have "list_all (\<lambda>(fr, _). fr_command fr \<noteq> CMD_SETTINGS) ?frames" by (simp add: anytls_cmds)
  from anytls_settings_first [OF this l] l show ?thesis by (auto simp: anytls_cmds)
qed

section \<open>Acknowledgements\<close>

definition acks :: "u32 \<Rightarrow> frame list \<Rightarrow> nat" where
  "acks sid fs = length (filter (\<lambda>f. fr_command f = CMD_SYNACK \<and> fr_stream_id f = sid) fs)"

definition accounted :: "u32 list \<Rightarrow> 's anytls_session \<Rightarrow> 's anytls_session \<Rightarrow> bool" where
  "accounted fins st st' \<longleftrightarrow>
     (\<exists>fs. wr (as_writer st') = wr (as_writer st) @ concat (map frame_bytes fs) \<and>
       (\<forall>sid. acks sid fs + of_bool (sid \<in> as_synacked st) \<le>
          count_list fins sid + of_bool (sid \<in> as_synacked st')))"

lemma accounted_same:
  "as_writer st' = as_writer st \<Longrightarrow> as_synacked st' = as_synacked st \<Longrightarrow> accounted [] st st'"
  by (auto simp: accounted_def acks_def intro!: exI [of _ "[]"])

lemma accounted_trans:
  assumes "accounted fins st st1" "accounted fins' st1 st2"
  shows "accounted (fins @ fins') st st2"
proof -
  obtain fs where fs: "wr (as_writer st1) = wr (as_writer st) @ concat (map frame_bytes fs)"
      "\<And>sid. acks sid fs + of_bool (sid \<in> as_synacked st) \<le>
         count_list fins sid + of_bool (sid \<in> as_synacked st1)"
    using assms(1) by (auto simp: accounted_def)
  obtain fs' where fs': "wr (as_writer st2) = wr (as_writer st1) @ concat (map frame_bytes fs')"
      "\<And>sid. acks sid fs' + of_bool (sid \<in> as_synacked st1) \<le>
         count_list fins' sid + of_bool (sid \<in> as_synacked st2)"
    using assms(2) by (auto simp: accounted_def)
  have "acks sid (fs @ fs') + of_bool (sid \<in> as_synacked st) \<le>
      count_list (fins @ fins') sid + of_bool (sid \<in> as_synacked st2)" for sid
    using fs(2) [of sid] fs'(2) [of sid] by (simp add: acks_def count_list_append)
  then show ?thesis
    using fs(1) fs'(1) unfolding accounted_def by (intro exI [of _ "fs @ fs'"]) simp
qed

lemma accounted_write:
  assumes "frame_format core" "cmd \<noteq> CMD_SYNACK"
  shows "sm_rel (accounted []) (session_write_frame core cmd sid data)"
  unfolding sm_rel_def
proof
  fix st :: "'s anytls_session"
  obtain w fs where w: "snd (session_write_frame core cmd sid data st) = st\<lparr>as_writer := w\<rparr>"
      "wr w = wr (as_writer st) @ concat (map frame_bytes fs)"
      "fs = [] \<or> fs = [\<lparr>fr_command = cmd, fr_stream_id = sid, fr_data = data\<rparr>]"
    using session_write_frame_only [OF assms(1)] by blast
  then have "acks i fs = 0" for i using assms(2) by (auto simp: acks_def)
  with w show "accounted [] st (snd (session_write_frame core cmd sid data st))"
    by (auto simp: accounted_def)
qed

lemma accounted_synack:
  assumes "frame_format core"
  shows "sm_rel (accounted []) (synack core sid)"
  unfolding sm_rel_def
proof
  fix st :: "'s anytls_session"
  let ?st = "st\<lparr>as_synacked := insert sid (as_synacked st)\<rparr>"
  obtain w fs where w: "snd (session_write_frame core CMD_SYNACK sid [] ?st) = ?st\<lparr>as_writer := w\<rparr>"
      "wr w = wr (as_writer ?st) @ concat (map frame_bytes fs)"
      "fs = [] \<or> fs = [\<lparr>fr_command = CMD_SYNACK, fr_stream_id = sid, fr_data = []\<rparr>]"
    using session_write_frame_only [OF assms] by blast
  then have acks: "acks i fs \<le> of_bool (i = sid)" for i by (auto simp: acks_def)
  show "accounted [] st (snd (synack core sid st))"
  proof (cases "as_client_v2 st \<and> sid \<notin> as_synacked st")
    case True
    have "acks i fs + of_bool (i \<in> as_synacked st) \<le> of_bool (i \<in> insert sid (as_synacked st))" for i
      using acks [of i] True by (cases "i = sid") auto
    with True w show ?thesis unfolding accounted_def by (intro exI [of _ fs]) (simp add: synack_def)
  next
    case False
    then have "snd (synack core sid st) = st" by (auto simp: synack_def)
    then show ?thesis by (simp add: accounted_same)
  qed
qed

lemma accounted_bind:
  "sm_rel (accounted []) m \<Longrightarrow> (\<And>x. sm_rel (accounted []) (k x)) \<Longrightarrow> sm_rel (accounted []) (sm_bind m k)"
  using accounted_trans [of "[]" _ _ "[]"] by (intro sm_rel_bind) auto

lemmas accounted_pure = sm_rel_pure [of "accounted []", OF accounted_same [OF refl refl]]

lemma accounted_modify:
  "(\<And>st. as_writer (f st) = as_writer st) \<Longrightarrow> (\<And>st. as_synacked (f st) = as_synacked st) \<Longrightarrow>
   sm_rel (accounted []) (sm_modify f)"
  by (intro sm_rel_modify accounted_same)

lemma not_synack:
  "CMD_FIN \<noteq> CMD_SYNACK" "CMD_ALERT \<noteq> CMD_SYNACK" "CMD_SERVER_SETTINGS \<noteq> CMD_SYNACK"
  "CMD_UPDATE_PADDING_SCHEME \<noteq> CMD_SYNACK" "CMD_HEART_RESPONSE \<noteq> CMD_SYNACK"
  by (simp_all add: anytls_cmds)

lemma accounted_settings:
  assumes "frame_format core"
  shows "sm_rel (accounted []) (handle_settings core md5 scheme data)"
  unfolding handle_settings_def Let_def
  by (intro accounted_bind accounted_modify)
    (simp_all add: accounted_write [OF assms] not_synack accounted_pure)

lemma accounted_refuse:
  assumes "frame_format core"
  shows "sm_rel (accounted []) (sm_bind (write_alert core msg) (\<lambda>_. sm_fail e))"
  unfolding write_alert_def
  by (intro accounted_bind accounted_write [OF assms] not_synack accounted_pure)

lemma accounted_push_stream:
  assumes "frame_format core"
  shows "sm_rel (accounted []) (push_stream core written sid data stream)"
proof -
  have fin: "sm_rel (accounted []) (session_write_frame core CMD_FIN sid [])"
    by (intro accounted_write [OF assms] not_synack)
  show ?thesis
  proof (cases stream)
    case (InTcp x1 x2)
    then show ?thesis unfolding push_stream_def
      by (cases written) (auto intro!: accounted_bind accounted_modify fin)
  next
    case (InUdp x2)
    then show ?thesis unfolding push_stream_def by (auto intro!: accounted_modify)
  qed
qed

lemma accounted_open:
  assumes "frame_format core"
  shows "sm_rel (accounted []) (open_uot core sid rest)"
    and "sm_rel (accounted []) (open_tcp core written sid outbound rest)"
  unfolding open_uot_def open_tcp_def
  by (intro accounted_bind accounted_modify accounted_synack [OF assms]; simp)
    (cases "rest \<noteq> [] \<and> \<not> is_ok written", 
      auto intro!: accounted_bind accounted_modify accounted_synack accounted_write not_synack assms)

lemma accounted_psh:
  assumes "frame_format core"
  shows "sm_rel (accounted []) (handle_psh core tag dial written sid data)"
proof -
  note keeps = accounted_open [OF assms, unfolded sm_rel_def, rule_format]
    accounted_push_stream [OF assms, unfolded sm_rel_def, rule_format]
    accounted_refuse [OF assms, unfolded sm_rel_def, rule_format]
    accounted_write [OF assms not_synack(1), unfolded sm_rel_def, rule_format]
  show ?thesis
    unfolding sm_rel_def handle_psh_def
    by (simp add: keeps split: option.split sum.split prod.split)
qed

lemma handle_frame_accounted:
  assumes "frame_format core"
  shows "accounted (if fr_command fr = CMD_FIN then [fr_stream_id fr] else []) st
    (snd (handle_frame core tag md5 scheme dial written fr st))"
proof (cases "fr_command fr = CMD_FIN")
  case True
  then show ?thesis
    by (auto simp: handle_frame_def sm_modify_def accounted_def acks_def anytls_cmds
        intro!: exI [of _ "[]"])
next
  case False
  have syn: "sm_rel (accounted []) (handle_syn core sid)" for sid
    unfolding sm_rel_def handle_syn_def
    by (simp add: accounted_refuse [OF assms, unfolded sm_rel_def, rule_format]
        accounted_synack [OF assms, unfolded sm_rel_def, rule_format])
  have "sm_rel (accounted []) (handle_frame core tag md5 scheme dial written fr)"
    using False unfolding handle_frame_def
    by (simp add: accounted_settings [OF assms] syn accounted_psh [OF assms]
      accounted_write [OF assms not_synack(5)] accounted_pure)
  then show ?thesis using False by (simp add: sm_rel_def)
qed

text \<open>C15: Whatever frames a client sends, the frames written back hold at most one
  acknowledgement of a stream more than the client has finished that stream: a stream is
  acknowledged once, and again only after the client has closed it.\<close>

theorem anytls_synack_once:
  assumes "frame_format core"
    and "session_loop core tag md5 scheme frames (session_start w) = (r, st)"
  shows "\<exists>fs. wr (as_writer st) = wr w @ concat (map frame_bytes fs) \<and>
    (\<forall>sid. acks sid fs \<le> 1 + count_list
       (map (\<lambda>(fr, _). fr_stream_id fr) (filter (\<lambda>(fr, _). fr_command fr = CMD_FIN) frames)) sid)"
proof -
  let ?fins = "\<lambda>frames. map (\<lambda>(fr, _). fr_stream_id fr) (filter (\<lambda>(fr, _). fr_command fr = CMD_FIN) frames)"
  have "\<exists>pre post. ?fins frames = pre @ post \<and> accounted pre st0 st"
    if "session_loop core tag md5 scheme frames st0 = (r, st)" for st0
    using that assms(1)
  proof (induction core tag md5 scheme frames arbitrary: st0 rule: session_loop.induct)
    case (1 core tag md5 scheme)
    then show ?case by (auto simp: sm_return_def accounted_same)
  next
    case (2 core tag md5 scheme fr dial written frames)
    obtain r1 st1 where h: "handle_frame core tag md5 scheme dial written fr st0 = (r1, st1)"
      by (cases "handle_frame core tag md5 scheme dial written fr st0")
    let ?fin = "if fr_command fr = CMD_FIN then [fr_stream_id fr] else []"
    have a: "accounted ?fin st0 st1"
      using handle_frame_accounted [OF "2.prems"(2), of fr st0 tag md5 scheme dial written] h by simp
    show ?case
    proof (cases r1)
      case (Inl e)
      then have "st1 = st" using h "2.prems"(1) by simp
      with a have "?fins ((fr, dial, written) # frames) = ?fin @ ?fins frames \<and> accounted ?fin st0 st"
        by simp
      then show ?thesis by blast
    next
      case (Inr u)
      then obtain pre post where "?fins frames = pre @ post" "accounted pre st1 st"
        using h "2.prems" "2.IH" [of st1] by auto
      then have "?fins ((fr, dial, written) # frames) = (?fin @ pre) @ post \<and>
          accounted (?fin @ pre) st0 st"
        using accounted_trans [OF a] by simp
      then show ?thesis by blast
    qed
  qed
  then obtain pre post where pre: "?fins frames = pre @ post" "accounted pre (session_start w) st"
    using assms(2) by blast
  then obtain fs where fs: "wr (as_writer st) = wr w @ concat (map frame_bytes fs)"
      "\<And>sid. acks sid fs \<le> count_list pre sid + of_bool (sid \<in> as_synacked st)"
    by (auto simp: accounted_def session_start_def)
  have "acks sid fs \<le> 1 + count_list (?fins frames) sid" for sid
    using fs(2) [of sid] by (cases "sid \<in> as_synacked st") (simp_all add: pre(1) count_list_append)
  with fs(1) show ?thesis by blast
qed

theorem anytls_synack_once_witness:
  "\<exists>r st fs. session_loop demo_core ''in'' ''md5'' []
      [(\<lparr>fr_command = 4, fr_stream_id = 0, fr_data = as_bytes ''v=2''\<rparr>, Inr, Inr ()),
       (\<lparr>fr_command = 1, fr_stream_id = 1, fr_data = []\<rparr>, Inr, Inr ()),
       (\<lparr>fr_command = 1, fr_stream_id = 1, fr_data = []\<rparr>, Inr, Inr ())]
      (session_start \<lparr>rd = [], wr = [], fault = None\<rparr>) = (r, st) \<and>
    wr (as_writer st) = concat (map frame_bytes fs) \<and> acks 1 fs \<le> 1"
proof -
  let ?frames = "[(\<lparr>fr_command = 4, fr_stream_id = 0, fr_data = as_bytes ''v=2''\<rparr>,
        Inr :: session \<Rightarrow> session res, Inr ()),
       (\<lparr>fr_command = 1, fr_stream_id = 1, fr_data = []\<rparr>, Inr, Inr ()),
       (\<lparr>fr_command = 1, fr_stream_id = 1, fr_data = []\<rparr>, Inr, Inr ())]"
  let ?w = "\<lparr>rd = [], wr = [], fault = None\<rparr>"
  obtain r st where l: "session_loop demo_core ''in'' ''md5'' [] ?frames (session_start ?w) = (r, st)"
    by (cases "session_loop demo_core ''in'' ''md5'' [] ?frames (session_start ?w)")
  obtain fs where "wr (as_writer st) = concat (map frame_bytes fs)" "acks 1 fs \<le> 1"
    using anytls_synack_once [OF demo_core_format l] by (auto simp: anytls_cmds)
  with l show ?thesis by blast
qed

end
