(* ===== verification/Anytls_Streams.thy ===== *)
theory Anytls_Streams
  imports Anytls_Inbound
begin

text \<open>
  What the AnyTLS inbound delivers: the bytes of a TCP stream reach the outbound that was dialed for
  it, the packets of a UDP over TCP stream reach the datagram session, whatever other streams do and
  however the client cuts its data into frames; and the fallback sees the bytes of a client that did
  not authenticate.
\<close>

section \<open>Streams do not disturb each other\<close>

definition keeps :: "u32 \<Rightarrow> 's anytls_session \<Rightarrow> 's anytls_session \<Rightarrow> bool" where
  "keeps sid st st' \<longleftrightarrow>
     fmlookup (as_streams st') sid = fmlookup (as_streams st) sid \<and>
     (as_settings_seen st \<longrightarrow> as_settings_seen st')"

lemma keeps_bind:
  "sm_rel (keeps sid) m \<Longrightarrow> (\<And>x. sm_rel (keeps sid) (k x)) \<Longrightarrow> sm_rel (keeps sid) (sm_bind m k)"
  by (rule sm_rel_bind) (auto simp: keeps_def)

lemma keeps_pure:
  "sm_rel (keeps sid) (sm_return x)" "sm_rel (keeps sid) (sm_fail e)" "sm_rel (keeps sid) (sm_lift y)"
  by (simp_all add: sm_rel_pure keeps_def)

lemma keeps_modify: "(\<And>st. keeps sid st (f st)) \<Longrightarrow> sm_rel (keeps sid) (sm_modify f)"
  by (rule sm_rel_modify)

lemma keeps_write: "sm_rel (keeps sid) (session_write_frame core cmd i data)"
  unfolding sm_rel_def
proof
  fix st :: "'s anytls_session"
  obtain w where "snd (session_write_frame core cmd i data st) = st\<lparr>as_writer := w\<rparr>"
    using session_write_frame_state by blast
  then show "keeps sid st (snd (session_write_frame core cmd i data st))" by (simp add: keeps_def)
qed

lemma keeps_synack: "sm_rel (keeps sid) (synack core i)"
  unfolding sm_rel_def
proof
  fix st :: "'s anytls_session"
  let ?st = "st\<lparr>as_synacked := insert i (as_synacked st)\<rparr>"
  have "keeps sid ?st (snd (session_write_frame core CMD_SYNACK i [] ?st))"
    using keeps_write [of sid core CMD_SYNACK i "[]"] unfolding sm_rel_def by blast
  then show "keeps sid st (snd (synack core i st))" by (simp add: synack_def keeps_def)
qed

lemma keeps_refuse: "sm_rel (keeps sid) (sm_bind (write_alert core msg) (\<lambda>_. sm_fail e))"
  unfolding write_alert_def by (intro keeps_bind keeps_write keeps_pure)

lemma keeps_settings: "sm_rel (keeps sid) (handle_settings core md5 scheme data)"
  unfolding handle_settings_def Let_def
  by (intro keeps_bind keeps_modify) (simp_all add: keeps_write keeps_pure keeps_def)

lemma keeps_syn: "sm_rel (keeps sid) (handle_syn core i)"
  unfolding sm_rel_def handle_syn_def
  by (simp add: keeps_refuse [unfolded sm_rel_def, rule_format]
      keeps_synack [unfolded sm_rel_def, rule_format])

lemma keeps_push_stream:
  "i \<noteq> sid \<Longrightarrow> sm_rel (keeps sid) (push_stream core written i data stream)"
  unfolding push_stream_def
  by (cases stream; cases written)
    (auto intro!: keeps_bind keeps_modify keeps_write simp: keeps_def)

lemma keeps_open:
  assumes "i \<noteq> sid"
  shows "sm_rel (keeps sid) (open_uot core i rest)"
    and "sm_rel (keeps sid) (open_tcp core written i outbound rest)"
proof -
  show "sm_rel (keeps sid) (open_uot core i rest)"
    unfolding open_uot_def using assms
    by (intro keeps_bind keeps_modify keeps_synack) (simp_all add: keeps_def)
  show "sm_rel (keeps sid) (open_tcp core written i outbound rest)"
    unfolding open_tcp_def using assms
    by (cases "rest \<noteq> [] \<and> \<not> is_ok written")
      (auto intro!: keeps_bind keeps_modify keeps_synack keeps_write simp: keeps_def)
qed

lemma keeps_psh:
  assumes "i \<noteq> sid"
  shows "sm_rel (keeps sid) (handle_psh core tag dial written i data)"
proof -
  note rules = keeps_open [OF assms] keeps_push_stream [OF assms] keeps_refuse keeps_write
  show ?thesis
    unfolding sm_rel_def handle_psh_def
    by (simp add: rules [unfolded sm_rel_def, rule_format] split: option.split sum.split prod.split)
qed

lemma keeps_frame:
  assumes "fr_stream_id fr \<noteq> sid \<or> fr_command fr \<notin> {CMD_PSH, CMD_FIN}"
  shows "sm_rel (keeps sid) (handle_frame core tag md5 scheme dial written fr)"
proof -
  have fin: "sm_rel (keeps sid) (sm_modify (\<lambda>st. st\<lparr>as_streams := fmdrop i (as_streams st),
      as_synacked := as_synacked st - {i}\<rparr>))" if "i \<noteq> sid" for i
    using that by (intro keeps_modify) (simp add: keeps_def)
  show ?thesis
    using assms unfolding handle_frame_def
    by (auto simp: keeps_settings keeps_syn keeps_psh keeps_pure keeps_write fin)
qed

text \<open>What pushing data to a stream makes of it.\<close>

fun feed :: "'s inbound_stream \<Rightarrow> bytes list \<Rightarrow> 's inbound_stream" where
  "feed (InTcp outbound sofar) payloads = InTcp outbound (sofar @ concat payloads)"
| "feed (InUdp sofar) payloads = InUdp (sofar @ payloads)"

lemma feed_simps [simp]: "feed s [] = s" "feed (feed s xs) ys = feed s (xs @ ys)"
  by (cases s, auto)+

definition payloads_of :: "u32 \<Rightarrow> (frame \<times> 's answer) list \<Rightarrow> bytes list" where
  "payloads_of sid frames =
     map (\<lambda>(fr, _). fr_data fr)
       (filter (\<lambda>(fr, _). fr_command fr = CMD_PSH \<and> fr_stream_id fr = sid) frames)"

text \<open>The client does not finish the stream, and the outbound accepts what is written to it.\<close>

definition undisturbed :: "u32 \<Rightarrow> (frame \<times> 's answer) list \<Rightarrow> bool" where
  "undisturbed sid frames \<longleftrightarrow>
     list_all (\<lambda>(fr, dial, written). fr_stream_id fr = sid \<longrightarrow>
       fr_command fr \<noteq> CMD_FIN \<and> (fr_command fr = CMD_PSH \<longrightarrow> is_ok written)) frames"

lemma push_frame:
  assumes "as_settings_seen st" "fmlookup (as_streams st) sid = Some stream" "is_ok written"
    and "fr_command fr = CMD_PSH" "fr_stream_id fr = sid"
  shows "handle_frame core tag md5 scheme dial written fr st =
    (Inr (), st\<lparr>as_streams := fmupd sid (feed stream [fr_data fr]) (as_streams st)\<rparr>)"
  using assms
  by (cases stream; cases written)
    (auto simp: handle_frame_def handle_psh_def push_stream_def sm_modify_def anytls_cmds)

lemma session_loop_feeds:
  assumes "session_loop core tag md5 scheme frames st = (Inr (), st')"
    and "as_settings_seen st" "fmlookup (as_streams st) sid = Some stream" "undisturbed sid frames"
  shows "fmlookup (as_streams st') sid = Some (feed stream (payloads_of sid frames))"
  using assms
proof (induction core tag md5 scheme frames arbitrary: st stream rule: session_loop.induct)
  case (1 core tag md5 scheme)
  then show ?case by (simp add: sm_return_def payloads_of_def)
next
  case (2 core tag md5 scheme fr dial written frames)
  then obtain st1 where h: "handle_frame core tag md5 scheme dial written fr st = (Inr (), st1)"
      "session_loop core tag md5 scheme frames st1 = (Inr (), st')"
    by (auto simp: sm_bind_Inr_iff)
  have rest: "undisturbed sid frames" using "2.prems"(4) by (simp add: undisturbed_def)
  show ?case
  proof (cases "fr_command fr = CMD_PSH \<and> fr_stream_id fr = sid")
    case True
    have "is_ok written" using True "2.prems"(4) by (simp add: undisturbed_def)
    with True push_frame [OF "2.prems"(2,3), of written fr core tag md5 scheme dial] h(1)
    have "st1 = st\<lparr>as_streams := fmupd sid (feed stream [fr_data fr]) (as_streams st)\<rparr>" by simp
    then show ?thesis
      using "2.IH" [OF h(2) _ _ rest, of "feed stream [fr_data fr]"] True "2.prems"(2)
      by (simp add: payloads_of_def)
  next
    case False
    then have "fr_stream_id fr \<noteq> sid \<or> fr_command fr \<notin> {CMD_PSH, CMD_FIN}"
      using "2.prems"(4) by (auto simp: undisturbed_def)
    then have "keeps sid st st1" using sm_relD [OF keeps_frame h(1)] by blast
    then show ?thesis
      using "2.IH" [OF h(2) _ _ rest, of stream] False "2.prems"(2,3)
      by (auto simp: payloads_of_def keeps_def)
  qed
qed

section \<open>TCP streams\<close>

lemma synack_Inr: "synack core sid st = (Inr (), st') \<Longrightarrow> as_streams st' = as_streams st \<and>
    as_settings_seen st' = as_settings_seen st \<and> as_spawned st' = as_spawned st"
  by (auto simp: synack_def session_write_frame_def split: if_splits prod.splits)

lemma open_tcp_frame:
  assumes "as_settings_seen st" "fmlookup (as_streams st) sid = None" "is_ok written"
    and "decode_socksaddr data = Inr (target, n)" "\<not> is_uot_v2_magic_target target"
    and "dial \<lparr>sess_inbound = tag, sess_command = Connect, sess_target = target\<rparr> = Inr outbound"
    and "handle_frame core tag md5 scheme dial written
      \<lparr>fr_command = CMD_PSH, fr_stream_id = sid, fr_data = data\<rparr> st = (Inr (), st')"
  shows "fmlookup (as_streams st') sid = Some (InTcp outbound (drop n data)) \<and> as_settings_seen st' \<and>
    as_spawned st' = as_spawned st @ [SpawnOutboundReader sid outbound]"
proof -
  have "open_tcp core written sid outbound (drop n data) st = (Inr (), st')"
    using assms by (simp add: handle_frame_def handle_psh_def anytls_cmds)
  then show ?thesis
    using assms(1,3) by (auto simp: open_tcp_def sm_modify_def sm_bind_Inr_iff dest!: synack_Inr)
qed

lemma tcp_delivery:
  assumes "encode_socksaddr target = Inr addr" "valid_target target"
    and "\<not> is_uot_v2_magic_target (wire_form target)"
    and "dial \<lparr>sess_inbound = tag, sess_command = Connect, sess_target = wire_form target\<rparr> = Inr outbound"
    and "as_settings_seen st" "fmlookup (as_streams st) sid = None"
    and "is_ok written" "undisturbed sid frames"
    and "session_loop core tag md5 scheme
      ((\<lparr>fr_command = CMD_PSH, fr_stream_id = sid, fr_data = addr @ first\<rparr>, dial, written) # frames) st
      = (Inr (), st')"
  shows "fmlookup (as_streams st') sid =
    Some (InTcp outbound (first @ concat (payloads_of sid frames)))"
proof -
  obtain st1 where h: "handle_frame core tag md5 scheme dial written
        \<lparr>fr_command = CMD_PSH, fr_stream_id = sid, fr_data = addr @ first\<rparr> st = (Inr (), st1)"
      "session_loop core tag md5 scheme frames st1 = (Inr (), st')"
    using assms(9) by (auto simp: sm_bind_Inr_iff)
  note opened = open_tcp_frame [OF assms(5,6,7) socksaddr.dec_enc [OF assms(1,2)] assms(3,4) h(1)]
  then have "fmlookup (as_streams st1) sid = Some (InTcp outbound first)" "as_settings_seen st1" by auto
  from session_loop_feeds [OF h(2) this(2,1) assms(8)] show ?thesis by simp
qed

text \<open>A TCP stream arrives whole and alone. When a client opens a stream by sending an encoded
  target with the first data, and the router dials it, then after any further frames (of this and of
  other streams, settings and heartbeats included) the outbound dialed for exactly that target has
  been written the first data followed by the data of the stream's later frames, in order, and
  nothing else.\<close>

theorem anytls_tcp_delivery:
  assumes "encode_socksaddr target = Inr addr" "valid_target target"
    and "\<not> is_uot_v2_magic_target (wire_form target)"
    and "dial \<lparr>sess_inbound = tag, sess_command = Connect, sess_target = wire_form target\<rparr> = Inr outbound"
    and "as_settings_seen st" "fmlookup (as_streams st) sid = None"
    and "is_ok written" "undisturbed sid frames"
    and "session_loop core tag md5 scheme
      ((\<lparr>fr_command = CMD_PSH, fr_stream_id = sid, fr_data = addr @ first\<rparr>, dial, written) # frames) st
      = (Inr (), st')"
  shows "fmlookup (as_streams st') sid =
    Some (InTcp outbound (first @ concat (payloads_of sid frames)))"
  using assms by (rule tcp_delivery)

section \<open>Data for a stream that could not be opened\<close>

text \<open>C20: When the dial for a stream fails, nothing remembers that the stream was refused: the next
  data frame that the client had already sent for it is read as a target again. If its bytes happen to
  decode, the server dials what they say.\<close>

theorem anytls_failed_dial_reinterprets:
  assumes "as_settings_seen st" "fmlookup (as_streams st) sid = None"
    and "decode_socksaddr first = Inr (target, n)" "\<not> is_uot_v2_magic_target target"
    and "dial \<lparr>sess_inbound = tag, sess_command = Connect, sess_target = target\<rparr> = Inl e"
    and "decode_socksaddr later = Inr (target', n')" "\<not> is_uot_v2_magic_target target'"
    and "dial' \<lparr>sess_inbound = tag, sess_command = Connect, sess_target = target'\<rparr> = Inr outbound"
    and "is_ok written"
    and "session_loop core tag md5 scheme
      [(\<lparr>fr_command = CMD_PSH, fr_stream_id = sid, fr_data = first\<rparr>, dial, Inr ()),
       (\<lparr>fr_command = CMD_PSH, fr_stream_id = sid, fr_data = later\<rparr>, dial', written)] st = (Inr (), st')"
  shows "fmlookup (as_streams st') sid = Some (InTcp outbound (drop n' later)) \<and>
    as_spawned st' = as_spawned st @ [SpawnOutboundReader sid outbound]"
proof -
  let ?fr = "\<lambda>data. \<lparr>fr_command = CMD_PSH, fr_stream_id = sid, fr_data = data\<rparr>"
  obtain st1 where h: "handle_frame core tag md5 scheme dial (Inr ()) (?fr first) st = (Inr (), st1)"
      "handle_frame core tag md5 scheme dial' written (?fr later) st1 = (Inr (), st')"
    using assms(10) by (auto simp: sm_bind_Inr_iff sm_return_def)
  have "session_write_frame core CMD_FIN sid [] st = (Inr (), st1)"
    using h(1) assms(1-5) by (simp add: handle_frame_def handle_psh_def anytls_cmds)
  then have "as_streams st1 = as_streams st" "as_settings_seen st1 = as_settings_seen st"
      "as_spawned st1 = as_spawned st"
    by (auto simp: session_write_frame_def split: prod.splits)
  with open_tcp_frame [OF _ _ assms(9,6-8) h(2)] assms(1,2) show ?thesis by simp
qed

theorem anytls_failed_dial_reinterprets_witness:
  "\<exists>st'. session_loop demo_core ''in'' ''md5'' []
      [(\<lparr>fr_command = 2, fr_stream_id = 1, fr_data = [3, 1, 97, 0, 80]\<rparr>, \<lambda>_. Inl IoError, Inr ()),
       (\<lparr>fr_command = 2, fr_stream_id = 1, fr_data = [3, 1, 98, 0, 80]\<rparr>, Inr, Inr ())]
      ((session_start \<lparr>rd = [], wr = [], fault = None\<rparr>)\<lparr>as_settings_seen := True\<rparr>) = (Inr (), st') \<and>
    fmlookup (as_streams st') 1 = Some (InTcp
      \<lparr>sess_inbound = ''in'', sess_command = Connect, sess_target = TDomain ''b'' 80\<rparr> [])"
proof -
  let ?st = "(session_start \<lparr>rd = [], wr = [], fault = None\<rparr>)\<lparr>as_settings_seen := True\<rparr> :: session anytls_session"
  let ?frames = "[(\<lparr>fr_command = CMD_PSH, fr_stream_id = 1, fr_data = [3, 1, 97, 0, 80]\<rparr>,
        (\<lambda>_. Inl IoError) :: session \<Rightarrow> session res, Inr ()),
       (\<lparr>fr_command = CMD_PSH, fr_stream_id = 1, fr_data = [3, 1, 98, 0, 80]\<rparr>, Inr, Inr () :: unit res)]"
  have enc: "encode_socksaddr (TDomain ''a'' 80) = Inr [3, 1, 97, 0, 80]"
      "encode_socksaddr (TDomain ''b'' 80) = Inr [3, 1, 98, 0, 80]" by (simp_all add: eval_simps)
  have v: "valid_target (TDomain ''a'' 80)" "valid_target (TDomain ''b'' 80)"
      "\<not> is_uot_v2_magic_target (TDomain ''a'' 80)" "\<not> is_uot_v2_magic_target (TDomain ''b'' 80)"
    by (simp_all add: eval_simps UOT_V2_MAGIC_HOST_def)
  have d: "decode_socksaddr [3, 1, 97, 0, 80] = Inr (TDomain ''a'' 80, 5)"
      "decode_socksaddr [3, 1, 98, 0, 80] = Inr (TDomain ''b'' 80, 5)"
    using socksaddr.dec_enc [OF enc(1) v(1), of "[]"] socksaddr.dec_enc [OF enc(2) v(2), of "[]"]
    by simp_all
  obtain st' where l: "session_loop demo_core ''in'' ''md5'' [] ?frames ?st = (Inr (), st')"
    using d v
    by (simp add: session_start_def handle_frame_def handle_psh_def open_tcp_def session_write_frame_def
        write_frame_def encode_frame_def sm_lift_def tcp_write_all_def demo_core_def synack_def
        sm_modify_def sm_return_def anytls_cmds sm_bind_def)
  have "fmlookup (as_streams st') 1 = Some (InTcp
      \<lparr>sess_inbound = ''in'', sess_command = Connect, sess_target = TDomain ''b'' 80\<rparr> [])"
    using anytls_failed_dial_reinterprets [OF _ _ d(1) v(3) _ d(2) v(4) _ _ l]
    by (simp add: session_start_def)
  with l show ?thesis by (auto simp: anytls_cmds)
qed

section \<open>UDP over TCP streams\<close>

fun is_input :: "uot_event \<Rightarrow> bool" where
  "is_input (UotInput _) = True"
| "is_input (UotReceived _ _) = False"

text \<open>The sends and writes succeed, and the datagrams that are received can be encoded.\<close>

fun uot_event_ok :: "uot_event \<Rightarrow> bool" where
  "uot_event_ok (UotInput sent) = is_ok sent"
| "uot_event_ok (UotReceived received written) =
     (is_ok (and_then received (\<lambda>(source, payload). encode_uot_packet source payload)) \<and> is_ok written)"

fun sends_of :: "uot_action list \<Rightarrow> (target_addr \<times> bytes) list" where
  "sends_of [] = []"
| "sends_of (UotSendTo t p # as) = (t, p) # sends_of as"
| "sends_of (UotWrite _ # as) = sends_of as"

fun writes_of :: "uot_action list \<Rightarrow> frame list" where
  "writes_of [] = []"
| "writes_of (UotSendTo _ _ # as) = writes_of as"
| "writes_of (UotWrite fr # as) = fr # writes_of as"

lemma actions_append:
  "sends_of (as @ bs) = sends_of as @ sends_of bs" "writes_of (as @ bs) = writes_of as @ writes_of bs"
  by (induction as rule: sends_of.induct) simp_all

fun replies :: "u32 \<Rightarrow> uot_event list \<Rightarrow> frame list" where
  "replies sid [] = []"
| "replies sid (UotInput _ # evs) = replies sid evs"
| "replies sid (UotReceived received _ # evs) =
     (case and_then received (\<lambda>(source, payload). encode_uot_packet source payload) of
        Inl _ \<Rightarrow> replies sid evs
      | Inr data \<Rightarrow> \<lparr>fr_command = CMD_PSH, fr_stream_id = sid, fr_data = data\<rparr> # replies sid evs)"

definition encoded :: "(target_addr \<times> bytes) list \<Rightarrow> bytes list \<Rightarrow> bool" where
  "encoded = list_all2 (\<lambda>(t, p) bs. valid_target t \<and> encode_uot_packet t p = Inr bs)"

lemma uot_packet_run:
  assumes "cr_ok r" "encoded packets bss" "cr_view r = concat bss"
    and "list_all uot_event_ok evs" "length (filter is_input evs) \<le> length packets"
  shows "sends_of (uot_run (uot_packet_step sid) r evs) =
      map (\<lambda>(t, p). (wire_form t, p)) (take (length (filter is_input evs)) packets) \<and>
    writes_of (uot_run (uot_packet_step sid) r evs) = replies sid evs"
  using assms
proof (induction evs arbitrary: r packets bss)
  case (Cons ev evs)
  show ?case
  proof (cases ev)
    case (UotInput sent)
    then obtain t p packets' bs bss' where split: "packets = (t, p) # packets'" "bss = bs # bss'"
        "valid_target t" "encode_uot_packet t p = Inr bs" "encoded packets' bss'"
      using Cons.prems(2,5) by (cases packets) (auto simp: encoded_def list_all2_Cons1)
    obtain r' where "cr_read_packet r = (Inr (wire_form t, p), r')" "cr_ok r'" "cr_view r' = concat bss'"
      using cr_read_packet_encoded [OF Cons.prems(1) split(4,3), of "concat bss'"] split(2) Cons.prems(3)
      by auto
    moreover obtain u where "sent = Inr u" using UotInput Cons.prems(4) by (cases sent) auto
    ultimately show ?thesis
      using Cons.IH [of r' packets' bss'] UotInput split Cons.prems(4,5) by simp
  next
    case (UotReceived received written)
    then obtain data u where
        "and_then received (\<lambda>(source, payload). encode_uot_packet source payload) = Inr data"
        "written = Inr u"
      using Cons.prems(4) by (auto simp: is_ok_iff)
    then show ?thesis
      using Cons.IH [OF Cons.prems(1,2,3)] UotReceived Cons.prems(4,5) by simp
  qed
qed simp

text \<open>UDP over TCP keeps the packets. Let a client open a packet stream with a request and send
  packets, cut into the data of frames in any way. Then the request is dialed for its target, and
  however the arrival of packets interleaves with datagrams from the outbound, the packets are sent
  on in order, each to its own target with its own payload, and the datagrams go back in order as
  encoded packets of this stream.\<close>

theorem anytls_uot_delivery:
  assumes "concat cs = [flag] @ addr @ concat bss" "flag \<noteq> 1"
    and "encode_uot_addr target = Inr addr" "valid_target target"
    and "dial_udp \<lparr>sess_inbound = inbound, sess_command = UdpAssociate, sess_target = wire_form target\<rparr> = Inr d"
    and "encoded packets bss" "list_all uot_event_ok evs"
    and "length (filter is_input evs) \<le> length packets"
  shows "\<exists>r. run_uot_dial inbound dial_udp (cr_new cs) = (Inr (False, wire_form target, d), r) \<and>
    sends_of (uot_run (uot_packet_step sid) r evs) =
      map (\<lambda>(t, p). (wire_form t, p)) (take (length (filter is_input evs)) packets) \<and>
    writes_of (uot_run (uot_packet_step sid) r evs) = replies sid evs"
proof -
  have addr: "addr = format_addr 0x01 0x03 0x04 target" "fits target"
    using assms(3) by (auto simp: encode_uot_addr_def socksaddr.enc_spec split: if_splits)
  have "implements cr_ok cr_view (run_uot_dial inbound dial_udp)
      (p_bind (p_bind p_u8 (\<lambda>b. p_bind p_request_addr (\<lambda>target. p_return (b = 1, target))))
        (\<lambda>(connect, target). p_bind (p_lift (dial_udp
          \<lparr>sess_inbound = inbound, sess_command = UdpAssociate, sess_target = target\<rparr>)) (\<lambda>outbound.
          p_return (connect, target, outbound))))"
    unfolding run_uot_dial_def run_uot_request_def case_prod_unfold
    by (intro implements_bind cr_read_u8_implements cr_read_socks_target_implements implements_return
        implements_lift)
  from implements_Inr [OF this cr_new_ok(1) [of cs]]
  obtain r where r: "run_uot_dial inbound dial_udp (cr_new cs) = (Inr (False, wire_form target, d), r)"
      "cr_ok r" "cr_view r = concat bss"
    using assms(1,2,4,5) addr by (fastforce simp: cr_new_ok(2) p_request_addr_format p_return_def p_lift_def)
  with uot_packet_run [OF r(2) assms(6) r(3) assms(7,8)] show ?thesis by blast
qed

section \<open>The fallback\<close>

definition pio_view :: "prefixed_io \<Rightarrow> bytes" where
  "pio_view io = drop (pio_position io) (pio_prefix io) @ pio_inner io"

text \<open>A sequence of reads, each with the capacity of its buffer and what the inner stream has ready.\<close>

fun pio_reads :: "((bytes \<Rightarrow> usize) \<times> usize) list \<Rightarrow> prefixed_io \<Rightarrow> bytes list \<times> prefixed_io" where
  "pio_reads [] io = ([], io)"
| "pio_reads ((available, remaining) # rs) io =
     (case pio_poll_read available remaining io of (data, io) \<Rightarrow>
      case pio_reads rs io of (rest, io) \<Rightarrow> (data # rest, io))"

lemma pio_poll_read_view:
  assumes "pio_poll_read available remaining io = (data, io')"
  shows "data @ pio_view io' = pio_view io \<and> length data \<le> remaining \<and>
    (pio_position io < length (pio_prefix io) \<longrightarrow> 0 < remaining \<longrightarrow> data \<noteq> [])"
proof (cases "pio_position io < length (pio_prefix io)")
  case True
  let ?len = "min remaining (length (pio_prefix io) - pio_position io)"
  have "take ?len (drop (pio_position io) (pio_prefix io)) @ drop (pio_position io + ?len) (pio_prefix io) =
      drop (pio_position io) (pio_prefix io)"
    by (metis add.commute append_take_drop_id drop_drop)
  with True assms show ?thesis
    by (auto simp: pio_poll_read_def pio_view_def Let_def simp flip: append_assoc)
next
  case False
  with assms show ?thesis by (auto simp: pio_poll_read_def pio_view_def Let_def)
qed

lemma pio_reads_view:
  "concat (fst (pio_reads rs io)) @ pio_view (snd (pio_reads rs io)) = pio_view io"
proof (induction rs io rule: pio_reads.induct)
  case (2 available remaining rs io)
  obtain data io1 where p: "pio_poll_read available remaining io = (data, io1)"
    by (cases "pio_poll_read available remaining io")
  with 2 [of data io1] pio_poll_read_view [OF p] show ?case
    by (simp add: case_prod_unfold)
qed simp

lemma serve_hello_rejected:
  assumes "serve_hello sha256 cfg s = (Inr (ServeFallback prefix), s')"
  shows "rd s = prefix @ rd s' \<and> wr s' = wr s"
proof -
  obtain users auth s1 where r: "read_client_hello_or_fallback sha256 users s = (Inr auth, s1)"
    and k: "(case auth of Authenticated username \<Rightarrow> sm_return (ServeSession username)
       | Rejected prefix \<Rightarrow> sm_return (ServeFallback prefix)) s1 = (Inr (ServeFallback prefix), s')"
    using assms by (auto simp: serve_hello_def sm_bind_Inr_iff)
  have "read_client_hello_or_fallback sha256 users s = (Inr (Rejected prefix), s')"
    using r k by (cases auth) auto
  then obtain s1 where "rd s = prefix @ rd s1" "s1 = s\<lparr>rd := rd s1\<rparr>" "s' = s1"
    by (auto simp: read_client_hello_or_fallback_def tcp_Inr sm_return_def split: option.splits)
  then show ?thesis by (metis tcp_stream.select_convs(2) tcp_stream.surjective tcp_stream.update_convs(1))
qed

text \<open>C21: The fallback is transparent to a client that does not authenticate. Nothing has been
  written to that client, and the fallback sees every byte it sent, from the first one: the upstream
  server is given exactly the bytes that were taken off the connection and then the rest, and the HTTP
  server reads, in whatever pieces, a prefix of the client's bytes, with the rest still to be read.\<close>

theorem anytls_fallback_transparent:
  assumes "serve_hello sha256 cfg s = (Inr (ServeFallback prefix), s')"
    and "serve_fallback connect_tcp alpn cfg prefix (rd s') = Inr served"
  shows "wr s' = wr s \<and>
    (case served of
       ProxyFallback upstream \<Rightarrow>
         \<exists>server fresh. fallback cfg = Some server \<and> connect_tcp server = Inr fresh \<and>
           wr upstream @ rd s' = wr fresh @ rd s
     | StaticFallback h2 io \<Rightarrow>
         fallback cfg = None \<and> (h2 \<longleftrightarrow> alpn = Some (as_bytes ''h2'')) \<and>
         (\<forall>rs. concat (fst (pio_reads rs io)) @ pio_view (snd (pio_reads rs io)) = rd s))"
proof -
  note s = serve_hello_rejected [OF assms(1)]
  show ?thesis
  proof (cases "fallback cfg")
    case None
    then have "served = StaticFallback (alpn = Some (as_bytes ''h2'')) (pio_new prefix (rd s'))"
      using assms(2) by (simp add: serve_fallback_def)
    then show ?thesis using s None by (simp add: pio_reads_view) (simp add: pio_view_def pio_new_def)
  next
    case (Some server)
    then obtain fresh where fresh: "connect_tcp server = Inr fresh"
        "(case tcp_write_all prefix fresh of (Inl e, _) \<Rightarrow> Inl e
          | (Inr _, upstream) \<Rightarrow> Inr (ProxyFallback upstream)) = Inr served"
      using assms(2) by (auto simp: serve_fallback_def and_then_Inr_iff)
    obtain r upstream where w: "tcp_write_all prefix fresh = (r, upstream)"
      by (cases "tcp_write_all prefix fresh")
    with fresh(2) have "r = Inr ()" "served = ProxyFallback upstream" by (cases r; simp)+
    with w fresh(1) show ?thesis using s Some by (auto dest!: tcp_write_all_Inr)
  qed
qed

definition demo_anytls_inbound :: inbound_config where
  "demo_anytls_inbound =
     \<lparr>in_tag = ''in'', in_listen = SockV4 0 443, in_protocol = Anytls, in_users = Some demo_users,
      padding_scheme = [], fallback = None, in_tls = None\<rparr>"

theorem anytls_fallback_transparent_witness:
  "\<exists>s' io. serve_hello demo_hash demo_anytls_inbound \<lparr>rd = replicate 32 5 @ [9], wr = [], fault = None\<rparr> =
      (Inr (ServeFallback (replicate 32 5)), s') \<and>
    serve_fallback (\<lambda>_. Inl IoError) None demo_anytls_inbound (replicate 32 5) (rd s') =
      Inr (StaticFallback False io) \<and> wr s' = [] \<and>
    concat (fst (pio_reads [(length, 20), (length, 20), (length, 20)] io)) @
      pio_view (snd (pio_reads [(length, 20), (length, 20), (length, 20)] io)) = replicate 32 5 @ [9]"
proof -
  let ?s = "\<lparr>rd = replicate 32 5 @ [9], wr = [], fault = None\<rparr>"
  have hash: "password_hash demo_hash ''p'' = 112 # replicate 31 0" "password_hash demo_hash ''q'' = 113 # replicate 31 0"
    by (simp_all add: password_hash_def demo_hash_def eval_simps)
  have "(112 :: u8) \<noteq> 5" "(113 :: u8) \<noteq> 5" by simp_all
  then have differ: "112 # replicate 31 0 \<noteq> replicate 32 (5 :: u8)" "113 # replicate 31 0 \<noteq> replicate 32 (5 :: u8)"
    by (metis list.set_intros(1) in_set_replicate)+
  have h: "serve_hello demo_hash demo_anytls_inbound ?s =
      (Inr (ServeFallback (replicate 32 5)), ?s\<lparr>rd := [9]\<rparr>)"
    by (simp add: serve_hello_def demo_anytls_inbound_def read_client_hello_or_fallback_def demo_users_def
        PASSWORD_HASH_LEN_def hash differ sm_bind_def sm_lift_def sm_return_def tcp_read_exact_def)
  have f: "serve_fallback (\<lambda>_. Inl IoError) None demo_anytls_inbound (replicate 32 5) (rd (?s\<lparr>rd := [9]\<rparr>)) =
      Inr (StaticFallback False (pio_new (replicate 32 5) [9]))"
    by (simp add: serve_fallback_def demo_anytls_inbound_def)
  from anytls_fallback_transparent [OF h f] h f show ?thesis by (auto simp del: pio_reads.simps)
qed

end
