(* ===== verification/Anytls_Tunnel.thy ===== *)
theory Anytls_Tunnel
  imports Anytls_Streams Anytls_Writer
begin

text \<open>
  The two ends of AnyTLS together: the frames a client writes through its padding writer, read by the
  frame loop of the server. The server loop is shown to be total once the settings have arrived, and
  the data of a stream to reach the outbound that was dialed for it.
\<close>

section \<open>The server does not fail\<close>

definition total_on :: "('s \<Rightarrow> bool) \<Rightarrow> ('s, unit) sm \<Rightarrow> bool" where
  "total_on P m \<longleftrightarrow> (\<forall>s. P s \<longrightarrow> (\<exists>s'. m s = (Inr (), s') \<and> P s'))"

lemma total_onD: "total_on P m \<Longrightarrow> P s \<Longrightarrow> \<exists>s'. m s = (Inr (), s') \<and> P s'"
  by (simp add: total_on_def)

lemma total_bind: "total_on P m \<Longrightarrow> (\<And>x. total_on P (k x)) \<Longrightarrow> total_on P (sm_bind m k)"
  by (fastforce simp: total_on_def sm_bind_def)

lemma total_return: "total_on P (sm_return ())"
  by (simp add: total_on_def sm_return_def)

lemma total_modify: "(\<And>s. P s \<Longrightarrow> P (f s)) \<Longrightarrow> total_on P (sm_modify f)"
  by (simp add: total_on_def sm_modify_def)

definition serving :: "'s anytls_session \<Rightarrow> bool" where
  "serving st \<longleftrightarrow> as_settings_seen st \<and> fault (as_writer st) = None"

lemma session_write_frame_ok:
  assumes "frame_format core" "length data \<le> 65535" "fault (as_writer st) = None"
  shows "session_write_frame core cmd sid data st =
    (Inr (), st\<lparr>as_writer := (as_writer st)\<lparr>wr := wr (as_writer st) @
       frame_bytes \<lparr>fr_command = cmd, fr_stream_id = sid, fr_data = data\<rparr>\<rparr>\<rparr>)"
proof -
  let ?f = "\<lparr>fr_command = cmd, fr_stream_id = sid, fr_data = data\<rparr>"
  have "encode_frame core cmd sid data = Inr (frame_bytes ?f)"
    using encode_frame_bytes [OF assms(1), of ?f] assms(2) by (simp add: frame_fits_def)
  then show ?thesis
    using assms(3) by (simp add: session_write_frame_def write_frame_def sm_bind_def sm_lift_def)
qed

lemma total_write:
  "frame_format core \<Longrightarrow> length data \<le> 65535 \<Longrightarrow> total_on serving (session_write_frame core cmd sid data)"
  by (simp add: total_on_def serving_def session_write_frame_ok)

lemma total_synack: "frame_format core \<Longrightarrow> total_on serving (synack core sid)"
  by (simp add: total_on_def synack_def serving_def session_write_frame_ok)

lemma total_push_stream:
  "frame_format core \<Longrightarrow> total_on serving (push_stream core written sid data stream)"
  unfolding push_stream_def
  by (cases stream; cases written) (auto intro!: total_bind total_modify total_write simp: serving_def)

lemma total_open:
  assumes "frame_format core"
  shows "total_on serving (open_uot core sid rest)" "total_on serving (open_tcp core written sid outbound rest)"
proof -
  show "total_on serving (open_uot core sid rest)"
    unfolding open_uot_def
    by (intro total_bind total_modify total_synack assms) (simp_all add: serving_def)
  show "total_on serving (open_tcp core written sid outbound rest)"
    unfolding open_tcp_def
    by (cases "rest \<noteq> [] \<and> \<not> is_ok written")
      (auto intro!: total_bind total_modify total_synack total_write assms simp: serving_def)
qed

lemma total_psh:
  fixes dial :: "session \<Rightarrow> 's res"
  assumes "frame_format core"
  shows "total_on serving (handle_psh core tag dial written sid data)"
  unfolding total_on_def
proof (intro allI impI)
  fix st :: "'s anytls_session" assume st: "serving st"
  note rules = total_onD [OF total_open(1) [OF assms] st] total_onD [OF total_open(2) [OF assms] st]
    total_onD [OF total_push_stream [OF assms] st] total_onD [OF total_write [OF assms] st]
  show "\<exists>st'. handle_psh core tag dial written sid data st = (Inr (), st') \<and> serving st'"
    using st unfolding handle_psh_def
    by (simp add: rules serving_def [of st] split: option.split sum.split prod.split)
qed

lemma settings_serving:
  assumes "frame_format core" "length scheme \<le> 65535" "fault (as_writer st) = None"
  shows "\<exists>st'. handle_settings core md5 scheme data st = (Inr (), st') \<and> serving st'"
proof -
  have "length settings \<le> 65535" by (simp add: settings_def)
  then show ?thesis
    using assms
    by (auto simp: handle_settings_def Let_def sm_bind_def sm_modify_def sm_return_def serving_def
        session_write_frame_ok)
qed

lemma total_settings:
  "frame_format core \<Longrightarrow> length scheme \<le> 65535 \<Longrightarrow> total_on serving (handle_settings core md5 scheme data)"
  unfolding total_on_def by (intro allI impI settings_serving) (simp_all add: serving_def)

lemma total_syn: "frame_format core \<Longrightarrow> total_on serving (handle_syn core sid)"
  unfolding total_on_def handle_syn_def
  by (auto simp: serving_def [THEN iffD1] intro!: total_onD [OF total_synack])

lemma total_fin:
  "total_on serving (sm_modify (\<lambda>st. st\<lparr>as_streams := fmdrop i (as_streams st),
      as_synacked := as_synacked st - {i}\<rparr>))"
  by (intro total_modify) (simp add: serving_def)

lemma total_frame:
  "frame_format core \<Longrightarrow> length scheme \<le> 65535 \<Longrightarrow>
   total_on serving (handle_frame core tag md5 scheme dial written fr)"
  unfolding handle_frame_def
  by (simp add: total_settings total_syn total_fin total_psh total_return total_write)

lemma total_loop:
  "frame_format core \<Longrightarrow> length scheme \<le> 65535 \<Longrightarrow> total_on serving (session_loop core tag md5 scheme frames)"
  by (induction core tag md5 scheme frames rule: session_loop.induct)
    (auto intro!: total_bind total_frame total_return)

lemma session_loop_append:
  "session_loop core tag md5 scheme (xs @ ys) st =
     sm_bind (session_loop core tag md5 scheme xs) (\<lambda>_. session_loop core tag md5 scheme ys) st"
  by (induction core tag md5 scheme xs arbitrary: st rule: session_loop.induct)
    (auto simp: sm_bind_def sm_return_def split: prod.splits sum.splits)

lemma session_loop_keeps:
  assumes "list_all (\<lambda>(fr, _). fr_stream_id fr \<noteq> sid \<or> fr_command fr \<notin> {CMD_PSH, CMD_FIN}) frames"
  shows "sm_rel (keeps sid) (session_loop core tag md5 scheme frames)"
  using assms
proof (induction core tag md5 scheme frames rule: session_loop.induct)
  case (2 core tag md5 scheme fr dial written frames)
  then show ?case by (auto intro!: keeps_bind keeps_frame)
qed (simp add: keeps_pure)

section \<open>Through the tunnel\<close>

lemma no_waste_split:
  "no_waste fs = xs @ f # ys \<Longrightarrow> \<exists>as bs. fs = as @ f # bs \<and> no_waste as = xs \<and> no_waste bs = ys"
proof (induction fs arbitrary: xs)
  case (Cons g fs)
  show ?case
  proof (cases "\<not> is_waste g \<and> xs = []")
    case True
    with Cons.prems show ?thesis by (intro exI [of _ "[]"] exI [of _ fs]) simp
  next
    case False
    then obtain xs' where "no_waste fs = xs' @ f # ys" "xs = (if is_waste g then xs' else g # xs')"
      using Cons.prems by (cases xs) (auto split: if_splits)
    moreover from Cons.IH [OF this(1)] obtain as bs where
      "fs = as @ f # bs" "no_waste as = xs'" "no_waste bs = ys" by blast
    ultimately show ?thesis by (intro exI [of _ "g # as"] exI [of _ bs]) simp
  qed
qed simp

lemma handle_waste: "is_waste fr \<Longrightarrow> handle_frame core tag md5 scheme dial written fr = sm_return ()"
  by (auto simp: handle_frame_def is_waste_def anytls_cmds)

abbreviation answered :: "(session \<Rightarrow> 's res) \<Rightarrow> frame list \<Rightarrow> (frame \<times> 's answer) list" where
  "answered dial fs \<equiv> map (\<lambda>fr. (fr, dial, Inr ())) fs"

lemma session_loop_waste:
  "no_waste fs = [] \<Longrightarrow> session_loop core tag md5 scheme (answered dial fs) st = (Inr (), st)"
  by (induction fs arbitrary: st)
    (auto simp: handle_waste sm_return_def sm_bind_def split: if_splits)

text \<open>Up to the frame that opens the stream: the settings are seen and the stream is not open.\<close>

lemma session_loop_prefix:
  fixes dial :: "session \<Rightarrow> 's res"
  assumes "frame_format core" "length scheme \<le> 65535" "fault server = None"
    and "no_waste fs = s # F" "fr_command s = CMD_SETTINGS"
    and "list_all (\<lambda>fr. fr_stream_id fr \<noteq> sid \<or> fr_command fr \<notin> {CMD_PSH, CMD_FIN}) F"
  shows "\<exists>st. session_loop core tag md5 scheme (answered dial fs) (session_start server) = (Inr (), st) \<and>
    serving st \<and> fmlookup (as_streams st) sid = None"
proof -
  obtain as bs where fs: "fs = as @ s # bs" "no_waste as = []" "no_waste bs = F"
    using no_waste_split [of fs "[]" s F] assms(4) by auto
  have s: "handle_frame core tag md5 scheme dial (Inr ()) s = handle_settings core md5 scheme (fr_data s)"
    using assms(5) by (simp add: handle_frame_def)
  obtain st1 :: "'s anytls_session" where st1: "handle_settings core md5 scheme (fr_data s) (session_start server) = (Inr (), st1)"
      "serving st1"
    using settings_serving [OF assms(1,2), of "session_start server"] assms(3) by (auto simp: session_start_def)
  have none: "fmlookup (as_streams st1) sid = None"
    using sm_relD [OF keeps_settings st1(1), of sid] by (simp add: keeps_def session_start_def)
  obtain st where st: "session_loop core tag md5 scheme (answered dial bs) st1 = (Inr (), st)" "serving st"
    using total_onD [OF total_loop [OF assms(1,2)] st1(2)] by blast
  have "fr_stream_id fr \<noteq> sid \<or> fr_command fr \<notin> {CMD_PSH, CMD_FIN}" if "fr \<in> set bs" for fr
    using that fs(3) assms(6) by (cases "is_waste fr") (auto simp: no_waste_def list_all_iff is_waste_def anytls_cmds)
  then have "list_all (\<lambda>(fr, _). fr_stream_id fr \<noteq> sid \<or> fr_command fr \<notin> {CMD_PSH, CMD_FIN}) (answered dial bs)"
    by (simp add: list_all_iff)
  from sm_relD [OF session_loop_keeps [OF this] st(1)] none
  have "fmlookup (as_streams st) sid = None" by (simp add: keeps_def)
  moreover have "session_loop core tag md5 scheme (answered dial fs) (session_start server) = (Inr (), st)"
    unfolding fs(1) using st(1) st1(1)
    by (simp add: session_loop_append sm_bind_def session_loop_waste [OF fs(2)] s)
  ultimately show ?thesis using st(2) by blast
qed

lemma payloads_no_waste: "payloads_of sid (answered dial fs) =
    map fr_data (filter (\<lambda>fr. fr_command fr = CMD_PSH \<and> fr_stream_id fr = sid) (no_waste fs))"
  by (induction fs) (auto simp: payloads_of_def is_waste_def anytls_cmds)

lemma tunnel_delivers:
  assumes "frame_format core" "factory_sizes draw" "length scheme \<le> 65535"
    and "fault client = None" "fault server = None"
    and "fr_command settings_frame = CMD_SETTINGS"
    and "list_all (\<lambda>f. frame_fits f \<and> \<not> is_waste f) (settings_frame # map op_frame os @ [last_frame])"
    and "map op_frame os @ [last_frame] =
      F @ \<lparr>fr_command = CMD_PSH, fr_stream_id = sid, fr_data = addr @ first\<rparr> # G"
    and "list_all (\<lambda>fr. fr_stream_id fr \<noteq> sid \<or> fr_command fr \<notin> {CMD_PSH, CMD_FIN}) F"
    and "list_all (\<lambda>fr. fr_stream_id fr \<noteq> sid \<or> fr_command fr \<noteq> CMD_FIN) G"
    and "encode_socksaddr target = Inr addr" "valid_target target"
    and "\<not> is_uot_v2_magic_target (wire_form target)"
    and "dial \<lparr>sess_inbound = tag, sess_command = Connect, sess_target = wire_form target\<rparr> = Inr outbound"
  shows "\<exists>w' bs fs st.
    cw_ops core draw (os @ [WriteFrame last_frame plan]) (cw_new client (frame_bytes settings_frame)) = (Inr (), w') \<and>
    wr (cw_inner w') = wr client @ bs \<and>
    read_frames core (length fs) (server\<lparr>rd := bs\<rparr>) = (Inr fs, server\<lparr>rd := []\<rparr>) \<and>
    session_loop core tag md5 scheme (answered dial fs) (session_start server) = (Inr (), st) \<and>
    fmlookup (as_streams st) sid = Some (InTcp outbound
      (first @ concat (map fr_data (filter (\<lambda>fr. fr_command fr = CMD_PSH \<and> fr_stream_id fr = sid) G))))"
proof -
  let ?P = "\<lparr>fr_command = CMD_PSH, fr_stream_id = sid, fr_data = addr @ first\<rparr>"
  obtain w' fs where w': "cw_ops core draw (os @ [WriteFrame last_frame plan]) (cw_new client (frame_bytes settings_frame)) =
      (Inr (), w')" "carries (wr client) fs [] w'" "no_waste fs = settings_frame # F @ ?P # G"
    using cw_flush [OF assms(1,2), of "[settings_frame]" os last_frame client plan] assms(4,7,8) by auto
  have fits: "list_all frame_fits fs" and bs: "wr (cw_inner w') = wr client @ concat (map frame_bytes fs)"
    using w'(2) by (simp_all add: carries_def)
  have read: "read_frames core (length fs) (server\<lparr>rd := concat (map frame_bytes fs)\<rparr>) = (Inr fs, server\<lparr>rd := []\<rparr>)"
    using read_frames_bytes [OF assms(1) fits, of "server\<lparr>rd := concat (map frame_bytes fs)\<rparr>" "[]"] by simp
  obtain as bs' where fs: "fs = as @ ?P # bs'" "no_waste as = settings_frame # F" "no_waste bs' = G"
    using no_waste_split [of fs "settings_frame # F"] w'(3) by auto
  obtain st1 where st1: "session_loop core tag md5 scheme (answered dial as) (session_start server) = (Inr (), st1)"
      "serving st1" "fmlookup (as_streams st1) sid = None"
    using session_loop_prefix [OF assms(1,3,5) fs(2) assms(6,9)] by blast
  obtain st where st: "session_loop core tag md5 scheme ((?P, dial, Inr ()) # answered dial bs') st1 = (Inr (), st)"
    using total_onD [OF total_loop [OF assms(1,3)] st1(2)] by blast
  have "undisturbed sid (answered dial bs')"
    using assms(10) fs(3) by (fastforce simp: undisturbed_def list_all_iff no_waste_def is_waste_def anytls_cmds)
  from tcp_delivery [OF assms(11-14) _ st1(3) _ this st] st1(2)
  have "fmlookup (as_streams st) sid = Some (InTcp outbound
      (first @ concat (map fr_data (filter (\<lambda>fr. fr_command fr = CMD_PSH \<and> fr_stream_id fr = sid) G))))"
    by (simp add: serving_def payloads_no_waste fs(3))
  moreover have "session_loop core tag md5 scheme (answered dial fs) (session_start server) = (Inr (), st)"
    unfolding fs(1) using st1(1) st by (simp add: session_loop_append sm_bind_def)
  ultimately show ?thesis using w'(1) bs read by blast
qed

text \<open>The AnyTLS tunnel carries a stream end to end. A client connection starts with the settings
  frame; its streams give frames to the padding writer in any interleaving. For a stream whose first
  data frame starts with the encoded target, and which is not finished yet, the bytes on the wire are
  read by the server as whole frames, the server handles all of them without an error, and the
  outbound that its router dials for exactly that target has been written exactly the data of the
  stream, in order.\<close>

theorem anytls_tunnel_delivers:
  assumes "frame_format core" "factory_sizes draw" "length scheme \<le> 65535"
    and "fault client = None" "fault server = None"
    and "fr_command settings_frame = CMD_SETTINGS"
    and "list_all (\<lambda>f. frame_fits f \<and> \<not> is_waste f) (settings_frame # map op_frame os @ [last_frame])"
    and "map op_frame os @ [last_frame] =
      F @ \<lparr>fr_command = CMD_PSH, fr_stream_id = sid, fr_data = addr @ first\<rparr> # G"
    and "list_all (\<lambda>fr. fr_stream_id fr \<noteq> sid \<or> fr_command fr \<notin> {CMD_PSH, CMD_FIN}) F"
    and "list_all (\<lambda>fr. fr_stream_id fr \<noteq> sid \<or> fr_command fr \<noteq> CMD_FIN) G"
    and "encode_socksaddr target = Inr addr" "valid_target target"
    and "\<not> is_uot_v2_magic_target (wire_form target)"
    and "dial \<lparr>sess_inbound = tag, sess_command = Connect, sess_target = wire_form target\<rparr> = Inr outbound"
  shows "\<exists>w' bs fs st.
    cw_ops core draw (os @ [WriteFrame last_frame plan]) (cw_new client (frame_bytes settings_frame)) = (Inr (), w') \<and>
    wr (cw_inner w') = wr client @ bs \<and>
    read_frames core (length fs) (server\<lparr>rd := bs\<rparr>) = (Inr fs, server\<lparr>rd := []\<rparr>) \<and>
    session_loop core tag md5 scheme (answered dial fs) (session_start server) = (Inr (), st) \<and>
    fmlookup (as_streams st) sid = Some (InTcp outbound
      (first @ concat (map fr_data (filter (\<lambda>fr. fr_command fr = CMD_PSH \<and> fr_stream_id fr = sid) G))))"
  using assms by (rule tunnel_delivers)

end
