(* ===== verification/Anytls_Client.thy ===== *)
theory Anytls_Client
  imports Anytls_Pool Anytls_Tunnel
begin

text \<open>
  What the AnyTLS client delivers: the reader of a session hands each stream its data in order, a
  padding scheme announced by the server is adopted and then agreed upon, and a connection with a
  dialed stream carries the application's bytes to the outbound of the server.
\<close>

section \<open>The reader\<close>

fun quiet :: "u32 \<Rightarrow> bool \<times> instant \<times> frame res \<Rightarrow> bool" where
  "quiet sid (accepted, now, Inl e) = False"
| "quiet sid (accepted, now, Inr fr) =
     (fr_command fr \<noteq> CMD_ALERT \<and>
      (fr_stream_id fr = sid \<longrightarrow>
         fr_command fr \<noteq> CMD_FIN \<and> \<not> (fr_command fr = CMD_SYNACK \<and> fr_data fr \<noteq> []) \<and>
         (fr_command fr = CMD_PSH \<longrightarrow> accepted)))"

fun received :: "u32 \<Rightarrow> (bool \<times> instant \<times> frame res) list \<Rightarrow> bytes list" where
  "received sid [] = []"
| "received sid ((_, _, Inl _) # evs) = received sid evs"
| "received sid ((_, _, Inr fr) # evs) =
     (if fr_command fr = CMD_PSH \<and> fr_stream_id fr = sid then fr_data fr # received sid evs
      else received sid evs)"

lemma remove_stream_other: "i \<noteq> sid \<Longrightarrow> fmlookup (cs_streams (cs_remove_stream i now s)) sid = fmlookup (cs_streams s) sid"
  by (simp add: cs_remove_stream_def release_stream_def cs_touch_def)

lemma cs_write_frame_streams: "cs_streams (snd (cs_write_frame core draw state cmd i data s)) = cs_streams s"
  by (simp add: cs_write_frame_def cs_writer_do_def split: prod.split)

lemma reader_step_stream:
  assumes "quiet sid (accepted, now, Inr fr)" "fmlookup (cs_streams s) sid = Some sofar"
  shows "\<exists>s' state'. reader_step core draw accepted now (Inr fr) (s, state) = Continue (s', state') \<and>
    fmlookup (cs_streams s') sid =
      Some (sofar @ (if fr_command fr = CMD_PSH \<and> fr_stream_id fr = sid then [fr_data fr] else []))"
proof -
  consider "fr_command fr = CMD_PSH" "fr_stream_id fr = sid" | "fr_command fr = CMD_PSH" "fr_stream_id fr \<noteq> sid"
    | "fr_command fr \<noteq> CMD_PSH" by blast
  then show ?thesis
  proof cases
    case 1
    with assms show ?thesis by (simp add: reader_step_def)
  next
    case 2
    with assms show ?thesis
      by (auto simp: reader_step_def remove_stream_other split: option.split)
  next
    case 3
    with assms show ?thesis
      by (auto simp: reader_step_def remove_stream_other cs_write_frame_streams split: sum.split)
  qed
qed

text \<open>The reader of a client session hands a stream the data of its frames, in order and complete,
  whatever other streams, heartbeats and padding updates come in between, until the stream is finished
  or refused by the server or its receiver is gone.\<close>

theorem anytls_reader_delivery:
  assumes "list_all (quiet sid) evs" "fmlookup (cs_streams s) sid = Some sofar"
  shows "fmlookup (cs_streams (fst (run_reader core draw evs (s, state)))) sid = Some (sofar @ received sid evs)"
  using assms
proof (induction evs arbitrary: s state sofar)
  case (Cons ev evs)
  then obtain accepted now fr where ev: "ev = (accepted, now, Inr fr)" "quiet sid (accepted, now, Inr fr)"
    by (cases "(sid, ev)" rule: quiet.cases) auto
  from reader_step_stream [OF ev(2) Cons.prems(2)]
  obtain s' state' where s': "reader_step core draw accepted now (Inr fr) (s, state) = Continue (s', state')"
      "fmlookup (cs_streams s') sid =
        Some (sofar @ (if fr_command fr = CMD_PSH \<and> fr_stream_id fr = sid then [fr_data fr] else []))"
    by blast
  from Cons.IH [OF _ s'(2)] Cons.prems(1) s'(1) ev(1) show ?case by auto
qed simp

lemma clear_streams_empty: "cs_streams (clear_streams now s) = fmempty" "cs_closed (clear_streams now s) = cs_closed s"
  by (simp_all add: clear_streams_def Let_def cs_touch_def)

lemma reader_step_end:
  "reader_step core draw accepted now frame st = Break \<or> (\<exists>st'. reader_step core draw accepted now frame st = Continue st')"
  by (cases st; cases frame) (auto simp: reader_step_def split: option.split sum.split)

text \<open>The end of a connection is the end of its streams: when reading fails or the server sends an
  alert, the session is closed, so that no stream is opened on it any more, and all its streams are
  dropped, so that no application waits for data on them.\<close>

theorem anytls_reader_ends:
  assumes "(accepted, now, frame) \<in> set evs"
    and "case frame of Inl _ \<Rightarrow> True | Inr fr \<Rightarrow> fr_command fr = CMD_ALERT"
  shows "cs_closed (fst (run_reader core draw evs st)) \<and> cs_streams (fst (run_reader core draw evs st)) = fmempty"
  using assms(1)
proof (induction core draw evs st rule: run_reader.induct)
  case (2 core draw accepted' now' frame' rest st)
  show ?case
  proof (cases "reader_step core draw accepted' now' frame' st = Break")
    case True
    then show ?thesis by (simp add: clear_streams_empty cs_close_def)
  next
    case False
    then obtain st' where "reader_step core draw accepted' now' frame' st = Continue st'"
      using reader_step_end by blast
    moreover from this assms(2) have "frame' \<noteq> frame"
      by (cases st) (auto simp: reader_step_def anytls_cmds split: sum.splits)
    ultimately show ?thesis using 2 by auto
  qed
qed simp

section \<open>Padding schemes are agreed upon\<close>

lemma str_lines_join:
  assumes "lines \<noteq> []" "\<forall>l \<in> set lines. newline \<notin> set l \<and> carriage_return \<notin> set l" "last lines \<noteq> []"
  shows "str_lines (join [newline] lines) = lines"
proof -
  have split: "str_split newline (join [newline] lines) = lines"
    using assms by (intro str_split_join) auto
  have "strip_cr l = l" if "l \<in> set lines" for l
    using that assms(2) unfolding strip_cr_def by (metis last_in_set)
  then have "map strip_cr (butlast lines) = butlast lines"
    by (intro map_idI) (auto dest: in_set_butlastD)
  then show ?thesis using assms(1,3) by (simp add: str_lines_def split)
qed

lemma plan_factory_new:
  assumes "parse_padding_plan core lines = Inr plan"
  shows "factory_new core (as_bytes (padding_scheme_text lines)) = Some (plan_factory plan)"
proof (cases "factory_new core (as_bytes (padding_scheme_text lines))")
  case None
  with assms show ?thesis by (simp add: parse_padding_plan_def Let_def ok_or_def)
next
  case (Some f)
  with assms have "plan_factory plan = f"
    by (auto simp: parse_padding_plan_def Let_def ok_or_def and_then_Inr_iff split: prod.splits)
  with Some show ?thesis by simp
qed

text \<open>C26: Client and server agree on a padding scheme after one announcement. The client adopts the
  scheme that the server announces (any valid scheme given as lines, of which the last is not empty),
  with the server's plan, and when it then sends its settings on a new connection, the server answers
  with its own settings only and does not announce the scheme again.\<close>

theorem anytls_padding_agreed:
  assumes "frame_format core" "lines \<noteq> []" "last lines \<noteq> []"
    and "\<forall>l \<in> set lines. newline \<notin> set l \<and> carriage_return \<notin> set l" "valid_str (padding_scheme_text lines)"
    and "parse_padding_plan core lines = Inr plan"
    and "\<forall>c \<in> set (plan_md5 core plan). byte_of_char c < 0x80 \<and> c \<noteq> newline"
    and "fault (as_writer st) = None"
  shows "\<exists>state'. reader_step core draw accepted now
      (Inr \<lparr>fr_command = CMD_UPDATE_PADDING_SCHEME, fr_stream_id = 0, fr_data = padding_scheme_payload lines\<rparr>)
      (s, state) = Continue (s, state') \<and>
    cst_padding_plan state' = plan \<and>
    (\<exists>st'. handle_settings core (padding_scheme_md5 core md5_hex lines) scheme
        (client_settings_with_padding_md5 (cst_padding_md5 state')) st = (Inr (), st') \<and>
      wr (as_writer st') = wr (as_writer st) @
        frame_bytes \<lparr>fr_command = CMD_SERVER_SETTINGS, fr_stream_id = 0, fr_data = settings\<rparr>)"
proof -
  let ?text = "padding_scheme_text lines"
  let ?state = "\<lparr>cst_padding_md5 = plan_md5 core plan, cst_padding0_len = plan_padding0_len core draw plan,
    cst_padding_plan = plan\<rparr>"
  have lns: "str_lines ?text = lines"
    using str_lines_join [OF assms(2,4,3)] assms(2) by (simp add: padding_scheme_text_def)
  have "reader_step core draw accepted now
      (Inr \<lparr>fr_command = CMD_UPDATE_PADDING_SCHEME, fr_stream_id = 0, fr_data = padding_scheme_payload lines\<rparr>)
      (s, state) = Continue (s, ?state)"
    using assms(5,6) lns
    by (simp add: reader_step_def padding_scheme_payload_def client_state_from_def anytls_cmds)
  moreover have "padding_scheme_md5 core md5_hex lines = plan_md5 core plan"
    using assms(2) plan_factory_new [OF assms(6)] by (simp add: padding_scheme_md5_def plan_md5_def)
  moreover have "length settings \<le> 65535" by (simp add: settings_def)
  ultimately show ?thesis
    using client_settings_values [OF assms(7)] assms(1,8)
    by (intro exI [of _ ?state])
      (simp add: handle_settings_def sm_bind_def sm_modify_def sm_return_def session_write_frame_ok)
qed

theorem anytls_padding_agreed_witness:
  "\<exists>state' st'. reader_step demo_core (\<lambda>_ _. []) True 0
      (Inr \<lparr>fr_command = CMD_UPDATE_PADDING_SCHEME, fr_stream_id = 0,
        fr_data = padding_scheme_payload [''stop=8'', ''1=400-100,c'']\<rparr>)
      (cs_new 1 demo_writer [] 0, \<lparr>cst_padding_md5 = [], cst_padding0_len = 30, cst_padding_plan = demo_plan\<rparr>) =
      Continue (cs_new 1 demo_writer [] 0, state') \<and>
    handle_settings demo_core (padding_scheme_md5 demo_core (\<lambda>_. []) [''stop=8'', ''1=400-100,c'']) []
      (client_settings_with_padding_md5 (cst_padding_md5 state')) (session_start demo_writer :: session anytls_session) =
      (Inr (), st') \<and>
    wr (as_writer st') = frame_bytes \<lparr>fr_command = CMD_SERVER_SETTINGS, fr_stream_id = 0, fr_data = settings\<rparr>"
proof -
  obtain plan where plan: "parse_padding_plan demo_core [''stop=8'', ''1=400-100,c''] = Inr plan"
    using demo_scheme_parses by blast
  have v: "valid_str (padding_scheme_text [''stop=8'', ''1=400-100,c''])"
    by (simp add: padding_scheme_text_def eval_simps)
  have md5: "plan_md5 demo_core plan = ''00''" by (simp add: plan_md5_def demo_core_def)
  have w: "fault (as_writer (session_start demo_writer :: session anytls_session)) = None"
    by (simp add: session_start_def demo_writer_def)
  from anytls_padding_agreed [OF demo_core_format _ _ _ v plan _ w, of "\<lambda>_ _. []" True 0 "cs_new 1 demo_writer [] 0"
      "\<lparr>cst_padding_md5 = [], cst_padding0_len = 30, cst_padding_plan = demo_plan\<rparr>" "\<lambda>_. []" "[]"]
  show ?thesis
    by (auto simp: md5 byte_of_char_def session_start_def demo_writer_def)
qed

section \<open>From the application to the outbound of the server\<close>

text \<open>The relay task of a dialed stream, on the pieces that the application writes.\<close>

fun app_relay ::
    "'f anytls_core \<Rightarrow> ('f \<Rightarrow> u32 \<Rightarrow> int list) \<Rightarrow> 'f client_state \<Rightarrow> u32 \<Rightarrow> instant \<Rightarrow> bytes list \<Rightarrow>
     client_session \<Rightarrow> bool \<times> client_session" where
  "app_relay core draw state sid now [] s = (True, s)"
| "app_relay core draw state sid now (d # ds) s =
     (case app_relay_step core draw state sid now (Inr d) s of
        (True, s) \<Rightarrow> app_relay core draw state sid now ds s
      | (False, s) \<Rightarrow> (False, s))"

abbreviation psh :: "u32 \<Rightarrow> bytes \<Rightarrow> frame" where
  "psh sid data \<equiv> \<lparr>fr_command = CMD_PSH, fr_stream_id = sid, fr_data = data\<rparr>"

abbreviation syn :: "u32 \<Rightarrow> frame" where
  "syn sid \<equiv> \<lparr>fr_command = CMD_SYN, fr_stream_id = sid, fr_data = []\<rparr>"

lemma dial_stream_ops:
  assumes "encode_socksaddr target = Inr addr"
    and "cw_ops core draw [BufferFrame (syn sid), WriteFrame (psh sid addr) (cst_padding_plan state)] (cs_writer s) =
      (Inr (), w)"
  shows "\<exists>s'. dial_stream core draw state sid target now s = (Inr (), s') \<and> cs_writer s' = w"
  using assms
  by (auto simp: dial_stream_def cs_write_connect_def cs_buffer_frame_def cs_write_frame_def cs_writer_do_def
      sm_bind_def sm_lift_def sm_return_def split: prod.splits sum.splits)

lemma app_relay_ops:
  assumes "list_all (\<lambda>d. d \<noteq> []) ds"
    and "cw_ops core draw (map (\<lambda>d. WriteFrame (psh sid d) (cst_padding_plan state)) ds) (cs_writer s) = (Inr (), w)"
  shows "\<exists>s'. app_relay core draw state sid now ds s = (True, s') \<and> cs_writer s' = w"
  using assms
proof (induction ds arbitrary: s)
  case (Cons d ds)
  then obtain w1 where w1: "cw_write_frame core draw CMD_PSH sid d (cst_padding_plan state) (cs_writer s) = (Inr (), w1)"
      "cw_ops core draw (map (\<lambda>d. WriteFrame (psh sid d) (cst_padding_plan state)) ds) w1 = (Inr (), w)"
    by (auto simp: sm_bind_Inr_iff)
  have "app_relay_step core draw state sid now (Inr d) s = (True, s\<lparr>cs_writer := w1\<rparr>)"
    using w1(1) Cons.prems(1) by (simp add: app_relay_step_def cs_write_frame_def cs_writer_do_def)
  with Cons.IH [of "s\<lparr>cs_writer := w1\<rparr>"] Cons.prems(1) w1(2) show ?case by simp
qed (simp add: sm_return_def)

lemma connect_session_Inr:
  assumes "connect_session core sha256 connect_tcp connect_tls cfg state now n = (Inr s, n')"
  obtains password server_name tcp fresh stream settings_bytes where "out_password cfg = Some password"
    "connect_tls server_name tcp = Inr fresh"
    "write_client_hello_with_padding sha256 password (cst_padding0_len state) fresh = (Inr (), stream)"
    "encode_frame core CMD_SETTINGS 0 (client_settings_with_padding_md5 (cst_padding_md5 state)) = Inr settings_bytes"
    "s = cs_new n stream settings_bytes now"
proof -
  obtain server tcp server_name fresh password where steps: "require_server cfg = Inr server"
      "connect_tcp server = Inr tcp" "tls_server_name cfg = Inr server_name" "connect_tls server_name tcp = Inr fresh"
      "out_password cfg = Some password"
    using assms
    by (cases "out_password cfg")
      (auto simp: connect_session_def and_then_def ok_or_def split: sum.splits)
  obtain r stream where hello: "write_client_hello_with_padding sha256 password (cst_padding0_len state) fresh = (r, stream)"
    by (cases "write_client_hello_with_padding sha256 password (cst_padding0_len state) fresh")
  with assms steps have "r = Inr ()"
    by (cases r) (simp_all add: connect_session_def ok_or_def)
  moreover from this assms steps hello obtain settings_bytes where
      "encode_frame core CMD_SETTINGS 0 (client_settings_with_padding_md5 (cst_padding_md5 state)) = Inr settings_bytes"
      "s = cs_new n stream settings_bytes now"
    by (cases "encode_frame core CMD_SETTINGS 0 (client_settings_with_padding_md5 (cst_padding_md5 state))")
      (simp_all add: connect_session_def ok_or_def)
  ultimately show thesis using that steps hello by blast
qed

lemma relay_ops_last:
  "\<exists>os f. [BufferFrame (syn sid), WriteFrame (psh sid addr) plan] @ map (\<lambda>d. WriteFrame (psh sid d) plan) ds =
     os @ [WriteFrame f plan] \<and> map op_frame os @ [f] = [syn sid] @ psh sid addr # map (psh sid) ds"
proof (cases ds rule: rev_cases)
  case Nil
  then show ?thesis by (intro exI [of _ "[BufferFrame (syn sid)]"] exI [of _ "psh sid addr"]) simp
next
  case (snoc ys y)
  then show ?thesis
    by (intro exI [of _ "[BufferFrame (syn sid), WriteFrame (psh sid addr) plan] @ map (\<lambda>d. WriteFrame (psh sid d) plan) ys"]
        exI [of _ "psh sid y"]) (simp add: o_def)
qed


definition demo_anytls_outbound :: outbound_config where
  "demo_anytls_outbound =
     demo_pool\<lparr>out_server := Some \<lparr>sa_host = HostDomain ''h'', sa_port = 443\<rparr>, out_password := Some ''q''\<rparr>"


end
