(* ===== verification/Anytls_Udp.thy ===== *)
theory Anytls_Udp
  imports Anytls_Outbound Anytls_Streams Direct_Outbound
begin

text \<open>
  UDP over the AnyTLS outbound, from \<open>protocol/anytls/outbound.rs\<close>: the table of streams of an
  \<open>AnytlsUdpSession\<close>, one per target, with idle eviction and a retry when a stream has died, and the
  relay task of a stream. The lemmas show that a payload is queued exactly once, and that requests and
  responses cross the relay and the server's connect loop in order.
\<close>

section \<open>Streams of a session\<close>

definition UDP_STREAM_IDLE_TIMEOUT :: duration where
  "UDP_STREAM_IDLE_TIMEOUT = from_secs (5 * 60)"

text \<open>\<open>us_queued\<close> holds the payloads sent to the channel of the stream.\<close>

record anytls_udp_stream =
  us_queued :: "bytes list"
  us_last_used :: instant

type_synonym udp_streams = "(target_addr, anytls_udp_stream) fmap"

definition evict_streams :: "instant \<Rightarrow> duration \<Rightarrow> udp_streams \<Rightarrow> udp_streams" where
  "evict_streams now timeout = fm_retain (\<lambda>s. saturating_duration_since now (us_last_used s) < timeout)"

definition evict_idle_udp_streams :: "instant \<Rightarrow> udp_streams \<Rightarrow> udp_streams" where
  "evict_idle_udp_streams now streams = evict_streams now UDP_STREAM_IDLE_TIMEOUT streams"

interpretation udp_table: idle_table us_last_used evict_streams
  by unfold_locales (simp add: evict_streams_def)

definition sender_for :: "target_addr \<Rightarrow> instant \<Rightarrow> udp_streams \<Rightarrow> udp_streams" where
  "sender_for target now streams =
     (let streams = evict_idle_udp_streams now streams in
      case fmlookup streams target of
        Some s \<Rightarrow> fmupd target (s\<lparr>us_last_used := now\<rparr>) streams
      | None \<Rightarrow> fmupd target \<lparr>us_queued = [], us_last_used = now\<rparr> streams)"

text \<open>
  An attempt to send: \<open>alive\<close> tells whether the task of the stream still receives when the payload is
  sent. The channel of a stream that was just created belongs to a new task.
\<close>

definition send_attempt :: "target_addr \<Rightarrow> bytes \<Rightarrow> instant \<times> bool \<Rightarrow> udp_streams \<Rightarrow> bool \<times> udp_streams" where
  "send_attempt target payload = (\<lambda>(now, alive) streams.
     let streams = sender_for target now streams in
     if alive then
       (True, fmupd target ((the (fmlookup streams target))
          \<lparr>us_queued := us_queued (the (fmlookup streams target)) @ [payload]\<rparr>) streams)
     else (False, streams))"

definition anytls_udp_send_to ::
    "target_addr \<Rightarrow> bytes \<Rightarrow> instant \<times> bool \<Rightarrow> instant \<times> bool \<Rightarrow> (udp_streams, unit) sm" where
  "anytls_udp_send_to target payload first second streams =
     (case send_attempt target payload first streams of
        (True, streams) \<Rightarrow> (Inr (), streams)
      | (False, streams) \<Rightarrow>
          (case send_attempt target payload second (fmdrop target streams) of
             (True, streams) \<Rightarrow> (Inr (), streams)
           | (False, streams) \<Rightarrow> (Inl (Bail ''anytls udp stream is closed after retry''), streams)))"

lemma sender_for_lookup:
  "fmlookup (sender_for target now streams) t =
     (if t = target then
        Some (case fmlookup (evict_idle_udp_streams now streams) target of
                Some s \<Rightarrow> s\<lparr>us_last_used := now\<rparr> | None \<Rightarrow> \<lparr>us_queued = [], us_last_used = now\<rparr>)
      else fmlookup (evict_idle_udp_streams now streams) t)"
  by (simp add: sender_for_def Let_def split: option.split)

lemma send_attempt_True:
  assumes "send_attempt target payload (now, True) streams = (ok, streams')"
  shows "ok \<and> fmlookup streams' target = Some
      \<lparr>us_queued = (case fmlookup (evict_idle_udp_streams now streams) target of Some s \<Rightarrow> us_queued s | None \<Rightarrow> []) @ [payload],
       us_last_used = now\<rparr> \<and>
    (\<forall>t. t \<noteq> target \<longrightarrow> fmlookup streams' t = fmlookup (evict_idle_udp_streams now streams) t)"
  using assms by (auto simp: send_attempt_def Let_def sender_for_lookup split: option.splits)

text \<open>A datagram is queued exactly once. Whatever the state of the table, sending to a target either
  reuses its live stream or, when there is none, when it is idle for too long or when its task has ended,
  makes a new one; the payload is appended to that stream only, and the streams of other targets are
  kept unless they have been idle for the timeout.\<close>

theorem anytls_udp_send_once:
  assumes "alive2"
  shows "\<exists>streams' now. anytls_udp_send_to target payload (now1, alive1) (now2, alive2) streams = (Inr (), streams') \<and>
    fmlookup streams' target = Some
      \<lparr>us_queued = (if alive1 then (case fmlookup (evict_idle_udp_streams now1 streams) target of
                       Some s \<Rightarrow> us_queued s | None \<Rightarrow> []) else []) @ [payload], us_last_used = now\<rparr> \<and>
    (\<forall>t s. t \<noteq> target \<longrightarrow> fmlookup streams t = Some s \<longrightarrow>
       now1 < us_last_used s + UDP_STREAM_IDLE_TIMEOUT \<longrightarrow> now2 < us_last_used s + UDP_STREAM_IDLE_TIMEOUT \<longrightarrow>
       fmlookup streams' t = Some s)"
proof -
  have kept: "fmlookup (evict_idle_udp_streams now m) t = Some s"
    if "fmlookup m t = Some s" "now < us_last_used s + UDP_STREAM_IDLE_TIMEOUT" for now m t s
    using that by (simp add: evict_idle_udp_streams_def udp_table.evict_Some_iff UDP_STREAM_IDLE_TIMEOUT_def
        from_secs_def less_diff_conv2)
  show ?thesis
  proof (cases alive1)
    case True
    obtain ok m where m: "send_attempt target payload (now1, True) streams = (ok, m)"
      by (cases "send_attempt target payload (now1, True) streams")
    from send_attempt_True [OF m] m True show ?thesis
      by (intro exI [of _ m] exI [of _ now1]) (auto simp: anytls_udp_send_to_def kept)
  next
    case False
    let ?m1 = "fmdrop target (sender_for target now1 streams)"
    have first: "send_attempt target payload (now1, alive1) streams = (False, sender_for target now1 streams)"
      using False by (simp add: send_attempt_def)
    obtain ok m where m: "send_attempt target payload (now2, True) ?m1 = (ok, m)"
      by (cases "send_attempt target payload (now2, True) ?m1")
    have gone: "fmlookup (evict_idle_udp_streams now2 ?m1) target = None"
      by (simp add: evict_idle_udp_streams_def udp_table.evict_spec opt_filter_def)
    have "fmlookup m t = Some s" if "t \<noteq> target" "fmlookup streams t = Some s"
      "now1 < us_last_used s + UDP_STREAM_IDLE_TIMEOUT" "now2 < us_last_used s + UDP_STREAM_IDLE_TIMEOUT" for t s
      using send_attempt_True [OF m] that kept [OF that(2,3)] kept [of ?m1 t s now2]
      by (simp add: sender_for_lookup)
    with send_attempt_True [OF m] m first gone False assms show ?thesis
      by (intro exI [of _ m] exI [of _ now2]) (simp add: anytls_udp_send_to_def)
  qed
qed

section \<open>The relay task\<close>

text \<open>
  One round of \<open>relay_uot_stream\<close>: the channel delivers a payload, or is closed, or the pinned framing
  read completes, and \<open>accepted\<close> tells whether the session still takes responses. The state is the
  stream and the shared time of last use.
\<close>

datatype relay_event = RelayPayload "bytes option" instant | RelayRead bool instant

fun relay_step ::
    "target_addr \<Rightarrow> tcp_stream \<times> instant \<Rightarrow> relay_event \<Rightarrow>
     (target_addr \<times> bytes) list \<times> (tcp_stream \<times> instant) flow" where
  "relay_step target (stream, last_used) (RelayPayload None now) = ([], Break)"
| "relay_step target (stream, last_used) (RelayPayload (Some payload) now) =
     (case write_uot_payload payload stream of
        (Inl e, _) \<Rightarrow> ([], Failed e)
      | (Inr _, stream) \<Rightarrow> ([], Continue (stream, now)))"
| "relay_step target (stream, last_used) (RelayRead accepted now) =
     (case read_uot_payload stream of
        (Inl e, _) \<Rightarrow> ([], Failed e)
      | (Inr payload, stream) \<Rightarrow>
          if accepted then ([(target, payload)], Continue (stream, now)) else ([], Break))"

fun relay_run ::
    "target_addr \<Rightarrow> tcp_stream \<times> instant \<Rightarrow> relay_event list \<Rightarrow>
     (target_addr \<times> bytes) list \<times> (tcp_stream \<times> instant) flow" where
  "relay_run target st [] = ([], Continue st)"
| "relay_run target st (ev # evs) =
     (case relay_step target st ev of
        (responses, Continue st') \<Rightarrow>
          (case relay_run target st' evs of (later, fl) \<Rightarrow> (responses @ later, fl))
      | (responses, fl) \<Rightarrow> (responses, fl))"

definition relay_uot_stream ::
    "target_addr \<Rightarrow> instant \<Rightarrow> relay_event list \<Rightarrow> tcp_stream \<Rightarrow>
     (target_addr \<times> bytes) list \<times> (tcp_stream \<times> instant) flow" where
  "relay_uot_stream target now evs stream =
     (case write_uot_v2_request True target stream of
        (Inl e, _) \<Rightarrow> ([], Failed e)
      | (Inr _, stream) \<Rightarrow> relay_run target (stream, now) evs)"

text \<open>The session a stream is dialed for, whose target is the magic name of UDP over TCP.\<close>

definition uot_stream_session :: session where
  "uot_stream_session =
     \<lparr>sess_inbound = ''anytls-udp-out'', sess_command = Connect, sess_target = uot_v2_magic_target\<rparr>"

definition spawn_uot_stream ::
    "(session \<Rightarrow> tcp_stream res) \<Rightarrow> target_addr \<Rightarrow> instant \<Rightarrow> relay_event list \<Rightarrow>
     (target_addr \<times> bytes) list \<times> (tcp_stream \<times> instant) flow" where
  "spawn_uot_stream dial target now evs =
     (case dial uot_stream_session of
        Inl e \<Rightarrow> ([], Failed e)
      | Inr stream \<Rightarrow> relay_uot_stream target now evs stream)"

text \<open>\<open>au_responses\<close> is the channel of responses, of which the session keeps a sender.\<close>

record anytls_udp_session =
  au_streams :: udp_streams
  au_responses :: "(target_addr \<times> bytes) list"

definition anytls_dial_udp :: "session \<Rightarrow> anytls_udp_session res" where
  "anytls_dial_udp session =
     and_then (ensure (sess_command session = UdpAssociate)
       ''anytls udp outbound only supports UDP associate'') (\<lambda>_.
     Inr \<lparr>au_streams = fmempty, au_responses = []\<rparr>)"

text \<open>Receiving takes the oldest response; without one it waits, which is the result \<open>None\<close>.\<close>

definition anytls_udp_recv_from ::
    "anytls_udp_session \<Rightarrow> (target_addr \<times> bytes) option \<times> anytls_udp_session" where
  "anytls_udp_recv_from s =
     (case au_responses s of
        [] \<Rightarrow> (None, s)
      | response # rest \<Rightarrow> (Some response, s\<lparr>au_responses := rest\<rparr>))"

definition udp_stream_cleaner_tick :: "instant \<Rightarrow> anytls_udp_session \<Rightarrow> anytls_udp_session" where
  "udp_stream_cleaner_tick now s = s\<lparr>au_streams := evict_idle_udp_streams now (au_streams s)\<rparr>"

interpretation anytls: dialer
  "\<lambda>session. fst (anytls_dial core draw state tuning rounds now session pool)" anytls_dial_udp
  by unfold_locales (auto simp: anytls_dial_def anytls_dial_udp_def ensure_def split: if_splits)

fun relayed :: "relay_event list \<Rightarrow> bytes list" where
  "relayed [] = []"
| "relayed (RelayPayload (Some p) _ # evs) = p # relayed evs"
| "relayed (RelayPayload None _ # evs) = relayed evs"
| "relayed (RelayRead _ _ # evs) = relayed evs"

fun reads :: "relay_event list \<Rightarrow> nat" where
  "reads [] = 0"
| "reads (RelayPayload _ _ # evs) = reads evs"
| "reads (RelayRead _ _ # evs) = Suc (reads evs)"

fun relay_event_ok :: "relay_event \<Rightarrow> bool" where
  "relay_event_ok (RelayPayload p _) = (case p of None \<Rightarrow> False | Some p \<Rightarrow> length p \<le> 65535)"
| "relay_event_ok (RelayRead accepted _) = accepted"

abbreviation uot_frame :: "bytes \<Rightarrow> bytes" where
  "uot_frame p \<equiv> be16 (of_nat (length p)) @ p"

lemma read_uot_payload_frame:
  assumes "rd s = uot_frame p @ rest" "length p \<le> 65535"
  shows "read_uot_payload s = (Inr p, s\<lparr>rd := rest\<rparr>)"
proof -
  have "tcp_read_u16 s = (Inr (of_nat (length p)), s\<lparr>rd := p @ rest\<rparr>)"
    using tcp_read_u16_be16 [of s "of_nat (length p)" "p @ rest"] assms(1) by simp
  moreover have "unat (of_nat (length p) :: u16) = length p" using assms(2) by (simp add: unat_of_nat_u16)
  moreover have "tcp_read_exact (length p) (s\<lparr>rd := p @ rest\<rparr>) = (Inr p, s\<lparr>rd := rest\<rparr>)"
    by (subst tcp_read_exact_append [of _ p rest]) simp_all
  ultimately show ?thesis by (simp add: read_uot_payload_def sm_bind_def)
qed

lemma relay_run_ok:
  assumes "list_all relay_event_ok evs" "fault s = None" "reads evs \<le> length qs" "list_all (\<lambda>q. length q \<le> 65535) qs"
    and "rd s = concat (map uot_frame qs) @ rest"
  shows "\<exists>s' now'. relay_run target (s, now) evs =
      (map (Pair target) (take (reads evs) qs), Continue (s', now')) \<and>
    wr s' = wr s @ concat (map uot_frame (relayed evs)) \<and>
    rd s' = concat (map uot_frame (drop (reads evs) qs)) @ rest"
  using assms
proof (induction evs arbitrary: s now qs)
  case (Cons ev evs)
  show ?case
  proof (cases ev)
    case (RelayPayload p t)
    with Cons.prems obtain payload where p: "p = Some payload" "length payload \<le> 65535"
      by (cases p) auto
    let ?s = "s\<lparr>wr := wr s @ uot_frame payload\<rparr>"
    have "write_uot_payload payload s = (Inr (), ?s)"
      using p(2) Cons.prems(2) by (simp add: write_uot_payload_def encode_uot_payload_def sm_bind_def sm_lift_def)
    with Cons.IH [of ?s qs t] Cons.prems p RelayPayload show ?thesis by auto
  next
    case (RelayRead accepted t)
    with Cons.prems obtain q qs' where q: "qs = q # qs'" by (cases qs) auto
    have "read_uot_payload s = (Inr q, s\<lparr>rd := concat (map uot_frame qs') @ rest\<rparr>)"
      using Cons.prems(4,5) q by (intro read_uot_payload_frame) simp_all
    with Cons.IH [of "s\<lparr>rd := concat (map uot_frame qs') @ rest\<rparr>" qs' t] Cons.prems q RelayRead
    show ?thesis by auto
  qed
qed auto

text \<open>The server's loop for a connected stream.\<close>

lemma cr_read_len_payload_frame:
  assumes "cr_ok r" "cr_view r = uot_frame p @ rest" "length p \<le> 65535"
  shows "\<exists>r'. cr_read_len_payload r = (Inr p, r') \<and> cr_ok r' \<and> cr_view r' = rest"
proof (rule implements_Inr [OF cr_read_len_payload_implements assms(1)])
  have "unat (of_nat (length p) :: u16) = length p" using assms(3) by (simp add: unat_of_nat_u16)
  then show "p_bind p_u16 (\<lambda>len. p_exact (unat len)) (cr_view r) = Inr (p, rest)"
    using assms(2) by simp
qed

fun connect_event_ok :: "uot_event \<Rightarrow> bool" where
  "connect_event_ok (UotInput sent) = is_ok sent"
| "connect_event_ok (UotReceived received written) =
     (is_ok (and_then received (\<lambda>(_, payload). encode_uot_payload payload)) \<and> is_ok written)"

lemma uot_connect_run:
  assumes "cr_ok r" "cr_view r = concat (map uot_frame ps)" "list_all (\<lambda>p. length p \<le> 65535) ps"
    and "list_all connect_event_ok evs" "length (filter is_input evs) \<le> length ps"
  shows "sends_of (uot_run (uot_connect_step sid target) r evs) =
    map (Pair target) (take (length (filter is_input evs)) ps)"
  using assms
proof (induction evs arbitrary: r ps)
  case (Cons ev evs)
  show ?case
  proof (cases ev)
    case (UotInput sent)
    with Cons.prems obtain p ps' u where p: "ps = p # ps'" "sent = Inr u"
      by (cases ps; cases sent) auto
    obtain r' where "cr_read_len_payload r = (Inr p, r')" "cr_ok r'" "cr_view r' = concat (map uot_frame ps')"
      using cr_read_len_payload_frame [OF Cons.prems(1), of p "concat (map uot_frame ps')"] Cons.prems(2,3) p
      by auto
    with Cons.IH [of r' ps'] Cons.prems UotInput p show ?thesis by simp
  next
    case (UotReceived received written)
    then obtain data u where "and_then received (\<lambda>(_, payload). encode_uot_payload payload) = Inr data"
        "written = Inr u"
      using Cons.prems(4) by (auto simp: is_ok_iff)
    with Cons.IH [OF Cons.prems(1-3)] Cons.prems(4,5) UotReceived show ?thesis by simp
  qed
qed simp

fun received :: "uot_event list \<Rightarrow> bytes list" where
  "received [] = []"
| "received (UotInput _ # evs) = received evs"
| "received (UotReceived (Inr (_, payload)) _ # evs) = payload # received evs"
| "received (UotReceived (Inl _) _ # evs) = received evs"

lemma encode_uot_payload_ok:
  "encode_uot_payload p = Inr d \<longleftrightarrow> length p \<le> 65535 \<and> d = uot_frame p"
  by (auto simp: encode_uot_payload_def ensure_def)

lemma received_ok: "list_all connect_event_ok evs \<Longrightarrow> list_all (\<lambda>q. length q \<le> 65535) (received evs)"
  by (induction evs rule: received.induct) (auto simp: is_ok_iff encode_uot_payload_ok)

lemma uot_connect_run_writes:
  assumes "cr_ok r" "cr_view r = concat (map uot_frame ps)" "list_all (\<lambda>p. length p \<le> 65535) ps"
    and "list_all connect_event_ok evs" "length (filter is_input evs) \<le> length ps"
  shows "writes_of (uot_run (uot_connect_step sid target) r evs) =
    map (\<lambda>p. \<lparr>fr_command = CMD_PSH, fr_stream_id = sid, fr_data = uot_frame p\<rparr>) (received evs)"
  using assms
proof (induction evs arbitrary: r ps rule: received.induct)
  case (2 sent evs)
  then obtain p ps' u where p: "ps = p # ps'" "sent = Inr u" by (cases ps; cases sent) auto
  obtain r' where "cr_read_len_payload r = (Inr p, r')" "cr_ok r'" "cr_view r' = concat (map uot_frame ps')"
    using cr_read_len_payload_frame [of r p "concat (map uot_frame ps')"] 2 p by auto
  with 2 p show ?case by simp
next
  case (3 source payload written evs)
  then have "encode_uot_payload payload = Inr (uot_frame payload)" "written = Inr ()"
    by (auto simp: is_ok_iff encode_uot_payload_ok)
  with 3 show ?case by simp
qed auto

lemma run_uot_dial_connect:
  assumes "concat cs = [1] @ addr @ rest" "encode_uot_addr target = Inr addr" "valid_target target"
    and "dial_udp \<lparr>sess_inbound = inbound, sess_command = UdpAssociate, sess_target = wire_form target\<rparr> = Inr d"
  shows "\<exists>r. run_uot_dial inbound dial_udp (cr_new cs) = (Inr (True, wire_form target, d), r) \<and>
    cr_ok r \<and> cr_view r = rest"
proof -
  have addr: "addr = format_addr 0x01 0x03 0x04 target" "fits target"
    using assms(2) by (auto simp: encode_uot_addr_def socksaddr.enc_spec split: if_splits)
  have "implements cr_ok cr_view (run_uot_dial inbound dial_udp)
      (p_bind (p_bind p_u8 (\<lambda>b. p_bind p_request_addr (\<lambda>target. p_return (b = 1, target))))
        (\<lambda>(connect, target). p_bind (p_lift (dial_udp
          \<lparr>sess_inbound = inbound, sess_command = UdpAssociate, sess_target = target\<rparr>)) (\<lambda>outbound.
          p_return (connect, target, outbound))))"
    unfolding run_uot_dial_def run_uot_request_def case_prod_unfold
    by (intro implements_bind cr_read_u8_implements cr_read_socks_target_implements implements_return
        implements_lift)
  from implements_Inr [OF this cr_new_ok(1) [of cs]] show ?thesis
    using assms addr by (fastforce simp: cr_new_ok(2) p_request_addr_format p_return_def p_lift_def)
qed

lemma relay_uot_stream_ok:
  assumes "encode_uot_addr target = Inr addr" "fault s = None" "list_all relay_event_ok evs"
    and "rd s = concat (map uot_frame qs)" "list_all (\<lambda>q. length q \<le> 65535) qs" "reads evs \<le> length qs"
  shows "\<exists>s' now'. relay_uot_stream target now evs s =
      (map (Pair target) (take (reads evs) qs), Continue (s', now')) \<and>
    wr s' = wr s @ [1] @ addr @ concat (map uot_frame (relayed evs))"
proof -
  let ?s = "s\<lparr>wr := wr s @ [1] @ addr\<rparr>"
  have "write_uot_v2_request True target s = (Inr (), ?s)"
    using assms(1,2) by (simp add: write_uot_v2_request_def sm_bind_def sm_lift_def)
  with relay_run_ok [of evs ?s qs "[]" target now] assms show ?thesis
    by (auto simp: relay_uot_stream_def)
qed



end
