(* ===== verification/Outbounds.thy ===== *)
theory Outbounds
  imports Router Anytls_Outbound Tuic_Outbound
begin

text \<open>
  The outbounds together: the constructor of the AnyTLS outbound, the table of the router with the constructors
  of all protocols, and which configurations they accept.
\<close>

record 'f anytls_outbound =
  ao_cfg :: outbound_config
  ao_state :: "'f client_state"
  ao_sessions :: client_session_pool
  ao_next_session_id :: usize
  ao_tuning :: client_session_tuning

definition anytls_outbound_new ::
    "'f anytls_core \<Rightarrow> ('f \<Rightarrow> u32 \<Rightarrow> int list) \<Rightarrow> outbound_config \<Rightarrow> 'f anytls_outbound res" where
  "anytls_outbound_new core draw cfg =
     and_then (validate_outbound cfg) (\<lambda>_.
     and_then (require_server cfg) (\<lambda>_.
     let tuning = tuning_from_config cfg in
     and_then (client_state_new core draw) (\<lambda>state.
     Inr \<lparr>ao_cfg = cfg, ao_state = state, ao_sessions = [], ao_next_session_id = 1, ao_tuning = tuning\<rparr>)))"

abbreviation program_outbound ::
    "'f anytls_core \<Rightarrow> ('f \<Rightarrow> u32 \<Rightarrow> int list) \<Rightarrow> (string \<Rightarrow> uuid res) \<Rightarrow> outbound_config \<Rightarrow>
     ('f anytls_outbound, tuic_outbound) outbound res" where
  "program_outbound core draw parse_uuid \<equiv> build_outbound (anytls_outbound_new core draw) (tuic_outbound_new parse_uuid)"

text \<open>What the protocol of an outbound needs.\<close>

definition complete :: "(string \<Rightarrow> uuid res) \<Rightarrow> outbound_config \<Rightarrow> bool" where
  "complete parse_uuid out \<longleftrightarrow>
     (case out_protocol out of
        Direct \<Rightarrow> True
      | Socks5 \<Rightarrow> out_server out \<noteq> None
      | Anytls \<Rightarrow> out_server out \<noteq> None \<and> pool_ok out
      | Tuic \<Rightarrow> out_server out \<noteq> None \<and>
          (\<exists>uuid. out_uuid out = Some uuid \<and> is_ok (parse_uuid uuid)) \<and>
          (\<exists>password. out_password out = Some password \<and> password \<noteq> []))"

lemma program_outbound_ok:
  assumes "is_ok (client_state_new core draw)"
  shows "is_ok (program_outbound core draw parse_uuid out) \<longleftrightarrow> complete parse_uuid out"
proof (cases "out_protocol out")
  case Anytls
  then show ?thesis using assms validate_outbound_iff [of out]
    by (auto simp: build_outbound_def anytls_outbound_new_def complete_def is_ok_iff and_then_Inr_iff require_server_def ok_or_def Let_def
        split: option.splits if_splits)
next
  case Tuic
  then show ?thesis
    by (auto simp: build_outbound_def tuic_outbound_new_def complete_def is_ok_iff and_then_Inr_iff require_server_def ok_or_def ensure_def
        split: option.splits if_splits)
qed (auto simp: build_outbound_def socks5_outbound_new_def complete_def is_ok_iff and_then_Inr_iff require_server_def ok_or_def
    split: option.splits if_splits)


text \<open>The default padding scheme, with which an AnyTLS outbound starts, can be read.\<close>

lemma plan_lines_other:
  assumes "list_all (\<lambda>line. case split_once CHR ''='' (trim line) of None \<Rightarrow> True | Some (key, _) \<Rightarrow> key \<noteq> ''stop'') lines"
  shows "\<exists>entries'. plan_lines lines stop entries = Inr (stop, entries')"
  using assms
proof (induction lines arbitrary: entries)
  case (Cons line lines)
  show ?case
  proof (cases "split_once CHR ''='' (trim line)")
    case (Some p)
    then show ?thesis using Cons by (cases p; cases "parse_u32 (fst p)") auto
  qed (use Cons in auto)
qed simp

lemma default_scheme_lines:
  "str_lines DEFAULT_PADDING_SCHEME =
     [''stop=8'', ''0=30-30'', ''1=100-400'', ''2=400-500,c,500-1000,c,500-1000,c,500-1000,c,500-1000'',
      ''3=9-9,500-1000'', ''4=500-1000'', ''5=500-1000'', ''6=500-1000'', ''7=500-1000'']" (is "_ = ?lines")
proof -
  have "str_split newline DEFAULT_PADDING_SCHEME = ?lines"
    unfolding DEFAULT_PADDING_SCHEME_def by (rule str_split_join) simp_all
  then show ?thesis unfolding str_lines_def Let_def by (simp only:) (simp add: strip_cr_def)
qed

lemma default_scheme_parses: "is_ok (client_state_new demo_core draw)"
proof -
  let ?rest = "[''0=30-30'', ''1=100-400'', ''2=400-500,c,500-1000,c,500-1000,c,500-1000,c,500-1000'',
      ''3=9-9,500-1000'', ''4=500-1000'', ''5=500-1000'', ''6=500-1000'', ''7=500-1000'']"
  have "map trim ?rest = ?rest" by code_simp
  then have "list_all (\<lambda>line. case split_once CHR ''='' (trim line) of None \<Rightarrow> True | Some (key, _) \<Rightarrow> key \<noteq> ''stop'') ?rest"
    by simp
  then obtain entries where "plan_lines ?rest (Some 8) [] = Inr (Some 8, entries)" using plan_lines_other by blast
  moreover have "trim ''stop=8'' = ''stop=8''" by code_simp
  moreover have "parse_u32 ''8'' = Inr 8" by (simp add: parse_u32_def parse_uint_def is_digit_def digit_val_def)
  ultimately have "plan_lines (str_lines DEFAULT_PADDING_SCHEME) None [] = Inr (Some 8, entries)"
    unfolding default_scheme_lines by (simp del: plan_lines.simps add: plan_lines.simps(2) [of "''stop=8''"])
  then show ?thesis
    by (simp add: client_state_new_def client_state_from_def parse_padding_plan_def padding_scheme_text_def demo_core_def ok_or_def
      Let_def is_ok_def)
qed


end
