(* ===== verification/Files.thy ===== *)
theory Files
  imports Rust_Strings Collections
begin

text \<open>
  What the program uses of files and certificates, which \<open>acme.rs\<close> and \<open>tls.rs\<close> share: paths and
  operations of the standard library on files, and the certificate operations of the TLS library, which are
  arguments.
\<close>

section \<open>Paths\<close>

definition path_join :: "string \<Rightarrow> string \<Rightarrow> string" where
  "path_join path part =
     (if part \<noteq> [] \<and> hd part = CHR ''/'' then part
      else if path = [] \<or> last path = CHR ''/'' then path @ part
      else path @ ''/'' @ part)"

text \<open>The last component of a path that does not end with a separator, and its extension.\<close>

definition file_name :: "string \<Rightarrow> string option" where
  "file_name path =
     (let name = last (str_split CHR ''/'' path) in
      if name = [] \<or> name = ''.'' \<or> name = ''..'' then None else Some name)"

definition path_extension :: "string \<Rightarrow> string option" where
  "path_extension path =
     (case file_name path of
        None \<Rightarrow> None
      | Some name \<Rightarrow>
          (case rsplit_once CHR ''.'' name of
             None \<Rightarrow> None
           | Some (before, after) \<Rightarrow> if before = [] then None else Some after))"

definition with_extension :: "string \<Rightarrow> string \<Rightarrow> string" where
  "with_extension path ext =
     (case file_name path of
        None \<Rightarrow> path
      | Some _ \<Rightarrow>
          (let stem = (case path_extension path of None \<Rightarrow> path | Some old \<Rightarrow> take (length path - Suc (length old)) path) in
           if ext = [] then stem else stem @ ''.'' @ ext))"

section \<open>Files\<close>

text \<open>
  The files by their paths, and the outcomes of the operations to come: \<open>None\<close> for success, also when the
  list has ended, and \<open>Some n\<close> for a failure. A write that fails has not opened the file for \<open>n = 0\<close>
  and otherwise has replaced its content by the first \<open>n - 1\<close> bytes.
\<close>

record file_system =
  fs_files :: "(string, bytes) fmap"
  fs_outcomes :: "nat option list"

definition fs_next :: "file_system \<Rightarrow> nat option \<times> file_system" where
  "fs_next fs = (case fs_outcomes fs of [] \<Rightarrow> (None, fs) | o' # os \<Rightarrow> (o', fs\<lparr>fs_outcomes := os\<rparr>))"

definition create_dir_all :: "string \<Rightarrow> (file_system, unit) sm" where
  "create_dir_all path fs =
     (case fs_next fs of (None, fs) \<Rightarrow> (Inr (), fs) | (Some _, fs) \<Rightarrow> (Inl IoError, fs))"

definition fs_write :: "string \<Rightarrow> bytes \<Rightarrow> (file_system, unit) sm" where
  "fs_write path data fs =
     (case fs_next fs of
        (None, fs) \<Rightarrow> (Inr (), fs\<lparr>fs_files := fmupd path data (fs_files fs)\<rparr>)
      | (Some 0, fs) \<Rightarrow> (Inl IoError, fs)
      | (Some (Suc n), fs) \<Rightarrow> (Inl IoError, fs\<lparr>fs_files := fmupd path (take n data) (fs_files fs)\<rparr>))"

definition fs_rename :: "string \<Rightarrow> string \<Rightarrow> (file_system, unit) sm" where
  "fs_rename from to fs =
     (case fs_next fs of
        (None, fs) \<Rightarrow>
          (case fmlookup (fs_files fs) from of
             None \<Rightarrow> (Inl IoError, fs)
           | Some data \<Rightarrow> (Inr (), fs\<lparr>fs_files := fmupd to data (fmdrop from (fs_files fs))\<rparr>))
      | (Some _, fs) \<Rightarrow> (Inl IoError, fs))"

definition fs_read :: "string \<Rightarrow> (file_system, bytes) sm" where
  "fs_read path fs =
     (case fs_next fs of
        (None, fs) \<Rightarrow> (case fmlookup (fs_files fs) path of None \<Rightarrow> Inl IoError | Some data \<Rightarrow> Inr data, fs)
      | (Some _, fs) \<Rightarrow> (Inl IoError, fs))"

section \<open>Certificates\<close>

text \<open>
  The TLS library: certificate chains and keys from their text, what a new context accepts, and times with
  their comparison.
\<close>

datatype ordering = Less | Equal | Greater

record ('c, 'k, 't) pki =
  stack_from_pem :: "bytes \<Rightarrow> 'c list res"
  private_key_from_pem :: "bytes \<Rightarrow> 'k res"
  context_new :: "unit res"
  set_certificate :: "'c \<Rightarrow> unit res"
  set_private_key :: "'c \<Rightarrow> 'k \<Rightarrow> unit res"
  check_private_key :: "'c \<Rightarrow> 'k \<Rightarrow> unit res"
  not_after :: "'c \<Rightarrow> 't"
  days_from_now :: "nat \<Rightarrow> 't res"
  time_compare :: "'t \<Rightarrow> 't \<Rightarrow> ordering res"

section \<open>What the operations change\<close>

lemmas fs_defs = create_dir_all_def fs_write_def fs_rename_def fs_read_def fs_next_def

lemma create_dir_all_files [simp]: "fs_files (snd (create_dir_all path fs)) = fs_files fs"
  by (simp add: fs_defs split: list.split option.split prod.split)

lemma fs_read_files [simp]: "fs_files (snd (fs_read path fs)) = fs_files fs"
  by (simp add: fs_defs split: list.split option.split prod.split)

text \<open>Without failures to come there are none.\<close>

definition calm :: "file_system \<Rightarrow> bool" where
  "calm fs \<longleftrightarrow> list_all (\<lambda>o'. o' = None) (fs_outcomes fs)"

lemma calm_next: "calm fs \<Longrightarrow> \<exists>fs'. fs_next fs = (None, fs') \<and> calm fs' \<and> fs_files fs' = fs_files fs"
  by (cases "fs_outcomes fs") (auto simp: calm_def fs_next_def)

lemma calm_create:
  assumes "calm fs" shows "\<exists>fs'. create_dir_all path fs = (Inr (), fs') \<and> calm fs' \<and> fs_files fs' = fs_files fs"
  using calm_next [OF assms] by (auto simp: create_dir_all_def)

lemma calm_write:
  assumes "calm fs"
  shows "\<exists>fs'. fs_write path data fs = (Inr (), fs') \<and> calm fs' \<and> fs_files fs' = fmupd path data (fs_files fs)"
  using calm_next [OF assms] by (auto simp: fs_write_def calm_def)

lemma calm_rename:
  assumes "calm fs" "fmlookup (fs_files fs) from = Some data"
  shows "\<exists>fs'. fs_rename from to fs = (Inr (), fs') \<and> calm fs' \<and> fs_files fs' = fmupd to data (fmdrop from (fs_files fs))"
  using calm_next [OF assms(1)] assms(2) by (auto simp: fs_rename_def calm_def)

lemma calm_read:
  assumes "calm fs"
  shows "\<exists>fs'. fs_read path fs = (case fmlookup (fs_files fs) path of None \<Rightarrow> Inl IoError | Some data \<Rightarrow> Inr data, fs') \<and>
    calm fs' \<and> fs_files fs' = fs_files fs"
  using calm_next [OF assms] by (auto simp: fs_read_def)

end
