(* ===== verification/Acme.thy ===== *)
theory Acme
  imports Files Config "HOL-Library.Char_ord" "HOL-Library.List_Lexorder"
begin

text \<open>
  Certificates by ACME, \<open>acme.rs\<close>: names and places of the cached certificates, the challenge server,
  issuing and renewing. The hash, the hexadecimal encoding, the certificate authority and its client library
  are arguments: each request to the authority is given with its answer.
\<close>

section \<open>Names\<close>

definition CERT_FILE :: string where
  "CERT_FILE = ''cert.pem''"

definition KEY_FILE :: string where
  "KEY_FILE = ''key.pem''"

definition RENEWAL_CHECK_INTERVAL :: duration where
  "RENEWAL_CHECK_INTERVAL = from_secs (12 * 60 * 60)"

text \<open>The digest, the encoding of its bytes, and the addresses of the known directories.\<close>

record acme_env =
  ae_sha256 :: "bytes \<Rightarrow> bytes"
  ae_hex :: "bytes \<Rightarrow> string"
  ae_staging_url :: string
  ae_production_url :: string

definition staging_names :: "string list" where
  "staging_names = [''letsencrypt-staging'', ''letsencrypt_staging'', ''staging'']"

definition production_names :: "string list" where
  "production_names = [''letsencrypt-production'', ''letsencrypt_production'', ''production'']"

definition directory_url :: "acme_env \<Rightarrow> string \<Rightarrow> string res" where
  "directory_url env raw =
     (let name = to_ascii_lowercase (trim raw) in
      if name \<in> set staging_names then Inr (ae_staging_url env)
      else if name \<in> set production_names then Inr (ae_production_url env)
      else if has_prefix ''https://'' raw \<or> has_prefix ''http://'' raw then Inr raw
      else Inl (Bail ''unsupported ACME directory''))"

text \<open>
  A character is an ASCII byte or a leading byte with its continuation bytes; the latter are none of the
  characters a slug keeps.
\<close>

definition is_continuation :: "char \<Rightarrow> bool" where
  "is_continuation c \<longleftrightarrow> 0x80 \<le> (of_char c :: nat) \<and> (of_char c :: nat) < 0xC0"

definition is_ascii_alphanumeric :: "char \<Rightarrow> bool" where
  "is_ascii_alphanumeric c \<longleftrightarrow> (let n = of_char c :: nat in
     48 \<le> n \<and> n \<le> 57 \<or> 65 \<le> n \<and> n \<le> 90 \<or> 97 \<le> n \<and> n \<le> 122)"

definition slug_char :: "char \<Rightarrow> char" where
  "slug_char c =
     (if is_ascii_alphanumeric c \<or> c = CHR ''.'' \<or> c = CHR ''-'' \<or> c = CHR ''_'' then lower_char c else CHR ''_'')"

fun has_double :: "string \<Rightarrow> bool" where
  "has_double (a # b # cs) = (a = CHR ''_'' \<and> b = CHR ''_'' \<or> has_double (b # cs))"
| "has_double _ = False"

fun replace_double :: "string \<Rightarrow> string" where
  "replace_double (a # b # cs) =
     (if a = CHR ''_'' \<and> b = CHR ''_'' then CHR ''_'' # replace_double cs else a # replace_double (b # cs))"
| "replace_double cs = cs"

lemma replace_double_length: "length (replace_double s) \<le> length s"
  by (induction s rule: replace_double.induct) auto

lemma replace_double_less: "has_double s \<Longrightarrow> length (replace_double s) < length s"
proof (induction s rule: replace_double.induct)
  case (1 a b cs)
  then show ?case using replace_double_length [of cs] by auto
qed auto

function collapse :: "string \<Rightarrow> string" where
  "collapse slug = (if has_double slug then collapse (replace_double slug) else slug)"
  by pat_completeness auto

termination collapse
  by (relation "measure length") (simp_all add: replace_double_less)

declare collapse.simps [simp del]

definition trim_matches :: "char \<Rightarrow> string \<Rightarrow> string" where
  "trim_matches c s = rev (dropWhile ((=) c) (rev (dropWhile ((=) c) s)))"

definition stable_slug :: "acme_env \<Rightarrow> string \<Rightarrow> string" where
  "stable_slug env input =
     (let slug = map slug_char (filter (\<lambda>c. \<not> is_continuation c) input);
          slug = trim_matches CHR ''_'' (collapse slug);
          slug = (if slug = [] then ''default'' else slug) in
      if length slug \<le> 120 then slug
      else take 96 slug @ ''-'' @ ae_hex env (take 8 (ae_sha256 env (as_bytes input))))"

definition domain_slug :: "acme_env \<Rightarrow> string list \<Rightarrow> string" where
  "domain_slug env names = stable_slug env (join ''_'' names)"

definition directory_slug :: "acme_env \<Rightarrow> string \<Rightarrow> string" where
  "directory_slug env raw =
     (let name = to_ascii_lowercase (trim raw) in
      if name \<in> set staging_names then ''letsencrypt-staging''
      else if name \<in> set production_names then ''letsencrypt-production''
      else stable_slug env raw)"

section \<open>Targets\<close>

record acme_target =
  at_domains :: "string list"
  at_dir :: string
  at_cert_path :: string
  at_key_path :: string

definition target_for_domains :: "acme_env \<Rightarrow> acme_config \<Rightarrow> string list \<Rightarrow> acme_target res" where
  "target_for_domains env cfg names =
     (let slug = domain_slug env names in
      and_then (directory_url env (directory cfg)) (\<lambda>url.
      let namespace = ae_hex env (ae_sha256 env (as_bytes url));
          dir = path_join (path_join (path_join (cache_dir cfg) ''certificates'') namespace) slug in
      Inr \<lparr>at_domains = names, at_dir = dir, at_cert_path = path_join dir CERT_FILE,
           at_key_path = path_join dir KEY_FILE\<rparr>))"

text \<open>The inbounds with the paths of their certificates, and the targets by their domains.\<close>

fun configure_inbounds ::
    "acme_env \<Rightarrow> acme_config \<Rightarrow> (string list, acme_target) fmap \<Rightarrow> inbound_config list \<Rightarrow>
     (inbound_config list \<times> (string list, acme_target) fmap) res" where
  "configure_inbounds env cfg targets [] = Inr ([], targets)"
| "configure_inbounds env cfg targets (inbound # rest) =
     (case Option.bind (in_tls inbound) (\<lambda>tls. map_option (Pair tls) (tls_acme tls)) of
        None \<Rightarrow>
          and_then (configure_inbounds env cfg targets rest) (\<lambda>(finished, targets). Inr (inbound # finished, targets))
      | Some (tls, acme) \<Rightarrow>
          (let names = remdups_adj (sort (domains acme)) in
           and_then (target_for_domains env cfg names) (\<lambda>fresh.
           let target = (case fmlookup targets names of Some t \<Rightarrow> t | None \<Rightarrow> fresh);
               tls = tls\<lparr>tls_acme := Some (acme\<lparr>domains := names\<rparr>), certificate := Some (at_cert_path target),
                         private_key := Some (at_key_path target)\<rparr> in
           and_then (configure_inbounds env cfg (fmupd names target targets) rest) (\<lambda>(finished, targets).
           Inr (inbound\<lparr>in_tls := Some tls\<rparr> # finished, targets)))))"

definition configure_targets ::
    "acme_env \<Rightarrow> config \<Rightarrow> acme_config \<Rightarrow> (config \<times> (string list, acme_target) fmap) res" where
  "configure_targets env config cfg =
     and_then (configure_inbounds env cfg fmempty (inbounds config)) (\<lambda>(finished, targets).
     Inr (config\<lparr>inbounds := finished\<rparr>, targets))"

section \<open>Challenges\<close>

type_synonym challenge_store = "(string, string) fmap"

definition store_insert :: "string \<Rightarrow> string \<Rightarrow> challenge_store \<Rightarrow> challenge_store" where
  "store_insert token key_authorization store = fmupd token key_authorization store"

definition store_remove :: "string \<Rightarrow> challenge_store \<Rightarrow> challenge_store" where
  "store_remove token store = fmdrop token store"

definition store_get :: "string \<Rightarrow> challenge_store \<Rightarrow> string option" where
  "store_get token store = fmlookup store token"

abbreviation challenge_prefix :: string where
  "challenge_prefix \<equiv> ''/.well-known/acme-challenge/''"

definition challenge_token :: "string \<Rightarrow> string option" where
  "challenge_token path =
     (if has_prefix challenge_prefix path then
        (let token = drop (length challenge_prefix) path in
         if token \<noteq> [] \<and> CHR ''/'' \<notin> set token then Some token else None)
      else None)"

text \<open>A response is its status, its content type and its body.\<close>

definition text_response :: "nat \<Rightarrow> string \<Rightarrow> nat \<times> string \<times> string" where
  "text_response status body = (status, ''text/plain'', body)"

definition handle_challenge_request :: "string \<Rightarrow> string \<Rightarrow> challenge_store \<Rightarrow> nat \<times> string \<times> string" where
  "handle_challenge_request meth path store =
     (case (if meth = ''GET'' then Option.bind (challenge_token path) (\<lambda>token. store_get token store) else None) of
        Some body \<Rightarrow> text_response 200 body
      | None \<Rightarrow> text_response 404 (''not found'' @ [newline]))"

section \<open>Orders\<close>

text \<open>
  The answers of the authority to one order: to the order itself, its authorizations with their HTTP-01
  challenge and the answer when that is said to be ready, the status after polling, the private key and the
  certificate chain; and whether the challenge server could be started.
\<close>

datatype authorization_status = AuthPending | AuthValid | AuthOther string

record authorization =
  az_status :: authorization_status
  az_challenge :: "(string \<times> string) option"
  az_ready :: "unit res"

datatype order_status = OrderReady | OrderOther string

record order_answers =
  oa_listen :: "unit res"
  oa_new_order :: "unit res"
  oa_authorizations :: "authorization res list"
  oa_poll_ready :: "order_status res"
  oa_finalize :: "string res"
  oa_certificate :: "string res"

text \<open>The store and the tokens so far, and the store as it was whenever a challenge was said to be ready.\<close>

record challenge_state =
  cs_store :: challenge_store
  cs_tokens :: "string list"
  cs_ready :: "(string \<times> string \<times> challenge_store) list"

definition authorize :: "authorization res \<Rightarrow> (challenge_state, unit) sm" where
  "authorize answer =
     sm_bind (sm_lift answer) (\<lambda>authz.
     case az_status authz of
       AuthValid \<Rightarrow> sm_return ()
     | AuthOther _ \<Rightarrow> sm_fail (Bail ''unexpected ACME authorization status'')
     | AuthPending \<Rightarrow>
         sm_bind (sm_lift (ok_or (az_challenge authz)
           (Bail ''ACME authorization did not offer an HTTP-01 challenge''))) (\<lambda>(token, key_authorization).
         sm_bind (sm_modify (\<lambda>s. s
           \<lparr>cs_store := store_insert token key_authorization (cs_store s),
            cs_tokens := cs_tokens s @ [token],
            cs_ready := cs_ready s @ [(token, key_authorization, store_insert token key_authorization (cs_store s))]\<rparr>)) (\<lambda>_.
         sm_lift (az_ready authz))))"

definition validate_order :: "order_answers \<Rightarrow> (challenge_state, unit) sm" where
  "validate_order answers =
     sm_bind (sm_lift (oa_new_order answers)) (\<lambda>_.
     sm_bind (sm_for (oa_authorizations answers) authorize) (\<lambda>_.
     sm_bind (sm_lift (oa_poll_ready answers)) (\<lambda>status.
     sm_lift (ensure (status = OrderReady) ''ACME order was not ready after validation''))))"

text \<open>The part of issuing that uses the challenge server: validation, then removal of all tokens.\<close>

definition answer_challenges :: "order_answers \<Rightarrow> unit res \<times> challenge_state" where
  "answer_challenges answers =
     (case validate_order answers \<lparr>cs_store = fmempty, cs_tokens = [], cs_ready = []\<rparr> of
        (result, s) \<Rightarrow> (result, s\<lparr>cs_store := fold store_remove (cs_tokens s) (cs_store s)\<rparr>))"

section \<open>Cached certificates\<close>

datatype cache_status = CacheValid | RenewDue | MissingOrInvalid

definition validate_certificate_pair_bytes :: "('c, 'k, 't) pki \<Rightarrow> bytes \<Rightarrow> bytes \<Rightarrow> unit res" where
  "validate_certificate_pair_bytes pki cert_pem key_pem =
     and_then (stack_from_pem pki cert_pem) (\<lambda>certs.
     and_then (ensure (certs \<noteq> []) ''certificate chain is empty'') (\<lambda>_.
     and_then (private_key_from_pem pki key_pem) (\<lambda>key.
     and_then (context_new pki) (\<lambda>_.
     and_then (set_certificate pki (hd certs)) (\<lambda>_.
     and_then (set_private_key pki (hd certs) key) (\<lambda>_.
     check_private_key pki (hd certs) key))))))"

definition validate_certificate_pair :: "('c, 'k, 't) pki \<Rightarrow> string \<Rightarrow> string \<Rightarrow> unit res" where
  "validate_certificate_pair pki cert_pem key_pem =
     validate_certificate_pair_bytes pki (as_bytes cert_pem) (as_bytes key_pem)"

definition not_later :: "('c, 'k, 't) pki \<Rightarrow> 't \<Rightarrow> 't \<Rightarrow> bool" where
  "not_later pki t u \<longleftrightarrow> (case time_compare pki t u of Inl _ \<Rightarrow> False | Inr ord \<Rightarrow> ord \<noteq> Greater)"

definition pair_status :: "('c, 'k, 't) pki \<Rightarrow> nat \<Rightarrow> bytes \<Rightarrow> bytes \<Rightarrow> cache_status" where
  "pair_status pki renew_days cert_pem key_pem =
     (if \<not> is_ok (validate_certificate_pair_bytes pki cert_pem key_pem) then MissingOrInvalid
      else
        case (stack_from_pem pki cert_pem, days_from_now pki 0, days_from_now pki renew_days) of
          (Inr (leaf # _), Inr now, Inr renew_after) \<Rightarrow>
            if not_later pki (not_after pki leaf) now then MissingOrInvalid
            else if not_later pki (not_after pki leaf) renew_after then RenewDue
            else CacheValid
        | _ \<Rightarrow> MissingOrInvalid)"

definition certificate_cache_status ::
    "('c, 'k, 't) pki \<Rightarrow> acme_target \<Rightarrow> nat \<Rightarrow> file_system \<Rightarrow> cache_status \<times> file_system" where
  "certificate_cache_status pki target renew_days fs =
     (case fs_read (at_cert_path target) fs of
        (Inl _, fs) \<Rightarrow> (MissingOrInvalid, fs)
      | (Inr cert_pem, fs) \<Rightarrow>
          (case fs_read (at_key_path target) fs of
             (Inl _, fs) \<Rightarrow> (MissingOrInvalid, fs)
           | (Inr key_pem, fs) \<Rightarrow> (pair_status pki renew_days cert_pem key_pem, fs)))"

definition tmp_path :: "string \<Rightarrow> string" where
  "tmp_path path =
     with_extension path ((case path_extension path of Some ext \<Rightarrow> ext | None \<Rightarrow> ''pem'') @ ''.tmp'')"

text \<open>\<open>Path::parent\<close> is \<open>None\<close> for the root and the empty path, which are no files.\<close>

definition parent_dir :: "string \<Rightarrow> string" where
  "parent_dir path = (case rsplit_once CHR ''/'' path of None \<Rightarrow> [] | Some (dir, _) \<Rightarrow> dir)"

definition atomic_write :: "string \<Rightarrow> bytes \<Rightarrow> (file_system, unit) sm" where
  "atomic_write path data =
     sm_bind (create_dir_all (parent_dir path)) (\<lambda>_.
     sm_bind (fs_write (tmp_path path) data) (\<lambda>_.
     fs_rename (tmp_path path) path))"

definition issue_certificate :: "('c, 'k, 't) pki \<Rightarrow> acme_target \<Rightarrow> order_answers \<Rightarrow> (file_system, unit) sm" where
  "issue_certificate pki target answers =
     sm_bind (sm_lift (oa_listen answers)) (\<lambda>_.
     sm_bind (sm_lift (fst (answer_challenges answers))) (\<lambda>_.
     sm_bind (sm_lift (oa_finalize answers)) (\<lambda>private_key_pem.
     sm_bind (sm_lift (oa_certificate answers)) (\<lambda>cert_chain_pem.
     sm_bind (sm_lift (validate_certificate_pair pki cert_chain_pem private_key_pem)) (\<lambda>_.
     sm_bind (atomic_write (at_key_path target) (as_bytes private_key_pem)) (\<lambda>_.
     atomic_write (at_cert_path target) (as_bytes cert_chain_pem)))))))"

text \<open>One target with the answers of the authority if it is asked.\<close>

definition prepare_certificate ::
    "('c, 'k, 't) pki \<Rightarrow> acme_config \<Rightarrow> acme_target \<times> order_answers \<Rightarrow> (file_system, unit) sm" where
  "prepare_certificate pki cfg work =
     (case work of (target, answers) \<Rightarrow>
        sm_bind (create_dir_all (at_dir target)) (\<lambda>_ fs.
        case certificate_cache_status pki target (unat (renew_before_days cfg)) fs of
          (CacheValid, fs) \<Rightarrow> (Inr (), fs)
        | (RenewDue, fs) \<Rightarrow> (Inr (), snd (issue_certificate pki target answers fs))
        | (MissingOrInvalid, fs) \<Rightarrow> issue_certificate pki target answers fs))"

definition prepare_certificates ::
    "('c, 'k, 't) pki \<Rightarrow> acme_config \<Rightarrow> (acme_target \<times> order_answers) list \<Rightarrow> (file_system, unit) sm" where
  "prepare_certificates pki cfg work = sm_for work (prepare_certificate pki cfg)"

definition renew_if_due ::
    "('c, 'k, 't) pki \<Rightarrow> acme_config \<Rightarrow> acme_target \<Rightarrow> order_answers \<Rightarrow> (file_system, unit) sm" where
  "renew_if_due pki cfg target answers fs =
     (case certificate_cache_status pki target (unat (renew_before_days cfg)) fs of
        (CacheValid, fs) \<Rightarrow> (Inr (), fs)
      | (_, fs) \<Rightarrow> issue_certificate pki target answers fs)"

text \<open>One round of the renewal task, whose failures are only logged.\<close>

fun renewal_round ::
    "('c, 'k, 't) pki \<Rightarrow> acme_config \<Rightarrow> (acme_target \<times> order_answers) list \<Rightarrow> file_system \<Rightarrow> file_system" where
  "renewal_round pki cfg [] fs = fs"
| "renewal_round pki cfg ((target, answers) # rest) fs =
     renewal_round pki cfg rest (snd (renew_if_due pki cfg target answers fs))"

section \<open>Accounts and preparation\<close>

text \<open>
  Restoring an account from its stored credentials, and creating one at an address with contacts, which gives
  the credentials to store.
\<close>

record 'a account_api =
  restore_account :: "string \<Rightarrow> 'a res"
  create_account :: "string \<Rightarrow> string list \<Rightarrow> ('a \<times> bytes) res"

definition account_path :: "acme_env \<Rightarrow> acme_config \<Rightarrow> string" where
  "account_path env cfg =
     path_join (path_join (cache_dir cfg) ''accounts'') (directory_slug env (directory cfg) @ ''.json'')"

definition load_account :: "acme_env \<Rightarrow> 'a account_api \<Rightarrow> acme_config \<Rightarrow> (file_system, 'a) sm" where
  "load_account env api cfg =
     sm_bind (create_dir_all (path_join (cache_dir cfg) ''accounts'')) (\<lambda>_ fs.
     if fmlookup (fs_files fs) (account_path env cfg) \<noteq> None then
       sm_bind (fs_read (account_path env cfg)) (\<lambda>raw.
       sm_bind (sm_lift (from_utf8 raw)) (\<lambda>raw.
       sm_lift (restore_account api raw))) fs
     else
       sm_bind (sm_lift (ensure (accept_terms cfg) ''ACME account creation requires acme.accept_terms = true'')) (\<lambda>_.
       sm_bind (sm_lift (directory_url env (directory cfg))) (\<lambda>url.
       sm_bind (sm_lift (create_account api url (contact cfg))) (\<lambda>(account, raw).
       sm_bind (atomic_write (account_path env cfg) raw) (\<lambda>_.
       sm_return account)))) fs)"

record 'a acme_manager =
  am_cfg :: acme_config
  am_account :: 'a
  am_targets :: "acme_target list"

text \<open>\<open>into_values\<close> lists the targets in the order of the hash map; the authority answers for each.\<close>

definition acme_prepare ::
    "acme_env \<Rightarrow> ('c, 'k, 't) pki \<Rightarrow> 'a account_api \<Rightarrow> ((string list, acme_target) fmap \<Rightarrow> acme_target list) \<Rightarrow>
     (acme_target \<Rightarrow> order_answers) \<Rightarrow> config \<Rightarrow> (file_system, config \<times> 'a acme_manager option) sm" where
  "acme_prepare env pki api into_values answers config =
     (let cfg = acme_config_of config in
      sm_bind (sm_lift (configure_targets env config cfg)) (\<lambda>(config, targets).
      let targets = into_values targets in
      if targets = [] then sm_return (config, None)
      else
        sm_bind (load_account env api cfg) (\<lambda>account.
        sm_bind (prepare_certificates pki cfg (map (\<lambda>t. (t, answers t)) targets)) (\<lambda>_.
        sm_return (config, Some \<lparr>am_cfg = cfg, am_account = account, am_targets = targets\<rparr>)))))"

end
