(* ===== verification/Acme_Cache.thy ===== *)
theory Acme_Cache
  imports Acme
begin

text \<open>
  What the ACME client guarantees: slugs are safe file names, every inbound gets the files of its domains,
  challenges are served while they are needed and not after, and files are replaced as a whole.
\<close>

section \<open>Slugs\<close>

definition slug_ok :: "char \<Rightarrow> bool" where
  "slug_ok c \<longleftrightarrow> (let n = of_char c :: nat in
     48 \<le> n \<and> n \<le> 57 \<or> 97 \<le> n \<and> n \<le> 122 \<or> c = CHR ''.'' \<or> c = CHR ''-'' \<or> c = CHR ''_'')"

lemma slug_char_ok: "slug_ok (slug_char c)"
  by (auto simp: slug_ok_def slug_char_def lower_char_def is_ascii_alphanumeric_def Let_def)

lemma slug_char_id: "slug_ok c \<Longrightarrow> slug_char c = c \<and> \<not> is_continuation c"
  by (auto simp: slug_ok_def slug_char_def lower_char_def is_ascii_alphanumeric_def is_continuation_def Let_def)

lemma set_replace_double: "set (replace_double s) \<subseteq> set s"
  by (induction s rule: replace_double.induct) auto

lemma set_collapse: "set (collapse s) \<subseteq> set s"
proof (induction s rule: collapse.induct)
  case (1 s)
  then show ?case using set_replace_double [of s] by (subst collapse.simps) auto
qed

lemma collapse_no_double: "\<not> has_double (collapse s)"
  by (induction s rule: collapse.induct) (subst collapse.simps, auto)

lemma has_double_iff: "has_double s \<longleftrightarrow> (\<exists>a b. s = a @ ''__'' @ b)"
proof (induction s rule: has_double.induct)
  case (1 x y cs)
  show ?case
  proof
    assume "has_double (x # y # cs)"
    then consider "x = CHR ''_''" "y = CHR ''_''" | "has_double (y # cs)" by auto
    then show "\<exists>a b. x # y # cs = a @ ''__'' @ b"
    proof cases
      case 1
      then have "x # y # cs = [] @ ''__'' @ cs" by simp
      then show ?thesis by blast
    next
      case 2
      then obtain a b where "y # cs = a @ ''__'' @ b" using 1 by blast
      then have "x # y # cs = (x # a) @ ''__'' @ b" by simp
      then show ?thesis by blast
    qed
  next
    assume "\<exists>a b. x # y # cs = a @ ''__'' @ b"
    then obtain a b where ab: "x # y # cs = a @ ''__'' @ b" by blast
    then show "has_double (x # y # cs)"
    proof (cases a)
      case (Cons z zs)
      then have "\<exists>a b. y # cs = a @ ''__'' @ b" using ab by auto
      then show ?thesis using 1 by simp
    qed simp
  qed
qed (auto simp: Cons_eq_append_conv append_eq_Cons_conv)

lemma has_double_Cons: "has_double (c # s) \<longleftrightarrow> c = CHR ''_'' \<and> s \<noteq> [] \<and> hd s = CHR ''_'' \<or> has_double s"
  by (cases s) auto

lemma has_double_append: "c \<noteq> CHR ''_'' \<Longrightarrow> has_double (a @ c # b) \<longleftrightarrow> has_double a \<or> has_double b"
  by (induction a) (auto simp: has_double_Cons hd_append)

lemma has_double_part: "has_double s \<Longrightarrow> has_double (a @ s @ b)"
proof -
  assume "has_double s"
  then obtain x y where "s = x @ ''__'' @ y" by (auto simp: has_double_iff)
  then have "a @ s @ b = (a @ x) @ ''__'' @ (y @ b)" by simp
  then show ?thesis unfolding has_double_iff by blast
qed

definition trimmed :: "char \<Rightarrow> string \<Rightarrow> bool" where
  "trimmed c s \<longleftrightarrow> s = [] \<or> hd s \<noteq> c \<and> last s \<noteq> c"

lemma trim_matches_infix: "\<exists>a b. s = a @ trim_matches c s @ b"
proof -
  have d: "\<exists>a. t = a @ dropWhile P t" for t :: string and P by (metis takeWhile_dropWhile_id)
  let ?t = "dropWhile ((=) c) s"
  obtain a where "s = a @ ?t" using d by blast
  moreover obtain b where "rev ?t = b @ dropWhile ((=) c) (rev ?t)" using d by blast
  then have "?t = trim_matches c s @ rev b" unfolding trim_matches_def by (metis rev_append rev_rev_ident)
  ultimately show ?thesis by metis
qed

lemma trim_matches_trimmed: "trimmed c (trim_matches c s)"
proof (cases "trim_matches c s = []")
  case False
  let ?t = "dropWhile ((=) c) s" and ?u = "dropWhile ((=) c) (rev (dropWhile ((=) c) s))"
  have u: "?u \<noteq> []" using False by (simp add: trim_matches_def)
  then have "last (trim_matches c s) \<noteq> c" using hd_dropWhile [OF u] by (simp add: trim_matches_def last_rev)
  moreover have "hd (trim_matches c s) = last ?u" using u by (simp add: trim_matches_def hd_rev)
  moreover have "last ?u = last (rev ?t)" using u by (metis last_appendR takeWhile_dropWhile_id)
  moreover have "?t \<noteq> []" using u by (metis dropWhile.simps(1) rev.simps(1))
  then have "last (rev ?t) \<noteq> c" using hd_dropWhile [of "(=) c" s] by (simp add: last_rev)
  ultimately show ?thesis by (simp add: trimmed_def)
qed (simp add: trimmed_def)

lemma trim_matches_id: "trimmed c s \<Longrightarrow> trim_matches c s = s"
proof -
  have d: "dropWhile ((=) c) t = t" if "t = [] \<or> hd t \<noteq> c" for t using that by (cases t) auto
  assume "trimmed c s"
  then show ?thesis using d [of s] d [of "rev s"] by (auto simp: trimmed_def trim_matches_def hd_rev)
qed

text \<open>Texts that are their own slug.\<close>

definition slug_normal :: "string \<Rightarrow> bool" where
  "slug_normal s \<longleftrightarrow> list_all slug_ok s \<and> \<not> has_double s \<and> trimmed CHR ''_'' s \<and> s \<noteq> [] \<and> length s \<le> 120"

lemma stable_slug_normal: "slug_normal s \<Longrightarrow> stable_slug env s = s"
proof -
  assume n: "slug_normal s"
  have "filter (\<lambda>c. \<not> is_continuation c) s = s" "map slug_char s = s"
    using n slug_char_id by (auto simp: slug_normal_def list_all_iff filter_id_conv map_idI)
  moreover have "collapse s = s" using n by (subst collapse.simps) (simp add: slug_normal_def)
  ultimately show ?thesis using n trim_matches_id by (simp add: stable_slug_def slug_normal_def)
qed

text \<open>The encoding writes two lower case hexadecimal digits per byte.\<close>

definition hex_alphabet :: string where
  "hex_alphabet = ''0123456789abcdef''"

definition hex_digits :: "(bytes \<Rightarrow> string) \<Rightarrow> bool" where
  "hex_digits hex \<longleftrightarrow> (\<forall>bs. length (hex bs) = 2 * length bs \<and> set (hex bs) \<subseteq> set hex_alphabet)"

lemma stable_slug_is_normal:
  assumes "hex_digits (ae_hex env)" "\<forall>bs. length (ae_sha256 env bs) = 32"
  shows "slug_normal (stable_slug env s)"
proof -
  let ?raw = "map slug_char (filter (\<lambda>c. \<not> is_continuation c) s)"
  let ?t = "trim_matches CHR ''_'' (collapse ?raw)"
  let ?u = "if ?t = [] then ''default'' else ?t"
  obtain a b where ab: "collapse ?raw = a @ ?t @ b" using trim_matches_infix by blast
  have ok: "list_all slug_ok ?t"
  proof -
    have "set ?t \<subseteq> set ?raw" using set_collapse [of ?raw] by (subst (asm) ab) auto
    then show ?thesis using slug_char_ok by (auto simp: list_all_iff)
  qed
  have single: "\<not> has_double ?t"
    using collapse_no_double [of ?raw] has_double_part [of ?t a b] ab by metis
  have u: "list_all slug_ok ?u" "\<not> has_double ?u" "trimmed CHR ''_'' ?u" "?u \<noteq> []"
    using ok single trim_matches_trimmed [of "CHR ''_''" "collapse ?raw"]
    by (auto simp: slug_ok_def trimmed_def)
  show ?thesis
  proof (cases "length ?u \<le> 120")
    case True
    with u show ?thesis by (simp add: stable_slug_def slug_normal_def Let_def)
  next
    case False
    let ?h = "ae_hex env (take 8 (ae_sha256 env (as_bytes s)))"
    have slug: "stable_slug env s = take 96 ?u @ ''-'' @ ?h" using False by (simp add: stable_slug_def Let_def)
    have h: "length ?h = 16" "set ?h \<subseteq> set hex_alphabet" using assms by (simp_all add: hex_digits_def)
    then have hex: "list_all slug_ok ?h" "CHR ''_'' \<notin> set ?h" by (auto simp: list_all_iff slug_ok_def hex_alphabet_def)
    have "last ?h \<in> set ?h" using h(1) by (metis last_in_set list.size(3) zero_neq_numeral)
    then have last: "last ?h \<noteq> CHR ''_''" using hex(2) by metis
    have "\<not> has_double (take 96 ?u)"
      using u(2) has_double_part [of "take 96 ?u" "[]" "drop 96 ?u"] by (simp only: append_Nil append_take_drop_id) blast
    moreover have "\<not> has_double ?h" using hex(2) unfolding has_double_iff by (metis append_Cons in_set_conv_decomp)
    ultimately have "\<not> has_double (take 96 ?u @ ''-'' @ ?h)" using has_double_append [of "CHR ''-''" "take 96 ?u" ?h] by simp
    moreover have "list_all slug_ok (take 96 ?u)" using u(1) by (auto simp: list_all_iff dest: in_set_takeD)
    moreover have "hd (take 96 ?u) \<noteq> CHR ''_''" using u(3,4) by (simp add: trimmed_def)
    ultimately show ?thesis
      using h(1) hex last False unfolding slug slug_normal_def trimmed_def
      by (simp add: slug_ok_def hd_append split: if_splits del: hd_take)
  qed
qed


definition demo_hex :: "bytes \<Rightarrow> string" where
  "demo_hex bs = concat (map (\<lambda>b. [hex_alphabet ! (unat b div 16), hex_alphabet ! (unat b mod 16)]) bs)"

definition demo_acme :: acme_env where
  "demo_acme = \<lparr>ae_sha256 = (\<lambda>_. replicate 32 7), ae_hex = demo_hex,
     ae_staging_url = ''https://s'', ae_production_url = ''https://p''\<rparr>"

lemma demo_hex_digits: "hex_digits demo_hex"
proof -
  have digit: "n < 16 \<Longrightarrow> hex_alphabet ! n \<in> set hex_alphabet" for n by (rule nth_mem) (simp add: hex_alphabet_def)
  have "unat (b :: u8) div 16 < 16" for b using unat_u8_less [of b] by (simp add: less_mult_imp_div_less del: unat_u8_less)
  with digit have "set (demo_hex bs) \<subseteq> set hex_alphabet" for bs by (induction bs) (auto simp: demo_hex_def)
  moreover have "length (demo_hex bs) = 2 * length bs" for bs by (induction bs) (simp_all add: demo_hex_def)
  ultimately show ?thesis by (simp add: hex_digits_def)
qed


section \<open>Targets\<close>

text \<open>The domains of an inbound as a set, listed in order.\<close>

definition acme_names :: "inbound_config \<Rightarrow> string list option" where
  "acme_names inbound = map_option (\<lambda>acme. sorted_list_of_set (set (domains acme))) (Option.bind (in_tls inbound) tls_acme)"

lemma distinct_dedup: "sorted xs \<Longrightarrow> distinct (remdups_adj xs)"
  by (induction xs rule: remdups_adj.induct) (auto simp: less_le)

lemma sort_dedup: "remdups_adj (sort (xs :: 'a::linorder list)) = sorted_list_of_set (set xs)"
proof -
  have "sorted (remdups_adj (sort xs))" "distinct (remdups_adj (sort xs))"
    by (simp_all add: sorted_remdups_adj distinct_dedup)
  then show ?thesis by (metis remdups_adj_set set_sort sorted_list_of_set.idem_if_sorted_distinct)
qed

definition with_certificate :: "acme_env \<Rightarrow> acme_config \<Rightarrow> inbound_config \<Rightarrow> inbound_config \<Rightarrow> bool" where
  "with_certificate env cfg inbound inbound' \<longleftrightarrow>
     (case acme_names inbound of
        None \<Rightarrow> inbound' = inbound
      | Some names \<Rightarrow> (\<exists>t. target_for_domains env cfg names = Inr t \<and>
          inbound' = inbound\<lparr>in_tls := Some \<lparr>certificate = Some (at_cert_path t), private_key = Some (at_key_path t),
            tls_acme = Some \<lparr>domains = names\<rparr>\<rparr>\<rparr>))"

lemma configure_inbounds_correct:
  assumes "configure_inbounds env cfg targets ins = Inr (outs, targets')"
    and "\<forall>names t. fmlookup targets names = Some t \<longrightarrow> target_for_domains env cfg names = Inr t"
  shows "list_all2 (with_certificate env cfg) ins outs \<and>
    (\<forall>names t. fmlookup targets' names = Some t \<longleftrightarrow>
      fmlookup targets names = Some t \<or> target_for_domains env cfg names = Inr t \<and> Some names \<in> acme_names ` set ins)"
  using assms
proof (induction ins arbitrary: targets outs)
  case (Cons i ins)
  show ?case
  proof (cases "Option.bind (in_tls i) (\<lambda>tls. map_option (Pair tls) (tls_acme tls))")
    case None
    then have n: "acme_names i = None" by (auto simp: acme_names_def split: bind_splits)
    obtain outs' where o: "configure_inbounds env cfg targets ins = Inr (outs', targets')" "outs = i # outs'"
      using Cons(2) None by (auto simp: and_then_Inr_iff)
    show ?thesis using Cons(1) [OF o(1) Cons(3)] o(2) n by (auto simp: with_certificate_def)
  next
    case (Some p)
    obtain tls acme where p: "p = (tls, acme)" by fastforce
    then have tls: "in_tls i = Some tls" "tls_acme tls = Some acme" using Some by (auto split: bind_splits)
    let ?names = "sorted_list_of_set (set (domains acme))"
    have n: "acme_names i = Some ?names" using tls by (simp add: acme_names_def)
    obtain t where t: "target_for_domains env cfg ?names = Inr t"
      using Cons(2) Some p by (auto simp: and_then_Inr_iff Let_def sort_dedup)
    have target: "(case fmlookup targets ?names of Some t \<Rightarrow> t | None \<Rightarrow> t) = t"
      using Cons(3) t by (auto split: option.split)
    then obtain outs' where o: "configure_inbounds env cfg (fmupd ?names t targets) ins = Inr (outs', targets')"
        "outs = i\<lparr>in_tls := Some (tls\<lparr>tls_acme := Some (acme\<lparr>domains := ?names\<rparr>), certificate := Some (at_cert_path t),
          private_key := Some (at_key_path t)\<rparr>)\<rparr> # outs'"
      using Cons(2) Some p t by (auto simp: and_then_Inr_iff Let_def sort_dedup)
    have "tls\<lparr>tls_acme := Some (acme\<lparr>domains := ?names\<rparr>), certificate := Some (at_cert_path t),
        private_key := Some (at_key_path t)\<rparr> = \<lparr>certificate = Some (at_cert_path t), private_key = Some (at_key_path t),
        tls_acme = Some \<lparr>domains = ?names\<rparr>\<rparr>" by (cases tls; cases acme) simp
    then have "with_certificate env cfg i (hd outs)" using n t o(2) by (simp add: with_certificate_def)
    moreover have "\<forall>names u. fmlookup (fmupd ?names t targets) names = Some u \<longrightarrow> target_for_domains env cfg names = Inr u"
      using Cons(3) t by auto
    note IH = Cons(1) [OF o(1) this]
    ultimately show ?thesis using IH o(2) n t Cons(3) by (auto split: if_splits)
  qed
qed auto

lemma configure_targets_correct:
  assumes "configure_targets env config cfg = Inr (config', targets)"
  shows "list_all2 (with_certificate env cfg) (inbounds config) (inbounds config') \<and>
    config' = config\<lparr>inbounds := inbounds config'\<rparr> \<and>
    (\<forall>names t. fmlookup targets names = Some t \<longleftrightarrow>
      target_for_domains env cfg names = Inr t \<and> Some names \<in> acme_names ` set (inbounds config))"
proof -
  obtain outs where o: "configure_inbounds env cfg fmempty (inbounds config) = Inr (outs, targets)"
      "config' = config\<lparr>inbounds := outs\<rparr>"
    using assms by (auto simp: configure_targets_def and_then_Inr_iff)
  from configure_inbounds_correct [OF o(1)] o(2) show ?thesis by simp
qed

text \<open>Every inbound that asks for certificates gets the files of its set of domains, and nothing else
  about any inbound changes. Which files these are depends only on the set: an order or repetition in the
  configuration makes no difference, and inbounds with the same domains share one target. A certificate is
  requested for exactly the sets of domains that occur.\<close>

theorem acme_targets_exact:
  assumes "configure_targets env config cfg = Inr (config', targets)"
  shows "list_all2 (with_certificate env cfg) (inbounds config) (inbounds config') \<and>
    config' = config\<lparr>inbounds := inbounds config'\<rparr> \<and>
    (\<forall>names t. fmlookup targets names = Some t \<longleftrightarrow>
      target_for_domains env cfg names = Inr t \<and> Some names \<in> acme_names ` set (inbounds config))"
  using assms by (rule configure_targets_correct)

definition demo_acme_inbound :: "string list \<Rightarrow> inbound_config" where
  "demo_acme_inbound names =
     \<lparr>in_tag = ''in'', in_listen = SockV4 0 443, in_protocol = Anytls, in_users = None, padding_scheme = [], fallback = None,
      in_tls = Some \<lparr>certificate = None, private_key = None, tls_acme = Some \<lparr>domains = names\<rparr>\<rparr>\<rparr>"

definition demo_acme_config :: config where
  "demo_acme_config = demo_pool_config\<lparr>inbounds := [demo_acme_inbound [''b'', ''a''], demo_acme_inbound [''a'', ''b'', ''a'']]\<rparr>"

end
