(* ===== verification/Acme_Issue.thy ===== *)
theory Acme_Issue
  imports Acme_Cache
begin

text \<open>
  Issuing certificates: challenges are served while they are needed, files are replaced as a whole, and after
  a preparation without failing file operations every target has a certificate with its key.
\<close>

section \<open>Challenges\<close>

text \<open>The challenges of the authorizations that are pending.\<close>

fun pending_challenges :: "authorization res list \<Rightarrow> (string \<times> string) list" where
  "pending_challenges [] = []"
| "pending_challenges (Inr authz # rest) =
     (case (az_status authz, az_challenge authz) of
        (AuthPending, Some challenge) \<Rightarrow> challenge # pending_challenges rest
      | _ \<Rightarrow> pending_challenges rest)"
| "pending_challenges (Inl e # rest) = pending_challenges rest"

definition challenges_ok :: "challenge_state \<Rightarrow> bool" where
  "challenges_ok s \<longleftrightarrow>
     list_all (\<lambda>(token, key_authorization, store). fmlookup store token = Some key_authorization) (cs_ready s) \<and>
     map fst (cs_ready s) = cs_tokens s \<and> fset (fmdom (cs_store s)) \<subseteq> set (cs_tokens s)"

lemma authorize_ok: "challenges_ok s \<Longrightarrow> challenges_ok (snd (authorize answer s))"
  by (cases answer)
    (auto simp: authorize_def challenges_ok_def sm_bind_def sm_lift_def sm_return_def sm_fail_def sm_modify_def
      store_insert_def ok_or_def split: authorization_status.split option.split)

lemma authorize_all_ok: "challenges_ok s \<Longrightarrow> challenges_ok (snd (sm_for answers authorize s))"
proof (induction answers arbitrary: s)
  case (Cons answer answers)
  then show ?case
    using authorize_ok [of s answer] by (auto simp: sm_bind_def split: prod.split sum.split)
qed (simp add: sm_return_def)

lemma authorize_Inr:
  assumes "sm_for answers authorize s = (Inr (), s')"
  shows "map (\<lambda>(token, key, _). (token, key)) (cs_ready s') =
    map (\<lambda>(token, key, _). (token, key)) (cs_ready s) @ pending_challenges answers"
  using assms
proof (induction answers arbitrary: s)
  case (Cons answer answers)
  then obtain s1 where s1: "authorize answer s = (Inr (), s1)" "sm_for answers authorize s1 = (Inr (), s')"
    by (auto simp: sm_bind_Inr_iff)
  have "map (\<lambda>(token, key, _). (token, key)) (cs_ready s1) =
      map (\<lambda>(token, key, _). (token, key)) (cs_ready s) @ pending_challenges [answer]"
    using s1(1) by (cases answer)
      (auto simp: authorize_def sm_bind_Inr_iff sm_modify_def ok_or_def split: authorization_status.splits option.splits)
  moreover have "pending_challenges (answer # answers) = pending_challenges [answer] @ pending_challenges answers"
    by (cases answer) (auto split: option.split authorization_status.split)
  ultimately show ?case using Cons(1) [OF s1(2)] by simp
qed simp

lemma fold_remove: "fmlookup (fold store_remove tokens store) token = (if token \<in> set tokens then None else fmlookup store token)"
  by (induction tokens arbitrary: store) (auto simp: store_remove_def)

lemma challenge_token_path: "token \<noteq> [] \<Longrightarrow> CHR ''/'' \<notin> set token \<Longrightarrow> challenge_token (challenge_prefix @ token) = Some token"
  by (simp add: challenge_token_def has_prefix_def)

text \<open>C36: Challenges are answered while the authority may ask, and not after. Whenever the program tells
  the authority that a challenge is ready, a request for its token gets the key authorization, as text. If the
  validation succeeds this was the case for the challenge of every pending authorization. At the end, however
  the validation ended, every request is answered with not found.\<close>

theorem acme_challenges_served:
  assumes "answer_challenges answers = (result, s)"
  shows "(\<forall>token key_authorization store. (token, key_authorization, store) \<in> set (cs_ready s) \<and> token \<noteq> [] \<and> CHR ''/'' \<notin> set token \<longrightarrow>
      handle_challenge_request ''GET'' (''/.well-known/acme-challenge/'' @ token) store = (200, ''text/plain'', key_authorization)) \<and>
    (result = Inr () \<longrightarrow> map (\<lambda>(token, key, _). (token, key)) (cs_ready s) = pending_challenges (oa_authorizations answers)) \<and>
    fst (handle_challenge_request meth path (cs_store s)) = 404"
proof -
  let ?init = "\<lparr>cs_store = fmempty, cs_tokens = [], cs_ready = []\<rparr> :: challenge_state"
  obtain t where t: "validate_order answers ?init = (result, t)" "s = t\<lparr>cs_store := fold store_remove (cs_tokens t) (cs_store t)\<rparr>"
    using assms by (auto simp: answer_challenges_def split: prod.splits)
  have "challenges_ok ?init" by (simp add: challenges_ok_def)
  then have ok: "challenges_ok t"
    using t(1) authorize_all_ok [of ?init "oa_authorizations answers"]
    by (auto simp: validate_order_def sm_bind_def sm_lift_def split: sum.splits prod.splits)
  then have "fmlookup (cs_store s) token = None" for token
    using t(2) by (auto simp: fold_remove challenges_ok_def fmdom_notD)
  then have "fst (handle_challenge_request meth path (cs_store s)) = 404"
    by (cases "challenge_token path") (simp_all add: handle_challenge_request_def store_get_def text_response_def)
  moreover have "map (\<lambda>(token, key, _). (token, key)) (cs_ready s) = pending_challenges (oa_authorizations answers)" if "result = Inr ()"
    using t that authorize_Inr [of "oa_authorizations answers" ?init t] by (auto simp: validate_order_def sm_bind_Inr_iff)
  moreover have "handle_challenge_request ''GET'' (challenge_prefix @ token) store = (200, ''text/plain'', key)"
    if "(token, key, store) \<in> set (cs_ready s)" "token \<noteq> []" "CHR ''/'' \<notin> set token" for token key store
  proof -
    have "fmlookup store token = Some key" using ok t(2) that(1) by (auto simp: challenges_ok_def list_all_iff)
    then show ?thesis
      using challenge_token_path [OF that(2,3)] by (simp add: handle_challenge_request_def store_get_def text_response_def)
  qed
  ultimately show ?thesis by blast
qed

section \<open>Files\<close>

lemma last_component: "c \<notin> set name \<Longrightarrow> last (str_split c (dir @ c # name)) = name"
proof (induction dir)
  case (Cons x dir)
  have "tl (str_split c (dir @ c # name)) \<noteq> []" by (induction dir) simp_all
  with Cons show ?case by (cases "str_split c (dir @ c # name)") auto
qed (simp add: str_split_single)

lemma rsplit_once_append: "c \<notin> set b \<Longrightarrow> rsplit_once c (a @ c # b) = Some (a, b)"
  using split_once_append [of c "rev b" "rev a"] by (simp add: rsplit_once_def)

text \<open>A file with an extension in a directory, and the file that is written first.\<close>

definition file_in :: "string \<Rightarrow> string \<Rightarrow> string \<Rightarrow> string" where
  "file_in dir stem ext = dir @ ''/'' @ stem @ ''.'' @ ext"

definition plain_name :: "string \<Rightarrow> string \<Rightarrow> bool" where
  "plain_name stem ext \<longleftrightarrow> stem \<noteq> [] \<and> ext \<noteq> [] \<and> CHR ''/'' \<notin> set stem \<union> set ext \<and> CHR ''.'' \<notin> set ext"

lemma tmp_path_file:
  assumes "plain_name stem ext"
  shows "tmp_path (file_in dir stem ext) = file_in dir stem ext @ ''.tmp''"
proof -
  let ?name = "stem @ CHR ''.'' # ext"
  have "last (str_split CHR ''/'' (file_in dir stem ext)) = ?name"
    using assms last_component [of "CHR ''/''" ?name dir] by (simp add: file_in_def plain_name_def)
  moreover have "?name \<noteq> ''.''" "?name \<noteq> ''..''" using assms by (auto simp: plain_name_def append_eq_Cons_conv)
  ultimately have name: "file_name (file_in dir stem ext) = Some ?name" by (simp add: file_name_def)
  have "rsplit_once CHR ''.'' ?name = Some (stem, ext)"
    using assms by (intro rsplit_once_append) (simp add: plain_name_def)
  then have ext: "path_extension (file_in dir stem ext) = Some ext"
    using name assms by (simp add: path_extension_def plain_name_def)
  show ?thesis
    using name by (simp add: tmp_path_def with_extension_def ext) (simp add: file_in_def)
qed

lemma tmp_path_no_file:
  assumes "plain_name stem ext" "CHR ''.'' \<notin> set ext'" "ext' \<noteq> ''tmp''"
  shows "file_in dir' stem' ext' \<noteq> tmp_path (file_in dir stem ext)"
proof
  assume eq: "file_in dir' stem' ext' = tmp_path (file_in dir stem ext)"
  have "rsplit_once CHR ''.'' (file_in dir' stem' ext') = Some (dir' @ ''/'' @ stem', ext')"
    using rsplit_once_append [OF assms(2), of "dir' @ ''/'' @ stem'"] by (simp add: file_in_def)
  moreover have "rsplit_once CHR ''.'' (tmp_path (file_in dir stem ext)) = Some (file_in dir stem ext, ''tmp'')"
    using rsplit_once_append [of "CHR ''.''" "''tmp''" "file_in dir stem ext"] tmp_path_file [OF assms(1)] by simp
  ultimately show False using eq assms(3) by simp
qed

text \<open>A file is replaced as a whole or not at all, whatever operation fails.\<close>

lemma atomic_write_cases:
  assumes "atomic_write path data fs = (r, fs')" "tmp_path path \<noteq> path"
  shows "fmlookup (fs_files fs') path = (if r = Inr () then Some data else fmlookup (fs_files fs) path)"
    and "p \<noteq> path \<Longrightarrow> p \<noteq> tmp_path path \<Longrightarrow> fmlookup (fs_files fs') p = fmlookup (fs_files fs) p"
  using assms
  by (auto simp: atomic_write_def sm_bind_def fs_defs split: prod.splits sum.splits list.splits option.splits nat.splits)

lemma file_in_inject:
  assumes "plain_name stem ext" "plain_name stem' ext" "file_in dir stem ext = file_in dir' stem' ext"
  shows "dir = dir' \<and> stem = stem'"
proof -
  have "rsplit_once CHR ''/'' (file_in d s ext) = Some (d, s @ CHR ''.'' # ext)" if "plain_name s ext" for d s
    using that rsplit_once_append [of "CHR ''/''" "s @ CHR ''.'' # ext" d] by (simp add: file_in_def plain_name_def)
  from this [OF assms(1), of dir] this [OF assms(2), of dir'] assms(3)
  have "(dir, stem @ CHR ''.'' # ext) = (dir', stem' @ CHR ''.'' # ext)" by (metis option.inject)
  then show ?thesis by simp
qed

lemma calm_atomic_write: "calm fs \<Longrightarrow> \<exists>fs'. atomic_write path data fs = (Inr (), fs') \<and> calm fs'"
proof -
  assume "calm fs"
  from calm_create [OF this, of "parent_dir path"] obtain fs1 where fs1: "create_dir_all (parent_dir path) fs = (Inr (), fs1)" "calm fs1" by blast
  from calm_write [OF fs1(2), of "tmp_path path" data] obtain fs2 where
    fs2: "fs_write (tmp_path path) data fs1 = (Inr (), fs2)" "calm fs2" "fs_files fs2 = fmupd (tmp_path path) data (fs_files fs1)" by blast
  from calm_rename [OF fs2(2), of "tmp_path path" data path] fs2(3) obtain fs3 where
    "fs_rename (tmp_path path) path fs2 = (Inr (), fs3)" "calm fs3" by auto
  with fs1 fs2 show ?thesis by (simp add: atomic_write_def sm_bind_def)
qed

section \<open>Certificates\<close>

definition target_ok :: "acme_target \<Rightarrow> bool" where
  "target_ok t \<longleftrightarrow> (\<exists>dir. at_cert_path t = file_in dir ''cert'' ''pem'' \<and> at_key_path t = file_in dir ''key'' ''pem'')"

lemma plain_names: "plain_name ''cert'' ''pem''" "plain_name ''key'' ''pem''"
  by (simp_all add: plain_name_def)

lemma target_for_domains_ok:
  assumes "hex_digits (ae_hex env)" "\<forall>bs. length (ae_sha256 env bs) = 32" "target_for_domains env cfg names = Inr t"
  shows "target_ok t"
proof -
  let ?slug = "stable_slug env (join ''_'' names)"
  obtain p where t: "at_cert_path t = path_join (path_join p ?slug) ''cert.pem''" "at_key_path t = path_join (path_join p ?slug) ''key.pem''"
    using assms(3) by (auto simp: target_for_domains_def domain_slug_def CERT_FILE_def KEY_FILE_def and_then_Inr_iff Let_def)
  have n: "slug_normal ?slug" by (rule stable_slug_is_normal [OF assms(1,2)])
  then have "?slug \<noteq> []" "CHR ''/'' \<notin> set ?slug" by (auto simp: slug_normal_def list_all_iff slug_ok_def)
  moreover from this have "last ?slug \<noteq> CHR ''/''" by (metis last_in_set)
  ultimately have "path_join p ?slug \<noteq> []" "last (path_join p ?slug) \<noteq> CHR ''/''"
    by (simp_all add: path_join_def)
  then show ?thesis using t by (auto simp: target_ok_def path_join_def [of "path_join p ?slug"] file_in_def)
qed

definition stores :: "('c, 'k, 't) pki \<Rightarrow> acme_target \<Rightarrow> file_system \<Rightarrow> bool" where
  "stores pki t fs \<longleftrightarrow> (\<exists>cert key. fmlookup (fs_files fs) (at_cert_path t) = Some cert \<and>
     fmlookup (fs_files fs) (at_key_path t) = Some key \<and> validate_certificate_pair_bytes pki cert key = Inr ())"

lemma target_paths:
  assumes "target_ok t" "target_ok u"
  shows "at_cert_path t \<noteq> at_key_path u" "at_cert_path t \<noteq> tmp_path (at_cert_path u)" "at_cert_path t \<noteq> tmp_path (at_key_path u)"
    "at_key_path t \<noteq> tmp_path (at_cert_path u)" "at_key_path t \<noteq> tmp_path (at_key_path u)"
    "at_cert_path t = at_cert_path u \<longleftrightarrow> at_key_path t = at_key_path u"
proof -
  obtain d e where d: "at_cert_path t = file_in d ''cert'' ''pem''" "at_key_path t = file_in d ''key'' ''pem''"
      "at_cert_path u = file_in e ''cert'' ''pem''" "at_key_path u = file_in e ''key'' ''pem''"
    using assms by (auto simp: target_ok_def)
  show "at_cert_path t \<noteq> at_key_path u" unfolding d(1,4) using file_in_inject [OF plain_names, of d e] by fastforce
  show "at_cert_path t \<noteq> tmp_path (at_cert_path u)" "at_cert_path t \<noteq> tmp_path (at_key_path u)"
      "at_key_path t \<noteq> tmp_path (at_cert_path u)" "at_key_path t \<noteq> tmp_path (at_key_path u)"
    unfolding d by (rule tmp_path_no_file; simp add: plain_names)+
  show "at_cert_path t = at_cert_path u \<longleftrightarrow> at_key_path t = at_key_path u"
    unfolding d using file_in_inject [OF plain_names(1,1), of d e] file_in_inject [OF plain_names(2,2), of d e] by blast
qed

text \<open>Issuing either stops before it writes, or writes the key and then the certificate of a valid pair.\<close>

lemma issue_cases:
  obtains e where "issue_certificate pki t answers fs = (Inl e, fs)"
  | key cert where "oa_finalize answers = Inr key" "oa_certificate answers = Inr cert"
      "validate_certificate_pair_bytes pki (as_bytes cert) (as_bytes key) = Inr ()"
      "issue_certificate pki t answers fs =
        sm_bind (atomic_write (at_key_path t) (as_bytes key)) (\<lambda>_. atomic_write (at_cert_path t) (as_bytes cert)) fs"
proof -
  note defs = issue_certificate_def validate_certificate_pair_def sm_bind_def [of "sm_lift _"] sm_lift_def
  consider (listen) e where "oa_listen answers = Inl e" | (challenges) e where "oa_listen answers = Inr ()" "fst (answer_challenges answers) = Inl e"
    | (asked) "oa_listen answers = Inr ()" "fst (answer_challenges answers) = Inr ()"
    by (cases "oa_listen answers"; cases "fst (answer_challenges answers)") auto
  then show thesis
  proof cases
    case asked
    then show ?thesis
    proof (cases "oa_finalize answers")
      case (Inr key)
      note key = this
      show ?thesis
      proof (cases "oa_certificate answers")
        case (Inr cert)
        then show ?thesis using that asked key
          by (cases "validate_certificate_pair_bytes pki (as_bytes cert) (as_bytes key)") (simp_all add: defs)
      qed (use that(1) asked key in \<open>simp add: defs\<close>)
    qed (use that(1) in \<open>simp add: defs\<close>)
  qed (use that(1) in \<open>simp_all add: defs\<close>)
qed

lemma issue_result:
  assumes "target_ok t" "issue_certificate pki t answers fs = (r, fs')"
  shows "r = Inr () \<Longrightarrow> stores pki t fs'"
    and "r \<noteq> Inr () \<Longrightarrow> fmlookup (fs_files fs') (at_cert_path t) = fmlookup (fs_files fs) (at_cert_path t) \<and>
      (fmlookup (fs_files fs') (at_key_path t) = fmlookup (fs_files fs) (at_key_path t) \<or>
        (\<exists>key. oa_finalize answers = Inr key \<and> fmlookup (fs_files fs') (at_key_path t) = Some (as_bytes key)))"
    and "p \<notin> {at_cert_path t, at_key_path t, tmp_path (at_cert_path t), tmp_path (at_key_path t)} \<Longrightarrow>
      fmlookup (fs_files fs') p = fmlookup (fs_files fs) p"
proof -
  note [simp] = target_paths(1-5) [OF assms(1,1)] target_paths(1-5) [OF assms(1,1), THEN not_sym]
  show "r = Inr () \<Longrightarrow> stores pki t fs'"
    and "r \<noteq> Inr () \<Longrightarrow> fmlookup (fs_files fs') (at_cert_path t) = fmlookup (fs_files fs) (at_cert_path t) \<and>
      (fmlookup (fs_files fs') (at_key_path t) = fmlookup (fs_files fs) (at_key_path t) \<or>
        (\<exists>key. oa_finalize answers = Inr key \<and> fmlookup (fs_files fs') (at_key_path t) = Some (as_bytes key)))"
    and "p \<notin> {at_cert_path t, at_key_path t, tmp_path (at_cert_path t), tmp_path (at_key_path t)} \<Longrightarrow>
      fmlookup (fs_files fs') p = fmlookup (fs_files fs) p"
    unfolding atomize_conj atomize_imp
  proof (cases rule: issue_cases [of pki t answers fs])
    case (2 key cert)
    obtain r1 fs1 where w1: "atomic_write (at_key_path t) (as_bytes key) fs = (r1, fs1)" by fastforce
    note k = atomic_write_cases [OF w1]
    show "(r = Inr () \<longrightarrow> stores pki t fs') \<and> (r \<noteq> Inr () \<longrightarrow> fmlookup (fs_files fs') (at_cert_path t) = fmlookup (fs_files fs) (at_cert_path t) \<and>
      (fmlookup (fs_files fs') (at_key_path t) = fmlookup (fs_files fs) (at_key_path t) \<or>
        (\<exists>key. oa_finalize answers = Inr key \<and> fmlookup (fs_files fs') (at_key_path t) = Some (as_bytes key)))) \<and>
      (p \<notin> {at_cert_path t, at_key_path t, tmp_path (at_cert_path t), tmp_path (at_key_path t)} \<longrightarrow>
      fmlookup (fs_files fs') p = fmlookup (fs_files fs) p)"
    proof (cases r1)
      case (Inl e)
      then show ?thesis using assms(2) 2(4) w1 k by (auto simp: sm_bind_def)
    next
      case (Inr u)
      then have w2: "atomic_write (at_cert_path t) (as_bytes cert) fs1 = (r, fs')" using assms(2) 2(4) w1 by (simp add: sm_bind_def)
      show ?thesis using Inr 2(1-3) k atomic_write_cases [OF w2] by (auto simp: stores_def)
    qed
  qed (use assms(2) in auto)
qed

lemma issue_calm:
  assumes "calm fs" "issue_certificate pki t answers fs = (r, fs')"
  shows "calm fs' \<and> (r = Inr () \<or> fs' = fs)"
proof (cases rule: issue_cases [of pki t answers fs])
  case (2 key cert)
  from calm_atomic_write [OF assms(1), of "at_key_path t" "as_bytes key"] obtain fs1 where
    w1: "atomic_write (at_key_path t) (as_bytes key) fs = (Inr (), fs1)" "calm fs1" by blast
  from calm_atomic_write [OF w1(2), of "at_cert_path t" "as_bytes cert"] w1 2(4) assms(2) show ?thesis
    by (auto simp: sm_bind_def)
qed (use assms in simp)

text \<open>Issuing for one target keeps what another one stores.\<close>

lemma issue_stores:
  assumes "calm fs" "target_ok t" "target_ok u" "issue_certificate pki t answers fs = (r, fs')" "stores pki u fs"
  shows "stores pki u fs'"
proof (cases "at_cert_path u = at_cert_path t \<and> at_key_path u = at_key_path t")
  case True
  then show ?thesis using issue_result(1) [OF assms(2,4)] issue_calm [OF assms(1,4)] assms(5) by (auto simp: stores_def)
next
  case False
  then show ?thesis
    using issue_result(3) [OF assms(2,4)] target_paths [OF assms(3,2)] target_paths(1) [OF assms(2,3)] assms(5)
    by (auto simp: stores_def)
qed

lemma cache_status_calm:
  assumes "calm fs" "certificate_cache_status pki t days fs = (status, fs')"
  shows "calm fs' \<and> fs_files fs' = fs_files fs \<and> (status \<noteq> MissingOrInvalid \<longrightarrow> stores pki t fs)"
proof -
  from calm_read [OF assms(1), of "at_cert_path t"] obtain fs1 where
    r1: "fs_read (at_cert_path t) fs = (case fmlookup (fs_files fs) (at_cert_path t) of None \<Rightarrow> Inl IoError | Some data \<Rightarrow> Inr data, fs1)"
      "calm fs1" "fs_files fs1 = fs_files fs" by blast
  from calm_read [OF r1(2), of "at_key_path t"] obtain fs2 where
    r2: "fs_read (at_key_path t) fs1 = (case fmlookup (fs_files fs1) (at_key_path t) of None \<Rightarrow> Inl IoError | Some data \<Rightarrow> Inr data, fs2)"
      "calm fs2" "fs_files fs2 = fs_files fs1" by blast
  show ?thesis using assms(2) r1 r2
    by (cases "fmlookup (fs_files fs) (at_cert_path t)"; cases "fmlookup (fs_files fs) (at_key_path t)")
      (auto simp: certificate_cache_status_def stores_def pair_status_def is_ok_iff split: if_splits)
qed

lemma prepare_one:
  assumes "calm fs" "target_ok t" "prepare_certificate pki cfg (t, answers) fs = (Inr (), fs')"
  shows "calm fs' \<and> stores pki t fs' \<and> (\<forall>u. target_ok u \<longrightarrow> stores pki u fs \<longrightarrow> stores pki u fs')"
proof -
  have same: "stores pki u a = stores pki u b" if "fs_files a = fs_files b" for u a b using that by (simp add: stores_def)
  from calm_create [OF assms(1), of "at_dir t"] obtain fs1 where
    c: "create_dir_all (at_dir t) fs = (Inr (), fs1)" "calm fs1" "fs_files fs1 = fs_files fs" by blast
  obtain status fs2 where st: "certificate_cache_status pki t (unat (renew_before_days cfg)) fs1 = (status, fs2)" by fastforce
  note s = cache_status_calm [OF c(2) st]
  obtain r fs3 where i: "issue_certificate pki t answers fs2 = (r, fs3)" by fastforce
  have calm2: "calm fs2" using s by simp
  note keep = issue_stores [OF calm2 assms(2) _ i] and kc = issue_calm [OF calm2 i] and ok = issue_result(1) [OF assms(2) i]
  show ?thesis
  proof (cases status)
    case CacheValid
    then show ?thesis using assms(3) c st s same [of fs' fs] same [of fs1 fs]
      by (auto simp: prepare_certificate_def sm_bind_def)
  next
    case RenewDue
    then show ?thesis using assms(2,3) c st s i keep kc same [of fs2 fs] same [of fs1 fs]
      by (auto simp: prepare_certificate_def sm_bind_def)
  next
    case MissingOrInvalid
    then show ?thesis using assms(3) c st s i keep kc ok same [of fs2 fs]
      by (auto simp: prepare_certificate_def sm_bind_def)
  qed
qed

lemma prepare_all:
  assumes "calm fs" "\<forall>w \<in> set work. target_ok (fst w)" "prepare_certificates pki cfg work fs = (Inr (), fs')"
  shows "calm fs' \<and> (\<forall>w \<in> set work. stores pki (fst w) fs') \<and> (\<forall>u. target_ok u \<longrightarrow> stores pki u fs \<longrightarrow> stores pki u fs')"
  using assms
proof (induction work arbitrary: fs)
  case Nil
  then show ?case by (simp add: prepare_certificates_def sm_return_def)
next
  case (Cons w work)
  obtain fs1 where one: "prepare_certificate pki cfg w fs = (Inr (), fs1)" and rest: "prepare_certificates pki cfg work fs1 = (Inr (), fs')"
    using Cons.prems(3) by (auto simp: prepare_certificates_def sm_bind_Inr_iff)
  have "target_ok (fst w)" using Cons.prems(2) by simp
  note p = prepare_one [OF Cons.prems(1) this, of pki cfg "snd w" fs1] 
  from p one have p: "calm fs1" "stores pki (fst w) fs1" "\<forall>u. target_ok u \<longrightarrow> stores pki u fs \<longrightarrow> stores pki u fs1" by simp_all
  from Cons.IH [OF p(1) _ rest] Cons.prems(2) p(2,3) show ?case by auto
qed

lemma load_account_calm:
  assumes "calm fs" "load_account env api cfg fs = (Inr account, fs')"
  shows "calm fs'"
proof -
  from calm_create [OF assms(1), of "path_join (cache_dir cfg) ''accounts''"] obtain fs1 where
    c: "create_dir_all (path_join (cache_dir cfg) ''accounts'') fs = (Inr (), fs1)" "calm fs1" by blast
  have written: "calm fs2" if "atomic_write p raw fs1 = (Inr (), fs2)" for p raw fs2
    using calm_atomic_write [OF c(2), of p raw] that by auto
  have read: "calm fs2" if "fs_read p fs1 = (r, fs2)" for p r fs2
    using calm_read [OF c(2), of p] that by auto
  show ?thesis using assms(2) c(1) written read
    by (auto simp: load_account_def sm_bind_Inr_iff sm_return_def sm_lift_def split: if_splits)
qed

text \<open>An inbound that asks for certificates has the files of a target.\<close>

definition asks_acme :: "inbound_config \<Rightarrow> tls_server_config \<Rightarrow> bool" where
  "asks_acme inbound tls \<longleftrightarrow> in_tls inbound = Some tls \<and> tls_acme tls \<noteq> None"

lemma with_certificate_target:
  assumes "with_certificate env cfg inbound inbound'" "asks_acme inbound' tls"
  obtains names t where "acme_names inbound = Some names" "target_for_domains env cfg names = Inr t"
    "certificate tls = Some (at_cert_path t)" "private_key tls = Some (at_key_path t)"
  using assms by (cases "acme_names inbound") (auto simp: with_certificate_def asks_acme_def acme_names_def split: bind_splits)

lemma acme_prepare_targets:
  assumes hex: "hex_digits (ae_hex env)" "\<forall>bs. length (ae_sha256 env bs) = 32"
    and entries: "\<forall>m. set (into_values m) = {t. \<exists>names. fmlookup m names = Some t}"
    and run: "calm fs" "acme_prepare env pki api into_values answers config fs = (Inr (config', manager), fs')"
    and asks: "inbound \<in> set (inbounds config')" "asks_acme inbound tls"
  obtains m t where "manager = Some m" "calm fs'" "\<forall>t \<in> set (am_targets m). target_ok t \<and> stores pki t fs'"
    "t \<in> set (am_targets m)" "certificate tls = Some (at_cert_path t)" "private_key tls = Some (at_key_path t)"
proof -
  let ?cfg = "acme_config_of config"
  obtain targets where conf: "configure_targets env config ?cfg = Inr (config', targets)"
    using run(2) by (auto simp: acme_prepare_def sm_bind_Inr_iff sm_lift_Inr sm_return_def Let_def split: if_splits)
  note c = configure_targets_correct [OF conf]
  obtain i where i: "i < length (inbounds config')" "inbound = inbounds config' ! i" using asks(1) by (auto simp: in_set_conv_nth)
  have len: "length (inbounds config) = length (inbounds config')" using c list_all2_lengthD by blast
  have "with_certificate env ?cfg (inbounds config ! i) inbound" using c i len by (simp add: list_all2_nthD2)
  from with_certificate_target [OF this asks(2)] obtain names t where
    t: "acme_names (inbounds config ! i) = Some names" "target_for_domains env ?cfg names = Inr t"
      "certificate tls = Some (at_cert_path t)" "private_key tls = Some (at_key_path t)" by metis
  have "Some names \<in> acme_names ` set (inbounds config)" using t(1) i len nth_mem [of i "inbounds config"] by (metis imageI)
  then have "fmlookup targets names = Some t" using c t(2) by blast
  then have mem: "t \<in> set (into_values targets)" using entries by blast
  then obtain account fs1 where acc: "load_account env api ?cfg fs = (Inr account, fs1)"
      and prep: "prepare_certificates pki ?cfg (map (\<lambda>t. (t, answers t)) (into_values targets)) fs1 = (Inr (), fs')"
      and m: "manager = Some \<lparr>am_cfg = ?cfg, am_account = account, am_targets = into_values targets\<rparr>"
    using run(2) conf by (auto simp: acme_prepare_def sm_bind_Inr_iff sm_lift_Inr sm_return_def Let_def split: if_splits)
  have ok: "\<forall>t \<in> set (into_values targets). target_ok t" using entries c target_for_domains_ok [OF hex] by auto
  then have "\<forall>w \<in> set (map (\<lambda>t. (t, answers t)) (into_values targets)). target_ok (fst w)" by auto
  from prepare_all [OF load_account_calm [OF run(1) acc] this prep] ok mem t m show thesis by (intro that) auto
qed

text \<open>An inbound that asks for certificates and has a pair that can be used.\<close>

definition served :: "('c, 'k, 't) pki \<Rightarrow> file_system \<Rightarrow> inbound_config \<Rightarrow> bool" where
  "served pki fs inbound \<longleftrightarrow>
     (\<forall>tls. asks_acme inbound tls \<longrightarrow>
       (\<exists>cert_path key_path cert key. certificate_path tls = Inr cert_path \<and> private_key_path tls = Inr key_path \<and>
          fmlookup (fs_files fs) cert_path = Some cert \<and> fmlookup (fs_files fs) key_path = Some key \<and>
          validate_certificate_pair_bytes pki cert key = Inr ()))"

lemma served_target:
  assumes "stores pki t fs" "certificate tls = Some (at_cert_path t)" "private_key tls = Some (at_key_path t)" "asks_acme inbound tls"
  shows "served pki fs inbound"
  using assms by (auto simp: served_def stores_def certificate_path_def private_key_path_def asks_acme_def)

text \<open>After a start with certificates from an authority, every inbound that asks for one has a pair of
  files that can be used, provided no file operation failed: both paths are configured, both files exist, and
  the certificate and the key in them belong together. This holds whatever the authority answered, whatever was
  cached before, also for several inbounds and targets.\<close>

theorem acme_prepare_ready:
  assumes "hex_digits (ae_hex env)" "\<forall>bs. length (ae_sha256 env bs) = 32"
    and "\<forall>m. set (into_values m) = {t. \<exists>names. fmlookup m names = Some t}"
    and "calm fs" "acme_prepare env pki api into_values answers config fs = (Inr (config', manager), fs')"
  shows "list_all (served pki fs') (inbounds config')"
proof -
  have "served pki fs' inbound" if "inbound \<in> set (inbounds config')" for inbound
  proof (cases "\<exists>tls. asks_acme inbound tls")
    case True
    then obtain tls where "asks_acme inbound tls" by blast
    with acme_prepare_targets [OF assms that this] show ?thesis using served_target by metis
  qed (simp add: served_def)
  then show ?thesis by (simp add: list_all_iff)
qed

text \<open>C35: Issuing replaces a certificate only by one that fits its key. If it succeeds, the files of the
  target hold a pair that belongs together. If it fails, at whatever step and with whatever file operation
  failing, the certificate is as before, and the key is as before or the new one as a whole. No other file
  changes but the two temporary ones.\<close>

theorem acme_issue_files:
  assumes "hex_digits (ae_hex env)" "\<forall>bs. length (ae_sha256 env bs) = 32"
    and "target_for_domains env cfg names = Inr t" "issue_certificate pki t answers fs = (r, fs')"
  shows "(r = Inr () \<longrightarrow> stores pki t fs') \<and>
    (r \<noteq> Inr () \<longrightarrow>
      fmlookup (fs_files fs') (at_cert_path t) = fmlookup (fs_files fs) (at_cert_path t) \<and>
      (fmlookup (fs_files fs') (at_key_path t) = fmlookup (fs_files fs) (at_key_path t) \<or>
        (\<exists>key. oa_finalize answers = Inr key \<and> fmlookup (fs_files fs') (at_key_path t) = Some (as_bytes key)))) \<and>
    (\<forall>p. p \<notin> {at_cert_path t, at_key_path t, tmp_path (at_cert_path t), tmp_path (at_key_path t)} \<longrightarrow>
      fmlookup (fs_files fs') p = fmlookup (fs_files fs) p)"
  using issue_result [OF target_for_domains_ok [OF assms(1-3)] assms(4)] by blast

text \<open>
  A failed renewal does not always keep the cached pair: the key is replaced before the certificate, so when
  the certificate cannot be written after the key has been, the certificate in the cache no longer fits its key,
  although the preparation only warns and continues with the cached certificate.
\<close>

lemma renewal_breaks_pair:
  assumes "target_ok t" "validate_certificate_pair_bytes pki (as_bytes cert) (as_bytes key) = Inr ()"
    and "oa_listen answers = Inr ()" "fst (answer_challenges answers) = Inr ()"
    and "oa_finalize answers = Inr key" "oa_certificate answers = Inr cert"
    and "fmlookup (fs_files fs) (at_cert_path t) = Some old" "fs_outcomes fs = replicate 7 None @ [Some n]"
    and "fmlookup (fs_files fs) (at_key_path t) = Some old_key" "pair_status pki (unat (renew_before_days cfg)) old old_key = RenewDue"
  shows "\<exists>fs'. prepare_certificate pki cfg (t, answers) fs = (Inr (), fs') \<and>
    fmlookup (fs_files fs') (at_cert_path t) = Some old \<and> fmlookup (fs_files fs') (at_key_path t) = Some (as_bytes key)"
proof -
  note [simp] = target_paths(1-5) [OF assms(1,1)] target_paths(1-5) [OF assms(1,1), THEN not_sym]
  have outcomes: "fs_outcomes fs = [None, None, None, None, None, None, None, Some n]"
    using assms(8) by (simp add: numeral_eq_Suc)
  show ?thesis using assms(2-7,9,10) outcomes
    by (cases n) (simp_all add: prepare_certificate_def certificate_cache_status_def issue_certificate_def atomic_write_def
      validate_certificate_pair_def sm_bind_def sm_lift_def fs_defs)
qed

section \<open>An example\<close>

definition demo_pki :: "(bytes, bytes, nat) pki" where
  "demo_pki = \<lparr>stack_from_pem = (\<lambda>b. Inr [b]), private_key_from_pem = Inr, context_new = Inr (),
     set_certificate = (\<lambda>_. Inr ()), set_private_key = (\<lambda>_ _. Inr ()),
     check_private_key = (\<lambda>c k. if c = k then Inr () else Inl IoError),
     not_after = length, days_from_now = Inr,
     time_compare = (\<lambda>a b. Inr (if a < b then Less else if a = b then Equal else Greater))\<rparr>"

definition demo_order :: order_answers where
  "demo_order = \<lparr>oa_listen = Inr (), oa_new_order = Inr (),
     oa_authorizations = [Inr \<lparr>az_status = AuthPending, az_challenge = Some (''t'', ''t.k''), az_ready = Inr ()\<rparr>],
     oa_poll_ready = Inr OrderReady, oa_finalize = Inr ''nn'', oa_certificate = Inr ''nn''\<rparr>"

definition demo_target :: acme_target where
  "demo_target = \<lparr>at_domains = [''a''], at_dir = ''.rtunnel/acme/certificates/'' @ concat (replicate 32 ''07'') @ ''/a'',
     at_cert_path = ''.rtunnel/acme/certificates/'' @ concat (replicate 32 ''07'') @ ''/a/cert.pem'',
     at_key_path = ''.rtunnel/acme/certificates/'' @ concat (replicate 32 ''07'') @ ''/a/key.pem''\<rparr>"

lemma demo_target: "target_for_domains demo_acme default_acme_config [''a''] = Inr demo_target"
  by code_simp

lemma demo_challenges: "fst (answer_challenges demo_order) = Inr ()"
  by code_simp

definition demo_fs :: file_system where
  "demo_fs = \<lparr>fs_files = fmupd ''rtunnel.toml'' [] fmempty, fs_outcomes = []\<rparr>"

theorem acme_challenges_served_witness:
  "\<exists>s. answer_challenges demo_order = (Inr (), s) \<and>
    map (\<lambda>(token, key, _). (token, key)) (cs_ready s) = [(''t'', ''t.k'')] \<and>
    fst (handle_challenge_request ''GET'' ''/'' (cs_store s)) = 404"
proof -
  obtain s where s: "answer_challenges demo_order = (Inr (), s)"
    using demo_challenges by (cases "answer_challenges demo_order") simp
  have "pending_challenges (oa_authorizations demo_order) = [(''t'', ''t.k'')]" by code_simp
  with acme_challenges_served [OF s, of "''GET''" "''/''"] s show ?thesis by simp
qed

lemma demo_issue:
  assumes "calm fs"
  shows "\<exists>fs'. issue_certificate demo_pki demo_target demo_order fs = (Inr (), fs')"
proof -
  have pair: "validate_certificate_pair_bytes demo_pki (as_bytes ''nn'') (as_bytes ''nn'') = Inr ()" by code_simp
  obtain fs1 where w1: "atomic_write (at_key_path demo_target) (as_bytes ''nn'') fs = (Inr (), fs1)" "calm fs1"
    using calm_atomic_write [OF assms] by blast
  obtain fs2 where "atomic_write (at_cert_path demo_target) (as_bytes ''nn'') fs1 = (Inr (), fs2)" 
    using calm_atomic_write [OF w1(2)] by blast
  then show ?thesis using w1 pair demo_challenges
    by (simp add: issue_certificate_def validate_certificate_pair_def sm_bind_def sm_lift_def demo_order_def)
qed

theorem acme_issue_files_witness:
  "\<exists>fs'. issue_certificate demo_pki demo_target demo_order demo_fs = (Inr (), fs') \<and> stores demo_pki demo_target fs'"
proof -
  obtain fs' where i: "issue_certificate demo_pki demo_target demo_order demo_fs = (Inr (), fs')"
    using demo_issue [of demo_fs] by (auto simp: calm_def demo_fs_def)
  have "hex_digits (ae_hex demo_acme)" "\<forall>bs. length (ae_sha256 demo_acme bs) = 32"
    using demo_hex_digits by (simp_all add: demo_acme_def)
  from acme_issue_files [OF this demo_target i] i show ?thesis by simp
qed

lemma renewal_breaks_pair_example:
  "\<exists>fs'. prepare_certificate demo_pki default_acme_config (demo_target, demo_order)
      \<lparr>fs_files = fmap_of_list [(at_cert_path demo_target, [1]), (at_key_path demo_target, [1])],
       fs_outcomes = replicate 7 None @ [Some 0]\<rparr> = (Inr (), fs') \<and> \<not> stores demo_pki demo_target fs'"
proof -
  let ?fs = "\<lparr>fs_files = fmap_of_list [(at_cert_path demo_target, [1]), (at_key_path demo_target, [1])],
       fs_outcomes = replicate 7 None @ [Some 0]\<rparr>"
  have ok: "target_ok demo_target"
    using demo_hex_digits by (intro target_for_domains_ok [OF _ _ demo_target]) (simp_all add: demo_acme_def)
  have "\<exists>fs'. prepare_certificate demo_pki default_acme_config (demo_target, demo_order) ?fs = (Inr (), fs') \<and>
    fmlookup (fs_files fs') (at_cert_path demo_target) = Some [1] \<and>
    fmlookup (fs_files fs') (at_key_path demo_target) = Some (as_bytes ''nn'')"
  proof (rule renewal_breaks_pair [OF ok _ _ demo_challenges, of _ "''nn''" _ _ _ 0 "[1]"])
    show "validate_certificate_pair_bytes demo_pki (as_bytes ''nn'') (as_bytes ''nn'') = Inr ()" by code_simp
    show "oa_listen demo_order = Inr ()" "oa_finalize demo_order = Inr ''nn''" "oa_certificate demo_order = Inr ''nn''"
      by (simp_all add: demo_order_def)
    show "fmlookup (fs_files ?fs) (at_cert_path demo_target) = Some [1]" "fmlookup (fs_files ?fs) (at_key_path demo_target) = Some [1]"
      using target_paths(1) [OF ok ok] by (simp_all add: fmlookup_of_list)
    show "pair_status demo_pki (unat (renew_before_days default_acme_config)) [1] [1] = RenewDue" by code_simp
  qed simp
  moreover have "validate_certificate_pair_bytes demo_pki [1] (as_bytes ''nn'') \<noteq> Inr ()" by code_simp
  ultimately show ?thesis by (auto simp: stores_def)
qed

definition demo_accounts :: "string account_api" where
  "demo_accounts = \<lparr>restore_account = Inr, create_account = (\<lambda>url contacts. Inr (url, [1]))\<rparr>"

definition demo_acme_start :: config where
  "demo_acme_start = demo_pool_config\<lparr>cfg_acme := Some (default_acme_config\<lparr>accept_terms := True\<rparr>),
     inbounds := [demo_acme_inbound [''a'']]\<rparr>"

definition demo_values :: "(string list, acme_target) fmap \<Rightarrow> acme_target list" where
  "demo_values m = map (\<lambda>names. the (fmlookup m names)) (sorted_list_of_fset (fmdom m))"

lemma demo_values: "set (demo_values m) = {t. \<exists>names. fmlookup m names = Some t}"
  by (force simp: demo_values_def fmlookup_dom_iff)

lemma demo_values_single: "demo_values (fmupd names t fmempty) = [t]"
  by (simp add: demo_values_def sorted_list_of_fset.rep_eq)

lemma demo_account:
  "\<exists>account fs'. load_account demo_acme demo_accounts (default_acme_config\<lparr>accept_terms := True\<rparr>) demo_fs = (Inr account, fs')"
proof -
  let ?cfg = "default_acme_config\<lparr>accept_terms := True\<rparr>"
  have calm: "calm demo_fs" by (simp add: calm_def demo_fs_def)
  have "account_path demo_acme ?cfg \<noteq> ''rtunnel.toml''" by code_simp
  then obtain fs1 where c: "create_dir_all (path_join (cache_dir default_acme_config) ''accounts'') demo_fs = (Inr (), fs1)"
      "calm fs1" "fmlookup (fs_files fs1) (account_path demo_acme ?cfg) = None"
    using calm_create [OF calm, of "path_join (cache_dir default_acme_config) ''accounts''"] by (auto simp: demo_fs_def)
  obtain url where "directory_url demo_acme (directory default_acme_config) = Inr url"
    using demo_target by (auto simp: target_for_domains_def and_then_Inr_iff Let_def)
  with c(1,3) calm_atomic_write [OF c(2), of "account_path demo_acme (default_acme_config\<lparr>accept_terms := True\<rparr>)" "[1]"] show ?thesis
    by (auto simp: load_account_def demo_accounts_def sm_bind_def sm_lift_def sm_return_def ensure_def)
qed

lemma demo_prepare: "\<exists>config' manager fs'. acme_prepare demo_acme demo_pki demo_accounts demo_values (\<lambda>_. demo_order)
    demo_acme_start demo_fs = (Inr (config', manager), fs') \<and> length (inbounds config') = 1"
proof -
  let ?cfg = "default_acme_config\<lparr>accept_terms := True\<rparr>"
  have target: "target_for_domains demo_acme ?cfg [''a''] = Inr demo_target"
    using demo_target by (simp add: target_for_domains_def)
  have names: "remdups_adj (sort [''a'']) = [''a'']" by simp
  obtain config' where conf: "configure_targets demo_acme demo_acme_start ?cfg = Inr (config', fmupd [''a''] demo_target fmempty)"
      "length (inbounds config') = 1"
    using target by (simp add: configure_targets_def demo_acme_start_def demo_acme_inbound_def Let_def)
  obtain account fs1 where acc: "load_account demo_acme demo_accounts ?cfg demo_fs = (Inr account, fs1)"
    using demo_account by blast
  have calm1: "calm fs1" by (rule load_account_calm [OF _ acc]) (simp add: calm_def demo_fs_def)
  have "\<exists>fs'. prepare_certificate demo_pki ?cfg (demo_target, demo_order) fs1 = (Inr (), fs')"
  proof -
    from calm_create [OF calm1, of "at_dir demo_target"] obtain fs2 where
      c: "create_dir_all (at_dir demo_target) fs1 = (Inr (), fs2)" "calm fs2" by blast
    obtain status fs3 where st: "certificate_cache_status demo_pki demo_target (unat (renew_before_days ?cfg)) fs2 = (status, fs3)"
      by fastforce
    have "calm fs3" using cache_status_calm [OF c(2) st] by simp
    from demo_issue [OF this] c(1) st show ?thesis
      by (cases status) (auto simp: prepare_certificate_def sm_bind_def)
  qed
  then obtain fs' where "prepare_certificate demo_pki ?cfg (demo_target, demo_order) fs1 = (Inr (), fs')" by blast
  moreover have "acme_config_of demo_acme_start = ?cfg" by (simp add: acme_config_of_def demo_acme_start_def)
  ultimately show ?thesis using conf acc
    by (simp add: acme_prepare_def Let_def sm_bind_def sm_lift_def sm_return_def demo_values_single prepare_certificates_def)
qed

section \<open>Renewal\<close>

lemma renew_keeps:
  assumes "calm fs" "target_ok t"
  shows "calm (snd (renew_if_due pki cfg t answers fs)) \<and>
    (\<forall>u. target_ok u \<longrightarrow> stores pki u fs \<longrightarrow> stores pki u (snd (renew_if_due pki cfg t answers fs)))"
proof -
  obtain status fs1 where st: "certificate_cache_status pki t (unat (renew_before_days cfg)) fs = (status, fs1)" by fastforce
  note s = cache_status_calm [OF assms(1) st]
  obtain r fs2 where i: "issue_certificate pki t answers fs1 = (r, fs2)" by fastforce
  have calm1: "calm fs1" using s by simp
  have same: "stores pki u fs1 = stores pki u fs" for u using s by (simp add: stores_def)
  show ?thesis using st s i issue_calm [OF calm1 i] issue_stores [OF calm1 assms(2) _ i] same
    by (cases status) (auto simp: renew_if_due_def)
qed

lemma renewal_round_keeps:
  assumes "calm fs" "\<forall>w \<in> set work. target_ok (fst w)"
  shows "calm (renewal_round pki cfg work fs) \<and> (\<forall>u. target_ok u \<longrightarrow> stores pki u fs \<longrightarrow> stores pki u (renewal_round pki cfg work fs))"
  using assms
proof (induction pki cfg work fs rule: renewal_round.induct)
  case (2 pki cfg t answers rest fs)
  then show ?case using renew_keeps [of fs t pki cfg answers] by auto
qed simp

text \<open>The rounds of the task, each with the answers of the authority.\<close>

definition renewal_rounds ::
    "('c, 'k, 't) pki \<Rightarrow> 'a acme_manager \<Rightarrow> (acme_target \<Rightarrow> order_answers) list \<Rightarrow> file_system \<Rightarrow> file_system" where
  "renewal_rounds pki m rounds =
     fold (\<lambda>answers. renewal_round pki (am_cfg m) (map (\<lambda>t. (t, answers t)) (am_targets m))) rounds"

lemma renewal_rounds_keep:
  assumes "calm fs" "\<forall>t \<in> set (am_targets m). target_ok t \<and> stores pki t fs"
  shows "calm (renewal_rounds pki m rounds fs) \<and> (\<forall>t \<in> set (am_targets m). stores pki t (renewal_rounds pki m rounds fs))"
  using assms
proof (induction rounds arbitrary: fs)
  case (Cons answers rounds)
  let ?work = "map (\<lambda>t. (t, answers t)) (am_targets m)"
  have "\<forall>w \<in> set ?work. target_ok (fst w)" using Cons.prems(2) by auto
  note r = renewal_round_keeps [OF Cons.prems(1) this, of pki "am_cfg m"]
  then have "calm (renewal_round pki (am_cfg m) ?work fs)"
      "\<forall>t \<in> set (am_targets m). target_ok t \<and> stores pki t (renewal_round pki (am_cfg m) ?work fs)"
    using Cons.prems(2) by auto
  from Cons.IH [OF this] show ?case by (simp add: renewal_rounds_def)
qed (simp add: renewal_rounds_def)

end
