(* ===== verification/Tls.thy ===== *)
theory Tls
  imports Acme_Issue
begin

text \<open>
  TLS contexts (\<open>tls.rs\<close>): the calls that build the client contexts, loading a certificate with its key,
  the server context, and reloading the certificate at every handshake. The TLS library is a parameter: it
  answers every call that can fail.
\<close>

section \<open>Constants\<close>

definition CHROME_TLS12_CIPHERS :: string where
  "CHROME_TLS12_CIPHERS = join '':''
     [''ECDHE-ECDSA-AES128-GCM-SHA256'', ''ECDHE-RSA-AES128-GCM-SHA256'', ''ECDHE-ECDSA-AES256-GCM-SHA384'',
      ''ECDHE-RSA-AES256-GCM-SHA384'', ''ECDHE-ECDSA-CHACHA20-POLY1305'', ''ECDHE-RSA-CHACHA20-POLY1305'',
      ''ECDHE-RSA-AES128-SHA'', ''ECDHE-RSA-AES256-SHA'', ''AES128-GCM-SHA256'', ''AES256-GCM-SHA384'',
      ''AES128-SHA'', ''AES256-SHA'']"

definition CHROME_SIGNATURE_ALGORITHMS :: string where
  "CHROME_SIGNATURE_ALGORITHMS = join '':''
     [''ecdsa_secp256r1_sha256'', ''rsa_pss_rsae_sha256'', ''rsa_pkcs1_sha256'', ''ecdsa_secp384r1_sha384'',
      ''rsa_pss_rsae_sha384'', ''rsa_pkcs1_sha384'', ''rsa_pss_rsae_sha512'', ''rsa_pkcs1_sha512'']"

definition CHROME_SUPPORTED_GROUPS :: string where
  "CHROME_SUPPORTED_GROUPS = ''X25519MLKEM768:X25519:P-256:P-384''"

definition SERVER_ALPN_PREFERENCE :: bytes where
  "SERVER_ALPN_PREFERENCE = 2 # as_bytes ''h2'' @ 8 # as_bytes ''http/1.1''"

definition CHROME_H2_ALPS_SETTINGS :: bytes where
  "CHROME_H2_ALPS_SETTINGS =
     [0x00, 0x01, 0x00, 0x00, 0x01, 0x00,
      0x00, 0x02, 0x00, 0x00, 0x00, 0x00,
      0x00, 0x04, 0x00, 0x60, 0x00, 0x00,
      0x00, 0x06, 0x00, 0x04, 0x00, 0x00]"

section \<open>Client contexts\<close>

datatype ssl_version = TLS1_2 | TLS1_3

text \<open>The calls on a builder, with what they set.\<close>

datatype tls_call =
    SetMinProtoVersion ssl_version
  | SetMaxProtoVersion ssl_version
  | SetAlpnProtos bytes
  | SetCipherList string
  | SetCurvesList string
  | SetSigalgsList string
  | SetGreaseEnabled bool
  | SetPermuteExtensions bool
  | EnableOcspStapling
  | EnableSignedCertTimestamps
  | AddBrotliDecompressor
  | SetNoCompression
  | SetCaFile string
  | SetDefaultVerifyPaths
  | SetVerifyNone
  | SetEnableEchGrease bool
  | AddApplicationSettings bytes bytes

text \<open>
  The answers of the library: to a new builder of either kind, to a call after earlier ones, to a certificate
  for the chain, and the protocol it selects from the preference and the offer.
\<close>

record 'c tls_lib =
  tl_connector :: "unit res"
  tl_acceptor :: "unit res"
  tl_answer :: "tls_call list \<Rightarrow> tls_call \<Rightarrow> unit res"
  tl_add_chain_cert :: "'c \<Rightarrow> unit res"
  tl_select_next_proto :: "bytes \<Rightarrow> bytes \<Rightarrow> bytes option"

text \<open>A builder is the list of the calls it took. The second kind of call cannot fail.\<close>

definition try_call :: "'c tls_lib \<Rightarrow> tls_call \<Rightarrow> (tls_call list, unit) sm" where
  "try_call lib call builder =
     (case tl_answer lib builder call of Inl e \<Rightarrow> (Inl e, builder) | Inr _ \<Rightarrow> (Inr (), builder @ [call]))"

definition do_call :: "tls_call \<Rightarrow> (tls_call list, unit) sm" where
  "do_call call = sm_modify (\<lambda>builder. builder @ [call])"

definition chrome_like_connector :: "'c tls_lib \<Rightarrow> bool \<Rightarrow> string option \<Rightarrow> tls_call list res" where
  "chrome_like_connector lib no_verify ca_path =
     and_then (tl_connector lib) (\<lambda>_.
     case
       sm_bind (try_call lib (SetMinProtoVersion TLS1_2)) (\<lambda>_.
       sm_bind (try_call lib (SetMaxProtoVersion TLS1_3)) (\<lambda>_.
       sm_bind (try_call lib (SetAlpnProtos (2 # as_bytes ''h2'' @ 8 # as_bytes ''http/1.1''))) (\<lambda>_.
       sm_bind (try_call lib (SetCipherList CHROME_TLS12_CIPHERS)) (\<lambda>_.
       sm_bind (try_call lib (SetCurvesList CHROME_SUPPORTED_GROUPS)) (\<lambda>_.
       sm_bind (try_call lib (SetSigalgsList CHROME_SIGNATURE_ALGORITHMS)) (\<lambda>_.
       sm_bind (do_call (SetGreaseEnabled True)) (\<lambda>_.
       sm_bind (do_call (SetPermuteExtensions True)) (\<lambda>_.
       sm_bind (do_call EnableOcspStapling) (\<lambda>_.
       sm_bind (do_call EnableSignedCertTimestamps) (\<lambda>_.
       sm_bind (try_call lib AddBrotliDecompressor) (\<lambda>_.
       sm_bind (do_call SetNoCompression) (\<lambda>_.
       sm_bind (case ca_path of Some ca \<Rightarrow> try_call lib (SetCaFile ca) | None \<Rightarrow> sm_return ()) (\<lambda>_.
       if no_verify then do_call SetVerifyNone else sm_return ()))))))))))))) []
     of (Inl e, _) \<Rightarrow> Inl e | (Inr _, builder) \<Rightarrow> Inr builder)"

text \<open>On a connection, after the calls of its connector.\<close>

definition configure_chrome_like_ssl :: "'c tls_lib \<Rightarrow> (tls_call list, unit) sm" where
  "configure_chrome_like_ssl lib =
     sm_bind (do_call (SetEnableEchGrease True)) (\<lambda>_.
     sm_bind (\<lambda>ssl. (Inr (is_ok (tl_answer lib ssl (AddApplicationSettings (as_bytes ''h2'') CHROME_H2_ALPS_SETTINGS))), ssl)) (\<lambda>added.
     sm_bind (sm_lift (ensure added ''failed to enable h2 ALPS application settings'')) (\<lambda>_.
     do_call (AddApplicationSettings (as_bytes ''h2'') CHROME_H2_ALPS_SETTINGS))))"

definition chrome_like_quic_client_context ::
    "'c tls_lib \<Rightarrow> ('c, 'k, 't) pki \<Rightarrow> string option \<Rightarrow> tls_call list res" where
  "chrome_like_quic_client_context lib pki ca_path =
     and_then (context_new pki) (\<lambda>_.
     case
       sm_bind (try_call lib (SetMinProtoVersion TLS1_3)) (\<lambda>_.
       sm_bind (try_call lib (SetMaxProtoVersion TLS1_3)) (\<lambda>_.
       sm_bind (try_call lib (SetCurvesList CHROME_SUPPORTED_GROUPS)) (\<lambda>_.
       sm_bind (try_call lib (SetSigalgsList CHROME_SIGNATURE_ALGORITHMS)) (\<lambda>_.
       sm_bind (do_call (SetGreaseEnabled True)) (\<lambda>_.
       sm_bind (do_call (SetPermuteExtensions True)) (\<lambda>_.
       sm_bind (try_call lib AddBrotliDecompressor) (\<lambda>_.
       sm_bind (case ca_path of
           Some ca \<Rightarrow> try_call lib (SetCaFile ca)
         | None \<Rightarrow> try_call lib SetDefaultVerifyPaths) (\<lambda>_.
       do_call SetNoCompression)))))))) []
     of (Inl e, _) \<Rightarrow> Inl e | (Inr _, builder) \<Rightarrow> Inr builder)"

section \<open>Certificates of the server\<close>

definition load_certificate_pair :: "('c, 'k, 't) pki \<Rightarrow> string \<Rightarrow> string \<Rightarrow> (file_system, 'c list \<times> 'k) sm" where
  "load_certificate_pair pki cert_path key_path =
     sm_bind (fs_read cert_path) (\<lambda>cert_pem.
     sm_bind (fs_read key_path) (\<lambda>key_pem.
     sm_bind (sm_lift (stack_from_pem pki cert_pem)) (\<lambda>certs.
     sm_bind (sm_lift (ensure (certs \<noteq> []) ''TLS certificate chain is empty'')) (\<lambda>_.
     sm_bind (sm_lift (private_key_from_pem pki key_pem)) (\<lambda>key.
     sm_return (certs, key))))))"

text \<open>What a context or a connection has loaded: the leaf, its key and the rest of the chain.\<close>

record ('c, 'k) loaded =
  ld_leaf :: 'c
  ld_key :: 'k
  ld_chain :: "'c list"

fun add_chain :: "'c tls_lib \<Rightarrow> 'c list \<Rightarrow> unit res" where
  "add_chain lib [] = Inr ()"
| "add_chain lib (cert # chain) = and_then (tl_add_chain_cert lib cert) (\<lambda>_. add_chain lib chain)"

definition load_certificate_into_context ::
    "'c tls_lib \<Rightarrow> ('c, 'k, 't) pki \<Rightarrow> string \<Rightarrow> string \<Rightarrow> (file_system, ('c, 'k) loaded) sm" where
  "load_certificate_into_context lib pki cert_path key_path =
     sm_bind (load_certificate_pair pki cert_path key_path) (\<lambda>(certs, key).
     case certs of
       [] \<Rightarrow> sm_fail (Bail ''TLS certificate chain is empty'')
     | leaf # chain \<Rightarrow>
         sm_bind (sm_lift (set_certificate pki leaf)) (\<lambda>_.
         sm_bind (sm_lift (set_private_key pki leaf key)) (\<lambda>_.
         sm_bind (sm_lift (add_chain lib chain)) (\<lambda>_.
         sm_bind (sm_lift (check_private_key pki leaf key)) (\<lambda>_.
         sm_return \<lparr>ld_leaf = leaf, ld_key = key, ld_chain = chain\<rparr>)))))"

definition load_certificate_into_ssl ::
    "'c tls_lib \<Rightarrow> ('c, 'k, 't) pki \<Rightarrow> string \<Rightarrow> string \<Rightarrow> (file_system, ('c, 'k) loaded) sm" where
  "load_certificate_into_ssl lib pki cert_path key_path =
     sm_bind (load_certificate_pair pki cert_path key_path) (\<lambda>(certs, key).
     case certs of
       [] \<Rightarrow> sm_fail (Bail ''TLS certificate chain is empty'')
     | leaf # chain \<Rightarrow>
         sm_bind (sm_lift (set_certificate pki leaf)) (\<lambda>_.
         sm_bind (sm_lift (set_private_key pki leaf key)) (\<lambda>_.
         sm_bind (sm_lift (add_chain lib chain)) (\<lambda>_.
         sm_return \<lparr>ld_leaf = leaf, ld_key = key, ld_chain = chain\<rparr>))))"

text \<open>
  A context of a server: its versions, what it has loaded, the files its callback reads at every handshake,
  and whether it selects the protocol.
\<close>

record ('c, 'k) server_context =
  sc_calls :: "tls_call list"
  sc_loaded :: "('c, 'k) loaded"
  sc_reload :: "(string \<times> string) option"
  sc_alpn :: bool

definition install_certificate_reload_callback ::
    "string \<Rightarrow> string \<Rightarrow> ('c, 'k) server_context \<Rightarrow> ('c, 'k) server_context" where
  "install_certificate_reload_callback cert_path key_path context = context\<lparr>sc_reload := Some (cert_path, key_path)\<rparr>"

definition server_acceptor ::
    "'c tls_lib \<Rightarrow> ('c, 'k, 't) pki \<Rightarrow> tls_server_config \<Rightarrow> (file_system, ('c, 'k) server_context) sm" where
  "server_acceptor lib pki tls =
     sm_bind (sm_lift (certificate_path tls)) (\<lambda>cert_path.
     sm_bind (sm_lift (private_key_path tls)) (\<lambda>key_path.
     sm_bind (sm_lift (tl_acceptor lib)) (\<lambda>_.
     sm_bind (sm_lift (tl_answer lib [] (SetMinProtoVersion TLS1_2))) (\<lambda>_.
     sm_bind (sm_lift (tl_answer lib [SetMinProtoVersion TLS1_2] (SetMaxProtoVersion TLS1_3))) (\<lambda>_.
     sm_bind (load_certificate_into_context lib pki cert_path key_path) (\<lambda>ld.
     let context = \<lparr>sc_calls = [SetMinProtoVersion TLS1_2, SetMaxProtoVersion TLS1_3], sc_loaded = ld,
                    sc_reload = None, sc_alpn = False\<rparr>;
         context = (if tls_acme tls \<noteq> None then install_certificate_reload_callback cert_path key_path context else context) in
     sm_return (context\<lparr>sc_alpn := True\<rparr>)))))))"

text \<open>
  What a handshake uses: what the context has loaded, or what its callback loads. The callback's error ends
  the handshake.
\<close>

definition handshake_pair ::
    "'c tls_lib \<Rightarrow> ('c, 'k, 't) pki \<Rightarrow> ('c, 'k) server_context \<Rightarrow> (file_system, ('c, 'k) loaded) sm" where
  "handshake_pair lib pki context =
     (case sc_reload context of
        None \<Rightarrow> sm_return (sc_loaded context)
      | Some (cert_path, key_path) \<Rightarrow> load_certificate_into_ssl lib pki cert_path key_path)"

definition select_alpn :: "'c tls_lib \<Rightarrow> bytes \<Rightarrow> bytes res" where
  "select_alpn lib client_protocols =
     ok_or (tl_select_next_proto lib SERVER_ALPN_PREFERENCE client_protocols) (Bail ''NOACK'')"

section \<open>Hooks for QUIC\<close>

datatype quic_hook = ReloadingCertificateHook string string | ChromeQuicClientHook "string option"

definition chrome_quic_client_hooks :: "string option \<Rightarrow> quic_hook option" where
  "chrome_quic_client_hooks ca_path = Some (ChromeQuicClientHook ca_path)"

definition quic_hooks :: "tls_server_config \<Rightarrow> quic_hook option res" where
  "quic_hooks tls =
     (if tls_acme tls = None then Inr None
      else
        and_then (certificate_path tls) (\<lambda>cert_path.
        and_then (private_key_path tls) (\<lambda>key_path.
        Inr (Some (ReloadingCertificateHook cert_path key_path)))))"

text \<open>The context for a client that has the hook; without one the QUIC library makes its own.\<close>

definition create_custom_client_ssl_context_builder ::
    "'c tls_lib \<Rightarrow> ('c, 'k, 't) pki \<Rightarrow> string option \<Rightarrow> tls_call list option" where
  "create_custom_client_ssl_context_builder lib pki ca_path =
     (case chrome_like_quic_client_context lib pki ca_path of Inr builder \<Rightarrow> Some builder | Inl _ \<Rightarrow> None)"

definition create_custom_ssl_context_builder ::
    "'c tls_lib \<Rightarrow> ('c, 'k, 't) pki \<Rightarrow> quic_hook \<Rightarrow> file_system \<Rightarrow> ('c, 'k) server_context option \<times> file_system" where
  "create_custom_ssl_context_builder lib pki hook fs =
     (case hook of
        ChromeQuicClientHook _ \<Rightarrow> (None, fs)
      | ReloadingCertificateHook cert_path key_path \<Rightarrow>
          (case context_new pki of
             Inl _ \<Rightarrow> (None, fs)
           | Inr _ \<Rightarrow>
               (case load_certificate_into_context lib pki cert_path key_path fs of
                  (Inl _, fs) \<Rightarrow> (None, fs)
                | (Inr ld, fs) \<Rightarrow>
                    (Some (install_certificate_reload_callback cert_path key_path
                       \<lparr>sc_calls = [], sc_loaded = ld, sc_reload = None, sc_alpn = False\<rparr>), fs))))"

section \<open>Verification of servers\<close>

lemma try_call_Inr: "try_call lib call b = (Inr u, b') \<longleftrightarrow> tl_answer lib b call = Inr () \<and> b' = b @ [call]"
  by (cases "tl_answer lib b call") (auto simp: try_call_def)

lemma do_call_Inr: "do_call call b = (Inr u, b') \<longleftrightarrow> b' = b @ [call]"
  by (auto simp: do_call_def sm_modify_def)

lemma builder_Inr: "(case run of (Inl e, _) \<Rightarrow> Inl e | (Inr _, builder) \<Rightarrow> Inr builder) = Inr calls \<longleftrightarrow> run = (Inr (), calls)"
  by (cases run; cases "fst run") auto

lemmas builder_simps = and_then_Inr_iff builder_Inr sm_bind_Inr_iff try_call_Inr do_call_Inr

lemma connector_calls:
  assumes "chrome_like_connector lib no_verify ca_path = Inr calls"
  shows "calls =
      [SetMinProtoVersion TLS1_2, SetMaxProtoVersion TLS1_3, SetAlpnProtos (2 # as_bytes ''h2'' @ 8 # as_bytes ''http/1.1''),
       SetCipherList CHROME_TLS12_CIPHERS, SetCurvesList CHROME_SUPPORTED_GROUPS, SetSigalgsList CHROME_SIGNATURE_ALGORITHMS,
       SetGreaseEnabled True, SetPermuteExtensions True, EnableOcspStapling, EnableSignedCertTimestamps,
       AddBrotliDecompressor, SetNoCompression] @
      (case ca_path of Some p \<Rightarrow> [SetCaFile p] | None \<Rightarrow> []) @ (if no_verify then [SetVerifyNone] else [])"
    and "ca_path = Some p \<Longrightarrow> \<exists>before. tl_answer lib before (SetCaFile p) = Inr ()"
  using assms by (cases ca_path; cases no_verify; simp add: chrome_like_connector_def builder_simps sm_return_def; blast)+

lemma quic_context_calls:
  assumes "chrome_like_quic_client_context lib pki ca_path = Inr calls"
  shows "calls =
      [SetMinProtoVersion TLS1_3, SetMaxProtoVersion TLS1_3, SetCurvesList CHROME_SUPPORTED_GROUPS,
       SetSigalgsList CHROME_SIGNATURE_ALGORITHMS, SetGreaseEnabled True, SetPermuteExtensions True, AddBrotliDecompressor,
       case ca_path of Some p \<Rightarrow> SetCaFile p | None \<Rightarrow> SetDefaultVerifyPaths, SetNoCompression]"
    and "ca_path = Some p \<Longrightarrow> \<exists>before. tl_answer lib before (SetCaFile p) = Inr ()"
  using assms by (cases ca_path; simp add: chrome_like_quic_client_context_def builder_simps sm_return_def; blast)+


section \<open>Certificates at handshakes\<close>

text \<open>The pair in the files as the library reads it, with a key that fits.\<close>

definition current_pair :: "('c, 'k, 't) pki \<Rightarrow> file_system \<Rightarrow> string \<Rightarrow> string \<Rightarrow> ('c, 'k) loaded \<Rightarrow> bool" where
  "current_pair pki fs cert_path key_path ld \<longleftrightarrow>
     (\<exists>cert key. fmlookup (fs_files fs) cert_path = Some cert \<and> fmlookup (fs_files fs) key_path = Some key \<and>
        stack_from_pem pki cert = Inr (ld_leaf ld # ld_chain ld) \<and> private_key_from_pem pki key = Inr (ld_key ld) \<and>
        check_private_key pki (ld_leaf ld) (ld_key ld) = Inr ())"

lemma add_chain_ok: "\<forall>c. tl_add_chain_cert lib c = Inr () \<Longrightarrow> add_chain lib chain = Inr ()"
  by (induction chain) simp_all

lemma load_stored:
  assumes "calm fs" "stores pki t fs" "\<forall>c. tl_add_chain_cert lib c = Inr ()"
  shows "\<exists>ld fs'. load_certificate_into_context lib pki (at_cert_path t) (at_key_path t) fs = (Inr ld, fs') \<and>
      load_certificate_into_ssl lib pki (at_cert_path t) (at_key_path t) fs = (Inr ld, fs') \<and>
      calm fs' \<and> fs_files fs' = fs_files fs \<and> current_pair pki fs (at_cert_path t) (at_key_path t) ld"
proof -
  obtain cert key where f: "fmlookup (fs_files fs) (at_cert_path t) = Some cert" "fmlookup (fs_files fs) (at_key_path t) = Some key"
      "validate_certificate_pair_bytes pki cert key = Inr ()" using assms(2) by (auto simp: stores_def)
  obtain certs k where v: "stack_from_pem pki cert = Inr certs" "certs \<noteq> []" "private_key_from_pem pki key = Inr k"
      "set_certificate pki (hd certs) = Inr ()" "set_private_key pki (hd certs) k = Inr ()" "check_private_key pki (hd certs) k = Inr ()"
    using f(3) by (auto simp: validate_certificate_pair_bytes_def and_then_Inr_iff ensure_def split: if_splits)
  from calm_read [OF assms(1), of "at_cert_path t"] f(1) obtain fs1 where
    r1: "fs_read (at_cert_path t) fs = (Inr cert, fs1)" "calm fs1" "fs_files fs1 = fs_files fs" by auto
  from calm_read [OF r1(2), of "at_key_path t"] f(2) r1(3) obtain fs2 where
    r2: "fs_read (at_key_path t) fs1 = (Inr key, fs2)" "calm fs2" "fs_files fs2 = fs_files fs" by auto
  have "load_certificate_pair pki (at_cert_path t) (at_key_path t) fs = (Inr (certs, k), fs2)"
    using r1 r2 v by (simp add: load_certificate_pair_def sm_bind_def sm_lift_def sm_return_def ensure_def)
  then show ?thesis using v f r2 add_chain_ok [OF assms(3)]
    by (cases certs) (auto simp: load_certificate_into_context_def load_certificate_into_ssl_def sm_bind_def sm_lift_def
      sm_return_def current_pair_def)
qed

text \<open>The calls on a server's builder succeed.\<close>

definition server_lib_ok :: "'c tls_lib \<Rightarrow> bool" where
  "server_lib_ok lib \<longleftrightarrow> tl_acceptor lib = Inr () \<and> tl_answer lib [] (SetMinProtoVersion TLS1_2) = Inr () \<and>
     tl_answer lib [SetMinProtoVersion TLS1_2] (SetMaxProtoVersion TLS1_3) = Inr () \<and> (\<forall>c. tl_add_chain_cert lib c = Inr ())"

lemma acceptor_stored:
  assumes "calm fs" "stores pki t fs" "server_lib_ok lib" "tls_acme tls \<noteq> None"
    and "certificate tls = Some (at_cert_path t)" "private_key tls = Some (at_key_path t)"
  shows "\<exists>ctx fs'. server_acceptor lib pki tls fs = (Inr ctx, fs') \<and> calm fs' \<and> fs_files fs' = fs_files fs \<and>
    sc_reload ctx = Some (at_cert_path t, at_key_path t)"
  using load_stored [OF assms(1,2), of lib] assms(3-6)
  by (auto simp: server_lib_ok_def server_acceptor_def certificate_path_def private_key_path_def sm_bind_def sm_lift_def sm_return_def
    install_certificate_reload_callback_def Let_def)


section \<open>An example\<close>

definition demo_lib :: "bytes tls_lib" where
  "demo_lib = \<lparr>tl_connector = Inr (), tl_acceptor = Inr (),
     tl_answer = (\<lambda>_ call. if call = SetCaFile ''none'' then Inl IoError else Inr ()),
     tl_add_chain_cert = (\<lambda>_. Inr ()), tl_select_next_proto = (\<lambda>_ _. None)\<rparr>"



end
