(* ===== verification/Startup.thy ===== *)
theory Startup
  imports Outbounds Tls Tuic_Inbound
begin

text \<open>
  The program as a whole (\<open>main.rs\<close>, \<open>Config::load\<close>): reading the configuration, preparing the
  certificates, the router, one task per inbound, and how the program ends; and what the AnyTLS and the TUIC
  inbound set up before they accept connections.
\<close>

section \<open>Start\<close>

text \<open>The parser of the configuration's text is a parameter.\<close>

definition load :: "(string \<Rightarrow> config res) \<Rightarrow> string \<Rightarrow> (file_system, config) sm" where
  "load parse_toml path =
     sm_bind (fs_read path) (\<lambda>raw.
     sm_bind (sm_lift (from_utf8 raw)) (\<lambda>raw.
     sm_bind (sm_lift (parse_toml raw)) (\<lambda>cfg.
     sm_bind (sm_lift (validate cfg)) (\<lambda>_.
     sm_return cfg))))"

record ('a, 'o) started =
  st_config :: config
  st_acme :: "'a acme_manager option"
  st_router :: "'o router"
  st_inbounds :: "inbound_config list"

definition start ::
    "acme_env \<Rightarrow> ('c, 'k, 't) pki \<Rightarrow> 'a account_api \<Rightarrow> ((string list, acme_target) fmap \<Rightarrow> acme_target list) \<Rightarrow>
     (acme_target \<Rightarrow> order_answers) \<Rightarrow> (outbound_config \<Rightarrow> 'o res) \<Rightarrow> (string \<Rightarrow> config res) \<Rightarrow> string \<Rightarrow>
     (file_system, ('a, 'o) started) sm" where
  "start env pki api into_values answers build parse_toml path =
     sm_bind (load parse_toml path) (\<lambda>cfg.
     sm_bind (acme_prepare env pki api into_values answers cfg) (\<lambda>(cfg, acme).
     sm_bind (sm_lift (router_new build cfg)) (\<lambda>router.
     sm_return \<lparr>st_config = cfg, st_acme = acme, st_router = router, st_inbounds = inbounds cfg\<rparr>)))"

section \<open>End\<close>

text \<open>The task of an inbound: it never ends well.\<close>

definition inbound_task ::
    "(inbound_config \<Rightarrow> unit res) \<Rightarrow> (inbound_config \<Rightarrow> unit res) \<Rightarrow> (inbound_config \<Rightarrow> unit res) \<Rightarrow>
     inbound_config \<Rightarrow> unit res" where
  "inbound_task socks5_run anytls_run tuic_run inbound_cfg =
     and_then (run_inbound socks5_run anytls_run tuic_run inbound_cfg) (\<lambda>_.
     Inl (Bail ''inbound exited unexpectedly''))"

text \<open>
  What the program waits for: the next task that has ended, none if there are no tasks and an error
  if it panicked, or the signal to stop.
\<close>

datatype main_event = JoinNext "unit res res option" | CtrlC "unit res"

definition main_select :: "main_event \<Rightarrow> unit res" where
  "main_select event =
     (case event of
        JoinNext result \<Rightarrow>
          and_then (ok_or result (Bail ''no inbounds configured'')) (\<lambda>joined.
          and_then joined (\<lambda>result. result))
      | CtrlC result \<Rightarrow> and_then result (\<lambda>_. Inr ()))"

section \<open>Inbounds\<close>

text \<open>What an AnyTLS inbound has before it accepts connections.\<close>

record ('c, 'k) anytls_listening =
  al_acceptor :: "('c, 'k) server_context"
  al_padding_rules :: "padding_rule list"
  al_padding_md5 :: string
  al_padding_scheme :: bytes

definition anytls_setup ::
    "'c tls_lib \<Rightarrow> ('c, 'k, 't) pki \<Rightarrow> 'f anytls_core \<Rightarrow> (bytes \<Rightarrow> string) \<Rightarrow> inbound_config \<Rightarrow>
     (file_system, ('c, 'k) anytls_listening) sm" where
  "anytls_setup lib pki core md5_hex cfg =
     sm_bind (sm_lift (ok_or (in_tls cfg) (Bail ''anytls inbound requires tls config''))) (\<lambda>tls_cfg.
     sm_bind (sm_lift (parse_padding_scheme (padding_scheme cfg))) (\<lambda>padding_rules.
     let server_padding_md5 = padding_scheme_md5 core md5_hex (padding_scheme cfg);
         server_padding_scheme = padding_scheme_payload (padding_scheme cfg) in
     sm_bind (server_acceptor lib pki tls_cfg) (\<lambda>acceptor.
     sm_return \<lparr>al_acceptor = acceptor, al_padding_rules = padding_rules, al_padding_md5 = server_padding_md5,
                al_padding_scheme = server_padding_scheme\<rparr>)))"

text \<open>What a TUIC inbound gives the QUIC library, and the users of its connections.\<close>

record tuic_listening =
  tl_settings :: quic_settings
  tl_cert :: string
  tl_private_key :: string
  tl_hooks :: "quic_hook option"
  tl_users :: "tuic_user list"

definition tuic_setup ::
    "quic_settings \<Rightarrow> (string \<Rightarrow> uuid res) \<Rightarrow> inbound_config \<Rightarrow> tuic_listening res" where
  "tuic_setup defaults parse_uuid cfg =
     and_then (ok_or (in_tls cfg) (Bail ''tuic inbound requires tls config'')) (\<lambda>tls_cfg.
     and_then (parse_users parse_uuid (case in_users cfg of None \<Rightarrow> [] | Some users \<Rightarrow> users)) (\<lambda>users.
     let settings = (quic_settings_of defaults)\<lparr>verify_peer := False, disable_client_ip_validation := True\<rparr> in
     and_then (certificate_path tls_cfg) (\<lambda>cert.
     and_then (private_key_path tls_cfg) (\<lambda>private_key.
     and_then (quic_hooks tls_cfg) (\<lambda>hooks.
     Inr \<lparr>tl_settings = settings, tl_cert = cert, tl_private_key = private_key, tl_hooks = hooks, tl_users = users\<rparr>)))))"

text \<open>
  Every connection that is accepted becomes an application of its own; one that fails to be accepted is skipped.
  When there are no more, the inbound ends with an error.
\<close>

fun tuic_accept :: "string \<Rightarrow> tuic_user list \<Rightarrow> instant res list \<Rightarrow> tuic_app list \<times> unit res" where
  "tuic_accept tag users [] = ([], Inl (Bail ''tuic listener ended''))"
| "tuic_accept tag users (Inr now # rest) =
     (case tuic_accept tag users rest of (apps, result) \<Rightarrow> (tuic_app_new tag users now # apps, result))"
| "tuic_accept tag users (Inl e # rest) = tuic_accept tag users rest"

text \<open>The listener of SOCKS5 and AnyTLS: the connections accepted before the first error, which ends the inbound.\<close>

fun accept_loop :: "'p res list \<Rightarrow> 'p list \<times> error option" where
  "accept_loop [] = ([], None)"
| "accept_loop (Inr peer # rest) = (case accept_loop rest of (peers, e) \<Rightarrow> (peer # peers, e))"
| "accept_loop (Inl e # rest) = ([], Some e)"

section \<open>What a start gives\<close>

lemma load_Inr:
  "load parse_toml path fs = (Inr cfg, fs') \<Longrightarrow> validate cfg = Inr () \<and> fs_files fs' = fs_files fs \<and> (calm fs \<longrightarrow> calm fs')"
  by (auto simp: load_def sm_bind_Inr_iff sm_lift_Inr sm_return_def fs_read_def fs_next_def calm_def
      split: prod.splits option.splits list.splits)

lemma start_Inr:
  assumes "start env pki api into_values answers build parse_toml path fs = (Inr st, fs')"
  obtains cfg fs1 where "load parse_toml path fs = (Inr cfg, fs1)"
    "acme_prepare env pki api into_values answers cfg fs1 = (Inr (st_config st, st_acme st), fs')"
    "router_new build (st_config st) = Inr (st_router st)" "st_inbounds st = inbounds (st_config st)"
  using assms by (auto simp: start_def sm_bind_Inr_iff sm_lift_Inr sm_return_def)

lemma prepared_inbounds:
  assumes "acme_prepare env pki api into_values answers cfg fs = (Inr (cfg', manager), fs')"
  shows "list_all2 (with_certificate env (acme_config_of cfg)) (inbounds cfg) (inbounds cfg')"
proof -
  obtain targets where "configure_targets env cfg (acme_config_of cfg) = Inr (cfg', targets)"
    using assms by (auto simp: acme_prepare_def sm_bind_Inr_iff sm_lift_Inr sm_return_def Let_def split: if_splits)
  from configure_targets_correct [OF this] show ?thesis by blast
qed

lemma with_certificate_same:
  assumes "with_certificate env cfg i i'"
  shows "in_tag i' = in_tag i \<and> in_listen i' = in_listen i \<and> in_protocol i' = in_protocol i"
  using assms by (cases "acme_names i") (auto simp: with_certificate_def)

lemma with_certificate_paths:
  assumes "with_certificate env cfg i i'" "in_tls i' = Some tls" "\<And>tls. in_tls i = Some tls \<Longrightarrow> validate_tls tls = Inr ()"
  shows "is_ok (certificate_path tls) \<and> is_ok (private_key_path tls)"
proof (cases "acme_names i")
  case None
  then have "in_tls i = Some tls" "tls_acme tls = None" using assms(1,2) by (auto simp: with_certificate_def acme_names_def split: bind_splits)
  with assms(3) [of tls] show ?thesis by (auto simp: validate_tls_iff tls_ok_def certificate_path_def private_key_path_def is_ok_iff)
next
  case (Some names)
  then show ?thesis using assms(1,2) by (auto simp: with_certificate_def certificate_path_def private_key_path_def is_ok_iff)
qed

text \<open>The events that can happen with these tasks.\<close>

definition possible ::
    "(inbound_config \<Rightarrow> unit res) \<Rightarrow> (inbound_config \<Rightarrow> unit res) \<Rightarrow> (inbound_config \<Rightarrow> unit res) \<Rightarrow>
     inbound_config list \<Rightarrow> main_event \<Rightarrow> bool" where
  "possible socks5_run anytls_run tuic_run tasks event \<longleftrightarrow>
     (case event of
        JoinNext None \<Rightarrow> tasks = []
      | JoinNext (Some (Inl panic)) \<Rightarrow> tasks \<noteq> []
      | JoinNext (Some (Inr result)) \<Rightarrow> \<exists>cfg \<in> set tasks. result = inbound_task socks5_run anytls_run tuic_run cfg
      | CtrlC result \<Rightarrow> True)"

lemma main_select_ok:
  "possible socks5_run anytls_run tuic_run tasks event \<Longrightarrow> main_select event = Inr () \<longleftrightarrow> event = CtrlC (Inr ())"
  by (auto simp: possible_def main_select_def inbound_task_def and_then_Inr_iff split: main_event.splits option.splits sum.splits)

lemma main_select_inbounds:
  "possible socks5_run anytls_run tuic_run tasks event \<Longrightarrow> tasks \<noteq> [] \<Longrightarrow> event \<noteq> JoinNext None"
  by (auto simp: possible_def)

lemma anytls_setup_ready:
  assumes "calm fs" "stores pki t fs" "server_lib_ok lib" "asks_acme i tls" "is_ok (parse_padding_scheme (padding_scheme i))"
    and "certificate tls = Some (at_cert_path t)" "private_key tls = Some (at_key_path t)"
  shows "is_ok (fst (anytls_setup lib pki core md5_hex i fs))"
proof -
  have tls: "in_tls i = Some tls" "tls_acme tls \<noteq> None" using assms(4) by (simp_all add: asks_acme_def)
  obtain ctx fs' where "server_acceptor lib pki tls fs = (Inr ctx, fs')"
    using acceptor_stored [OF assms(1-3) tls(2) assms(6,7)] by blast
  with tls(1) assms(5) show ?thesis
    by (auto simp: anytls_setup_def is_ok_iff sm_bind_def sm_lift_def sm_return_def Let_def)
qed

lemma tuic_setup_ready:
  assumes "in_tls i = Some tls" "is_ok (certificate_path tls)" "is_ok (private_key_path tls)"
    and "is_ok (parse_users parse_uuid (case in_users i of None \<Rightarrow> [] | Some users \<Rightarrow> users))"
  shows "is_ok (tuic_setup defaults parse_uuid i)"
  using assms by (auto simp: tuic_setup_def quic_hooks_def is_ok_iff Let_def)


lemma insert_outbounds_total: "is_ok (insert_outbounds (\<lambda>_. Inr ()) table os)"
  by (induction os arbitrary: table) (simp_all add: is_ok_def)


end
